(* ===== verification/Prelude.thy ===== *)
theory Prelude
  imports Main "HOL-Library.Word"
begin

text \<open>
  Shared vocabulary of the development: machine words and byte strings, the error
  values and the result type that every fallible function of the source returns, a
  state-passing form for methods on \<open>&mut self\<close>, the parts of Rust's \<open>str\<close> and
  \<open>slice\<close> library the source uses, big-endian integers, and the generic lemmas on
  lists and options that the component theories share.

  A Rust \<open>String\<close> is a HOL \<open>string\<close> whose characters are its UTF-8 code units
  (a HOL \<open>char\<close> is one byte), a \<open>Vec<u8>\<close> is a list of \<open>8 word\<close>.
\<close>

section \<open>Words, bytes and strings\<close>

type_synonym u8 = "8 word"
type_synonym u16 = "16 word"
type_synonym u32 = "32 word"
type_synonym u64 = "64 word"
type_synonym bytes = "u8 list"
type_synonym str = string

named_theorems codec_simps \<open>decoder equations on an encoding followed by any rest\<close>
named_theorems eval_simps \<open>definitions to unfold when evaluating on concrete input\<close>
named_theorems res_simps \<open>inversion of the result combinators\<close>

section \<open>Errors and results\<close>

text \<open>
  The variants of \<open>error::Error\<close> that the modelled code returns. \<open>Panic\<close> is not a
  variant of the source: it stands for a Rust panic (a slice out of range), so that a
  theorem can say that a function never panics.
\<close>

datatype error =
    FileExpired
  | IntegrityCheckFailed
  | InvalidTreeSpec
  | InvalidPublicKey
  | SignatureVerificationFailed
  | BundleFieldTooLarge
  | InvalidBridgePackage
  | InvalidTrackedFile
  | InvalidExportBundle
  | ShareShapeMismatch
  | InvalidShareToken
  | ShareExpired
  | ShareRevoked
  | ShareExhausted
  | InvalidExpiresAt
  | Db
  | QuorumNotMet
  | InvalidQuorumThreshold
  | KeyRevoked
  | WrongKeyType
  | NodeNotFound
  | DuplicateNodeLabel
  | InvalidBridge
  | BridgeNotWhitelisted
  | BridgeNotFound
  | CannotEvict
  | CannotAddLeaf
  | TreeNotFound
  | StalePublicTree
  | InvalidDevice
  | CustodyViolation
  | PhysicalDevicesNotMet
  | GhostDenied
  | Panic

type_synonym 'a result = "error + 'a"

abbreviation Ok :: "'a \<Rightarrow> 'a result" where
  "Ok \<equiv> Inr"

abbreviation Err :: "error \<Rightarrow> 'a result" where
  "Err \<equiv> Inl"

text \<open>Rust's \<open>?\<close> operator: the rest runs only on a value, an error returns at once.\<close>

definition and_then :: "'a result \<Rightarrow> ('a \<Rightarrow> 'b result) \<Rightarrow> 'b result" where
  "and_then r k = (case r of Inl e \<Rightarrow> Inl e | Inr x \<Rightarrow> k x)"

lemma and_then_simps [simp]:
  "and_then (Inl e) k = Inl e"
  "and_then (Inr x) k = k x"
  by (simp_all add: and_then_def)

lemma and_then_cong [fundef_cong]:
  "r = r' \<Longrightarrow> (\<And>x. r' = Inr x \<Longrightarrow> k x = k' x) \<Longrightarrow> and_then r k = and_then r' k'"
  by (cases r') simp_all

lemma and_then_Ok_iff [res_simps]:
  "and_then r k = Inr y \<longleftrightarrow> (\<exists>x. r = Inr x \<and> k x = Inr y)"
  by (cases r) auto

lemma and_then_OkE [elim!]:
  assumes "and_then r k = Inr y"
  obtains x where "r = Inr x" and "k x = Inr y"
  using assms by (auto simp: and_then_Ok_iff)

text \<open>\<open>ok_or(e)?\<close>, \<open>map_err(|_| e)\<close> and a guard that returns early.\<close>

definition ok_or :: "error \<Rightarrow> 'a option \<Rightarrow> 'a result" where
  "ok_or e x = (case x of None \<Rightarrow> Inl e | Some v \<Rightarrow> Inr v)"

definition map_err :: "error \<Rightarrow> 'a result \<Rightarrow> 'a result" where
  "map_err e r = (case r of Inl _ \<Rightarrow> Inl e | Inr v \<Rightarrow> Inr v)"

definition guard :: "bool \<Rightarrow> error \<Rightarrow> unit result" where
  "guard b e = (if b then Inr () else Inl e)"

definition is_ok :: "'a result \<Rightarrow> bool" where
  "is_ok r = (case r of Inl _ \<Rightarrow> False | Inr _ \<Rightarrow> True)"

lemma ok_or_simps [simp]:
  "ok_or e None = Inl e" "ok_or e (Some v) = Inr v"
  by (simp_all add: ok_or_def)

lemma ok_or_Ok_iff [simp, res_simps]: "ok_or e x = Inr v \<longleftrightarrow> x = Some v"
  by (cases x) auto

lemma map_err_simps [simp]:
  "map_err e (Inl e') = Inl e" "map_err e (Inr v) = Inr v"
  by (simp_all add: map_err_def)

lemma map_err_Ok_iff [simp, res_simps]: "map_err e r = Inr v \<longleftrightarrow> r = Inr v"
  by (cases r) auto

lemma guard_simps [simp]:
  "guard True e = Inr ()" "guard False e = Inl e"
  by (simp_all add: guard_def)

lemma guard_Ok_iff [simp, res_simps]: "guard b e = Inr u \<longleftrightarrow> b"
  by (auto simp: guard_def)

lemma is_ok_simps [simp]:
  "is_ok (Inl e) = False" "is_ok (Inr v) = True"
  by (simp_all add: is_ok_def)

lemma is_ok_iff: "is_ok r \<longleftrightarrow> (\<exists>v. r = Inr v)"
  by (cases r) auto

text \<open>Collecting a fallible map over a list, stopping at the first error.\<close>

fun mapM :: "('a \<Rightarrow> 'b result) \<Rightarrow> 'a list \<Rightarrow> 'b list result" where
  "mapM f [] = Ok []"
| "mapM f (x # xs) = and_then (f x) (\<lambda>y. and_then (mapM f xs) (\<lambda>ys. Ok (y # ys)))"

lemma mapM_append:
  "mapM f (xs @ ys) = and_then (mapM f xs) (\<lambda>us. and_then (mapM f ys) (\<lambda>vs. Ok (us @ vs)))"
proof (induction xs)
  case Nil
  then show ?case by (cases "mapM f ys") auto
next
  case (Cons x xs)
  then show ?case
    by (cases "f x"; cases "mapM f xs"; cases "mapM f ys") auto
qed

lemma mapM_length: "mapM f xs = Ok ys \<Longrightarrow> length ys = length xs"
  by (induction xs arbitrary: ys) auto

section \<open>Methods that change a state\<close>

text \<open>
  A method on \<open>&mut self\<close> that returns a \<open>Result\<close>: it yields the result and the state
  it leaves behind, also when it fails (\<open>atomically\<close> undoes what a failing step wrote,
  so the state on an error is observable).
\<close>

type_synonym ('s, 'a) op = "'s \<Rightarrow> 'a result \<times> 's"

definition ret :: "'a \<Rightarrow> ('s, 'a) op" where
  "ret x s = (Inr x, s)"

definition fail :: "error \<Rightarrow> ('s, 'a) op" where
  "fail e s = (Inl e, s)"

definition bind_op :: "('s, 'a) op \<Rightarrow> ('a \<Rightarrow> ('s, 'b) op) \<Rightarrow> ('s, 'b) op" where
  "bind_op m k s = (case m s of (Inl e, t) \<Rightarrow> (Inl e, t) | (Inr x, t) \<Rightarrow> k x t)"

definition lift :: "('s \<Rightarrow> 'a result) \<Rightarrow> ('s, 'a) op" where
  "lift f s = (f s, s)"

definition modify :: "('s \<Rightarrow> 's) \<Rightarrow> ('s, unit) op" where
  "modify f s = (Inr (), f s)"

lemma op_simps [simp]:
  "ret x s = (Inr x, s)"
  "fail e s = (Inl e, s)"
  "lift f s = (f s, s)"
  "modify g s = (Inr (), g s)"
  by (simp_all add: ret_def fail_def lift_def modify_def)

lemma bind_op_Ok_iff [res_simps]:
  "bind_op m k s = (Inr y, u) \<longleftrightarrow> (\<exists>x t. m s = (Inr x, t) \<and> k x t = (Inr y, u))"
  by (cases "m s"; cases "fst (m s)") (auto simp: bind_op_def split: sum.splits)

lemma bind_op_Err_iff [res_simps]:
  "bind_op m k s = (Inl e, u) \<longleftrightarrow>
     m s = (Inl e, u) \<or> (\<exists>x t. m s = (Inr x, t) \<and> k x t = (Inl e, u))"
  by (cases "m s"; cases "fst (m s)") (auto simp: bind_op_def split: sum.splits)

lemma bind_op_lift [simp]:
  "bind_op (lift f) k s = (case f s of Inl e \<Rightarrow> (Inl e, s) | Inr x \<Rightarrow> k x s)"
  by (simp add: bind_op_def split: sum.splits)

lemma bind_op_eval: "m s = (Inr x, t) \<Longrightarrow> bind_op m k s = k x t"
  by (simp add: bind_op_def)

section \<open>Lists\<close>

lemma takeWhile_dropWhile_append: "takeWhile P xs @ dropWhile P xs = xs"
  by simp

lemma find_Some_split:
  "List.find P xs = Some x \<Longrightarrow> \<exists>us vs. xs = us @ x # vs \<and> P x \<and> (\<forall>u \<in> set us. \<not> P u)"
proof (induction xs)
  case Nil
  then show ?case by simp
next
  case (Cons y ys)
  show ?case
  proof (cases "P y")
    case True
    with Cons.prems show ?thesis by (auto intro: exI [of _ "[]"])
  next
    case False
    with Cons obtain us vs where "ys = us @ x # vs" "P x" "\<forall>u \<in> set us. \<not> P u"
      by auto
    with False have "y # ys = (y # us) @ x # vs \<and> P x \<and> (\<forall>u \<in> set (y # us). \<not> P u)"
      by simp
    then show ?thesis by blast
  qed
qed

lemma find_SomeD: "List.find P xs = Some x \<Longrightarrow> x \<in> set xs \<and> P x"
  by (auto dest: find_Some_split)

lemma find_None_iff_ball: "List.find P xs = None \<longleftrightarrow> (\<forall>x \<in> set xs. \<not> P x)"
  by (auto simp: find_None_iff)

lemma find_Some_unique:
  assumes "distinct (map f xs)" and "x \<in> set xs"
  shows "List.find (\<lambda>y. f y = f x) xs = Some x"
proof (cases "List.find (\<lambda>y. f y = f x) xs")
  case None
  with assms(2) show ?thesis by (auto simp: find_None_iff)
next
  case (Some y)
  then have "y \<in> set xs" "f y = f x" by (auto dest: find_SomeD)
  with assms have "y = x" by (auto simp: distinct_map inj_on_def)
  with Some show ?thesis by simp
qed

section \<open>Big-endian integers\<close>

text \<open>
  \<open>to_be n v\<close> is \<open>v.to_be_bytes()\<close> for an \<open>n\<close>-byte integer; \<open>from_be\<close> is
  \<open>from_be_bytes\<close>, read as a natural number.
\<close>

fun to_be :: "nat \<Rightarrow> nat \<Rightarrow> bytes" where
  "to_be 0 v = []"
| "to_be (Suc n) v = to_be n (v div 256) @ [word_of_nat v]"

definition from_be :: "bytes \<Rightarrow> nat" where
  "from_be bs = foldl (\<lambda>a b. a * 256 + unat b) 0 bs"

lemma to_be_numeral:
  "to_be (numeral k) v = to_be (pred_numeral k) (v div 256) @ [word_of_nat v]"
  by (simp only: numeral_eq_Suc [of k] to_be.simps)

lemma length_to_be [simp]: "length (to_be n v) = n"
  by (induction n arbitrary: v) simp_all

lemma from_be_snoc: "from_be (bs @ [b]) = from_be bs * 256 + unat b"
  by (simp add: from_be_def)

lemma from_be_to_be_mod: "from_be (to_be n v) = v mod 256 ^ n"
proof (induction n arbitrary: v)
  case 0
  then show ?case by (simp add: from_be_def)
next
  case (Suc n)
  have "from_be (to_be (Suc n) v) = (v div 256) mod 256 ^ n * 256 + v mod 256"
    by (simp add: from_be_snoc Suc.IH unat_of_nat)
  also have "\<dots> = v mod (256 * 256 ^ n)"
    by (metis mod_mult2_eq mult.commute)
  finally show ?case by simp
qed

lemma from_be_to_be [simp]: "v < 256 ^ n \<Longrightarrow> from_be (to_be n v) = v"
  by (simp add: from_be_to_be_mod)

lemma u8_unat_bound [simp]: "unat (b :: u8) < 256"
  by (rule order_less_le_trans [OF unsigned_less]) simp

lemma u64_unat_bound [simp]: "unat (w :: u64) < 256 ^ 8"
  by (rule order_less_le_trans [OF unsigned_less]) simp

lemma from_be_bound: "from_be bs < 256 ^ length bs"
proof (induction bs rule: rev_induct)
  case Nil
  then show ?case by (simp add: from_be_def)
next
  case (snoc b bs)
  then have "from_be bs * 256 + unat b < (from_be bs + 1) * 256" by simp
  also have "\<dots> \<le> 256 ^ length bs * 256"
    using snoc by (intro mult_le_mono1) simp
  finally show ?case by (simp add: from_be_snoc mult.commute)
qed

lemma unat_u8_of_nat: "unat (word_of_nat n :: u8) = n mod 256"
  by (simp add: unat_of_nat)

lemma to_be_from_be: "to_be (length bs) (from_be bs) = bs"
proof (induction bs rule: rev_induct)
  case Nil
  then show ?case by simp
next
  case (snoc b bs)
  have "unat b < 256" by simp
  then have "(from_be bs * 256 + unat b) div 256 = from_be bs" by simp
  moreover have "(word_of_nat (from_be bs * 256 + unat b) :: u8) = b"
    unfolding word_unat_eq_iff unat_u8_of_nat by simp
  ultimately show ?case using snoc by (simp add: from_be_snoc)
qed

end
