(* ===== verification/RustStr.thy ===== *)
theory RustStr
  imports Prelude "HOL-Library.Char_ord" "HOL-Library.List_Lexorder"
begin

text \<open>
  The operations of Rust's \<open>str\<close> the source uses, on strings of UTF-8 code units:
  conversion to and from bytes, splitting and joining, prefixes and suffixes, iteration
  over characters (each as its UTF-8 sequence), decimal numbers. A \<open>str\<close> of the source
  is always valid UTF-8; where a lemma needs that type invariant it is \<open>str_ok\<close>. String
  order is lexicographic on the code units, as Rust's is.
\<close>

section \<open>UTF-8\<close>

definition as_bytes :: "str \<Rightarrow> bytes" where
  "as_bytes s = map (\<lambda>c. word_of_nat (of_char c)) s"

definition is_cont :: "u8 \<Rightarrow> bool" where
  "is_cont b \<longleftrightarrow> 0x80 \<le> b \<and> b \<le> 0xBF"

text \<open>What \<open>core::str::from_utf8\<close> accepts: the well-formed sequences of RFC 3629.\<close>

fun utf8_ok :: "bytes \<Rightarrow> bool" where
  "utf8_ok [] = True"
| "utf8_ok (a # bs) =
     (if a < 0x80 then utf8_ok bs
      else case bs of
        [] \<Rightarrow> False
      | b # cs \<Rightarrow>
          if 0xC2 \<le> a \<and> a \<le> 0xDF then is_cont b \<and> utf8_ok cs
          else case cs of
            [] \<Rightarrow> False
          | c # ds \<Rightarrow>
              if 0xE0 \<le> a \<and> a \<le> 0xEF then
                is_cont b \<and> (a = 0xE0 \<longrightarrow> 0xA0 \<le> b) \<and> (a = 0xED \<longrightarrow> b \<le> 0x9F)
                  \<and> is_cont c \<and> utf8_ok ds
              else case ds of
                [] \<Rightarrow> False
              | d # es \<Rightarrow>
                  0xF0 \<le> a \<and> a \<le> 0xF4 \<and> is_cont b \<and> (a = 0xF0 \<longrightarrow> 0x90 \<le> b)
                    \<and> (a = 0xF4 \<longrightarrow> b \<le> 0x8F) \<and> is_cont c \<and> is_cont d \<and> utf8_ok es)"

definition from_utf8 :: "bytes \<Rightarrow> str option" where
  "from_utf8 bs = (if utf8_ok bs then Some (map (\<lambda>b. char_of (unat b)) bs) else None)"

definition str_ok :: "str \<Rightarrow> bool" where
  "str_ok s = utf8_ok (as_bytes s)"

lemma length_as_bytes [simp]: "length (as_bytes s) = length s"
  by (simp add: as_bytes_def)

lemma as_bytes_append [simp]: "as_bytes (s @ t) = as_bytes s @ as_bytes t"
  by (simp add: as_bytes_def)

lemma as_bytes_Nil_iff [simp]: "as_bytes s = [] \<longleftrightarrow> s = []"
  by (simp add: as_bytes_def)

lemma of_char_u8: "unat (word_of_nat (of_char c) :: u8) = of_char c"
  by (simp add: unat_u8_of_nat)

lemma char_of_as_byte [simp]: "char_of (unat (word_of_nat (of_char c) :: u8)) = c"
  by (simp add: of_char_u8)

lemma as_bytes_inverse: "map (\<lambda>b. char_of (unat b)) (as_bytes s) = s"
  by (simp add: as_bytes_def o_def)

lemma as_bytes_inject [simp]: "as_bytes s = as_bytes t \<longleftrightarrow> s = t"
  by (metis as_bytes_inverse)

lemma from_utf8_as_bytes [simp]: "str_ok s \<Longrightarrow> from_utf8 (as_bytes s) = Some s"
  by (simp add: from_utf8_def str_ok_def as_bytes_inverse)

lemma as_bytes_char_of: "as_bytes (map (\<lambda>b. char_of (unat b)) bs) = bs"
  by (induction bs) (simp_all add: as_bytes_def)

lemma from_utf8_SomeD: "from_utf8 bs = Some s \<Longrightarrow> as_bytes s = bs \<and> str_ok s"
  by (auto simp: from_utf8_def str_ok_def as_bytes_char_of split: if_splits)

lemma str_ok_Nil [simp]: "str_ok []"
  by (simp add: str_ok_def as_bytes_def)

section \<open>Splitting and joining\<close>

fun split :: "char \<Rightarrow> str \<Rightarrow> str list" where
  "split c [] = [[]]"
| "split c (x # xs) =
     (if x = c then [] # split c xs
      else case split c xs of [] \<Rightarrow> [[x]] | p # ps \<Rightarrow> (x # p) # ps)"

fun join :: "str \<Rightarrow> str list \<Rightarrow> str" where
  "join sep [] = []"
| "join sep [p] = p"
| "join sep (p # q # ps) = p @ sep @ join sep (q # ps)"

fun split_inclusive :: "char \<Rightarrow> str \<Rightarrow> str list" where
  "split_inclusive c [] = []"
| "split_inclusive c (x # xs) =
     (if x = c then [x] # split_inclusive c xs
      else case split_inclusive c xs of [] \<Rightarrow> [[x]] | p # ps \<Rightarrow> (x # p) # ps)"

definition split_once :: "char \<Rightarrow> str \<Rightarrow> (str \<times> str) option" where
  "split_once c s =
     (if c \<in> set s then Some (takeWhile (\<lambda>x. x \<noteq> c) s, tl (dropWhile (\<lambda>x. x \<noteq> c) s)) else None)"

definition rsplit_once :: "char \<Rightarrow> str \<Rightarrow> (str \<times> str) option" where
  "rsplit_once c s =
     map_option (\<lambda>(u, v). (rev v, rev u)) (split_once c (rev s))"

definition strip_prefix :: "str \<Rightarrow> str \<Rightarrow> str option" where
  "strip_prefix p s = (if take (length p) s = p then Some (drop (length p) s) else None)"

definition strip_suffix :: "str \<Rightarrow> str \<Rightarrow> str option" where
  "strip_suffix p s = map_option rev (strip_prefix (rev p) (rev s))"

definition trim_matches :: "char \<Rightarrow> str \<Rightarrow> str" where
  "trim_matches c s = rev (dropWhile (\<lambda>x. x = c) (rev (dropWhile (\<lambda>x. x = c) s)))"

lemma split_not_Nil [simp]: "split c s \<noteq> []"
  by (cases s) (auto split: list.splits)

lemma split_Cons_other:
  "x \<noteq> c \<Longrightarrow> split c (x # xs) = (x # hd (split c xs)) # tl (split c xs)"
  by (cases "split c xs") auto

lemma split_no_sep: "p \<in> set (split c s) \<Longrightarrow> c \<notin> set p"
  by (induction s arbitrary: p) (auto split: list.splits if_splits)

lemma join_split [simp]: "join [c] (split c s) = s"
proof (induction s)
  case Nil
  then show ?case by simp
next
  case (Cons x xs)
  obtain p ps where ps: "split c xs = p # ps" by (cases "split c xs") auto
  then show ?case using Cons.IH by (cases ps) auto
qed

lemma split_append_sep:
  "c \<notin> set p \<Longrightarrow> split c (p @ c # s) = p # split c s"
  by (induction p) auto

lemma split_join:
  "ps \<noteq> [] \<Longrightarrow> \<forall>p \<in> set ps. c \<notin> set p \<Longrightarrow> split c (join [c] ps) = ps"
proof (induction "[c]" ps rule: join.induct)
  case (2 p)
  then show ?case by (induction p) auto
next
  case (3 p q ps)
  then show ?case by (simp add: split_append_sep)
qed simp

lemma split_inject: "split c s = split c t \<longleftrightarrow> s = t"
  by (metis join_split)

lemma split_append_both: "split c (a @ c # r) = split c a @ split c r"
proof (induction a)
  case (Cons x xs)
  then show ?case by (cases "split c xs") auto
qed simp

lemma join_append: "us \<noteq> [] \<Longrightarrow> vs \<noteq> [] \<Longrightarrow> join s (us @ vs) = join s us @ s @ join s vs"
proof (induction s us rule: join.induct)
  case (2 s p)
  then show ?case by (cases vs) auto
qed auto

lemma join_eq_Nil_iff: "join s ps = [] \<longleftrightarrow> ps = [] \<or> ps = [[]] \<or> (s = [] \<and> concat ps = [])"
  by (induction s ps rule: join.induct) auto

lemma concat_split_inclusive [simp]: "concat (split_inclusive c s) = s"
  by (induction s) (auto split: list.splits)

lemma split_inclusive_no_empty: "[] \<notin> set (split_inclusive c s)"
  by (induction s) (auto split: list.splits)

lemma split_once_Some_iff:
  "split_once c s = Some (u, v) \<longleftrightarrow> s = u @ c # v \<and> c \<notin> set u"
proof
  assume a: "split_once c s = Some (u, v)"
  then have c: "c \<in> set s" and u: "u = takeWhile (\<lambda>x. x \<noteq> c) s"
    and v: "v = tl (dropWhile (\<lambda>x. x \<noteq> c) s)"
    by (auto simp: split_once_def split: if_splits)
  from c have ne: "dropWhile (\<lambda>x. x \<noteq> c) s \<noteq> []" by (auto simp: dropWhile_eq_Nil_conv)
  then have "hd (dropWhile (\<lambda>x. x \<noteq> c) s) = c"
    using hd_dropWhile [OF ne] by simp
  with ne v have "dropWhile (\<lambda>x. x \<noteq> c) s = c # v"
    by (cases "dropWhile (\<lambda>x. x \<noteq> c) s") auto
  with u have "s = u @ c # v" using takeWhile_dropWhile_id [of "\<lambda>x. x \<noteq> c" s] by simp
  moreover have "c \<notin> set u" using u by (auto dest: set_takeWhileD)
  ultimately show "s = u @ c # v \<and> c \<notin> set u" by simp
next
  assume a: "s = u @ c # v \<and> c \<notin> set u"
  then have "takeWhile (\<lambda>x. x \<noteq> c) s = u" and "dropWhile (\<lambda>x. x \<noteq> c) s = c # v"
    by (auto simp: takeWhile_append dropWhile_append)
  with a show "split_once c s = Some (u, v)" by (simp add: split_once_def)
qed

lemma split_once_None_iff: "split_once c s = None \<longleftrightarrow> c \<notin> set s"
  by (simp add: split_once_def)

lemma rsplit_once_Some_iff:
  "rsplit_once c s = Some (u, v) \<longleftrightarrow> s = u @ c # v \<and> c \<notin> set v"
proof -
  have "rsplit_once c s = Some (u, v) \<longleftrightarrow> split_once c (rev s) = Some (rev v, rev u)"
    by (auto simp: rsplit_once_def)
  also have "\<dots> \<longleftrightarrow> rev s = rev v @ c # rev u \<and> c \<notin> set v"
    by (simp add: split_once_Some_iff)
  also have "rev v @ c # rev u = rev (u @ c # v)" by simp
  also have "rev s = rev (u @ c # v) \<longleftrightarrow> s = u @ c # v" by (rule rev_is_rev_conv)
  finally show ?thesis .
qed

lemma rsplit_once_None_iff: "rsplit_once c s = None \<longleftrightarrow> c \<notin> set s"
  by (simp add: rsplit_once_def split_once_None_iff)

lemma strip_prefix_Some_iff: "strip_prefix p s = Some r \<longleftrightarrow> s = p @ r"
  by (auto simp: strip_prefix_def) (metis append_take_drop_id)

lemma strip_suffix_Some_iff: "strip_suffix p s = Some r \<longleftrightarrow> s = r @ p"
proof -
  have "strip_suffix p s = Some r \<longleftrightarrow> strip_prefix (rev p) (rev s) = Some (rev r)"
    by (auto simp: strip_suffix_def)
  also have "\<dots> \<longleftrightarrow> rev s = rev (r @ p)" by (simp add: strip_prefix_Some_iff)
  finally show ?thesis by (simp only: rev_is_rev_conv)
qed

lemma trim_matches_no_change:
  "s = [] \<or> (hd s \<noteq> c \<and> last s \<noteq> c) \<Longrightarrow> trim_matches c s = s"
proof (cases "s = []")
  case False
  assume "s = [] \<or> (hd s \<noteq> c \<and> last s \<noteq> c)"
  with False have h: "hd s \<noteq> c" "hd (rev s) \<noteq> c" by (auto simp: hd_rev)
  have dw: "dropWhile (\<lambda>x. x = c) t = t" if "hd t \<noteq> c" for t
    using that by (cases t) auto
  show ?thesis using h by (simp add: trim_matches_def dw)
qed (simp add: trim_matches_def)

lemma set_trim_matches: "set (trim_matches c s) \<subseteq> set s"
  unfolding trim_matches_def by (auto dest!: set_dropWhileD)

section \<open>Characters\<close>

text \<open>
  The characters of a string, each as its UTF-8 sequence: a code unit that is not a
  continuation byte, with the continuation bytes after it.
\<close>

definition cont_char :: "char \<Rightarrow> bool" where
  "cont_char c \<longleftrightarrow> is_cont (word_of_nat (of_char c))"

function chars :: "str \<Rightarrow> str list" where
  "chars [] = []"
| "chars (c # s) = (c # takeWhile cont_char s) # chars (dropWhile cont_char s)"
  by pat_completeness auto
termination
  by (relation "measure length") (auto simp: le_imp_less_Suc length_dropWhile_le)

lemma concat_chars [simp]: "concat (chars s) = s"
  by (induction s rule: chars.induct) auto

section \<open>Numbers\<close>

definition is_ascii_digit :: "char \<Rightarrow> bool" where
  "is_ascii_digit c \<longleftrightarrow> 48 \<le> (of_char c :: nat) \<and> (of_char c :: nat) \<le> 57"

definition digit_val :: "char \<Rightarrow> nat" where
  "digit_val c = of_char c - 48"

text \<open>\<open>parse::<u32>()\<close>: an optional plus sign, then one or more digits, in range.\<close>

definition parse_u32 :: "str \<Rightarrow> nat option" where
  "parse_u32 s =
     (let t = (case s of c # r \<Rightarrow> if c = CHR ''+'' then r else s | [] \<Rightarrow> s) in
      if t = [] \<or> \<not> list_all is_ascii_digit t then None
      else let n = foldl (\<lambda>a c. a * 10 + digit_val c) 0 t in
           if n < 2 ^ 32 then Some n else None)"

fun nat_str :: "nat \<Rightarrow> str" where
  "nat_str n = (if n < 10 then [char_of (48 + n)] else nat_str (n div 10) @ [char_of (48 + n mod 10)])"

declare nat_str.simps [simp del]

section \<open>Valid strings\<close>

text \<open>
  Strings built from parts of valid strings are valid, so the type invariant \<open>str_ok\<close> of
  the strings that the code computes is a theorem and not an assumption.
\<close>

declare utf8_ok.simps(2) [simp del]

lemma cont_not_lead:
  assumes "is_cont b"
  shows "\<not> b < 0x80" "\<not> 0xC2 \<le> b" "\<not> 0xE0 \<le> b" "\<not> 0xF0 \<le> b"
  using assms by (simp_all add: is_cont_def word_le_nat_alt word_less_nat_alt)

text \<open>
  One step of the decoder: a lead byte and its continuation bytes \<open>q\<close> form a character,
  and the rest is decoded independently.
\<close>

definition utf8_first :: "u8 \<Rightarrow> bytes \<Rightarrow> bool" where
  "utf8_first a q \<longleftrightarrow> list_all is_cont q \<and> \<not> is_cont a \<and> (\<forall>r. utf8_ok (a # q @ r) = utf8_ok r)"

lemma utf8_ok_Cons: "utf8_ok (a # bs) \<Longrightarrow> \<exists>q r. bs = q @ r \<and> utf8_first a q \<and> utf8_ok r"
proof (cases "a < 0x80")
  case True
  assume "utf8_ok (a # bs)"
  with True show ?thesis
    by (intro exI [of _ "[]"] exI [of _ bs]) (auto simp: utf8_first_def utf8_ok.simps(2) cont_not_lead)
next
  case na: False
  assume ok: "utf8_ok (a # bs)"
  with na obtain b cs where bs: "bs = b # cs" by (cases bs) (auto simp: utf8_ok.simps(2))
  show ?thesis
  proof (cases "0xC2 \<le> a \<and> a \<le> 0xDF")
    case True
    with ok na bs show ?thesis
      by (intro exI [of _ "[b]"] exI [of _ cs])
         (auto simp: utf8_first_def utf8_ok.simps(2) [of a] cont_not_lead)
  next
    case nb: False
    with ok na bs obtain c ds where cs: "cs = c # ds"
      by (cases cs) (auto simp: utf8_ok.simps(2) [of a])
    show ?thesis
    proof (cases "0xE0 \<le> a \<and> a \<le> 0xEF")
      case True
      with ok na nb bs cs show ?thesis
        by (intro exI [of _ "[b, c]"] exI [of _ ds])
           (auto simp: utf8_first_def utf8_ok.simps(2) [of a] cont_not_lead)
    next
      case nc: False
      with ok na nb bs cs obtain d es where "ds = d # es"
        by (cases ds) (auto simp: utf8_ok.simps(2) [of a])
      with ok na nb nc bs cs show ?thesis
        by (intro exI [of _ "[b, c, d]"] exI [of _ es])
           (auto simp: utf8_first_def utf8_ok.simps(2) [of a] cont_not_lead)
    qed
  qed
qed

lemma utf8_firstD:
  assumes "utf8_first a q"
  shows "utf8_ok (a # q @ r) = utf8_ok r" and "utf8_ok (a # q)" and "\<not> is_cont a" and "list_all is_cont q"
proof -
  from assms have all: "utf8_ok (a # q @ r) = utf8_ok r" for r by (simp add: utf8_first_def)
  from all [of r] all [of "[]"] show "utf8_ok (a # q @ r) = utf8_ok r" "utf8_ok (a # q)" by simp_all
qed (use assms in \<open>simp_all add: utf8_first_def\<close>)

lemma utf8_ok_induct [consumes 1, case_names Nil Char]:
  assumes "utf8_ok bs" and "Q []" and "\<And>a q r. utf8_first a q \<Longrightarrow> utf8_ok r \<Longrightarrow> Q r \<Longrightarrow> Q (a # q @ r)"
  shows "Q bs"
  using assms(1)
proof (induction bs rule: length_induct)
  case (1 bs)
  show ?case
  proof (cases bs)
    case Nil
    then show ?thesis using assms(2) by simp
  next
    case (Cons a cs)
    with 1 utf8_ok_Cons [of a cs] obtain q r where "cs = q @ r" "utf8_first a q" "utf8_ok r" by auto
    with 1 Cons assms(3) show ?thesis by auto
  qed
qed

lemma utf8_ok_head: "utf8_ok (b # bs) \<Longrightarrow> \<not> is_cont b"
  by (auto dest!: utf8_ok_Cons utf8_firstD(3))

lemma utf8_ok_append: "utf8_ok x \<Longrightarrow> utf8_ok (x @ y) = utf8_ok y"
  by (induction x rule: utf8_ok_induct) (simp_all add: utf8_firstD)

lemma takeWhile_cont: "utf8_ok r \<Longrightarrow> takeWhile is_cont r = [] \<and> dropWhile is_cont r = r"
  by (cases r) (auto dest: utf8_ok_head)

lemma utf8_ok_first:
  assumes "utf8_ok (a # bs)"
  shows "utf8_ok (a # takeWhile is_cont bs) \<and> utf8_ok (dropWhile is_cont bs)"
proof -
  from utf8_ok_Cons [OF assms] obtain q r where bs: "bs = q @ r" and q: "utf8_first a q" and r: "utf8_ok r"
    by blast
  from utf8_firstD(4) [OF q] have "takeWhile is_cont bs = q" "dropWhile is_cont bs = r"
    using takeWhile_cont [OF r] by (auto simp: bs list_all_iff takeWhile_append2 dropWhile_append2)
  with utf8_firstD(2) [OF q] r show ?thesis by simp
qed

lemma utf8_ok_prefix: "utf8_ok bs \<Longrightarrow> bs = x @ y \<Longrightarrow> y = [] \<or> \<not> is_cont (hd y) \<Longrightarrow> utf8_ok x"
proof (induction bs arbitrary: x rule: utf8_ok_induct)
  case (Char a q r)
  show ?case
  proof (cases x)
    case (Cons b x')
    with Char have x': "q @ r = x' @ y" "b = a" by auto
    have "length q \<le> length x'"
    proof (rule ccontr)
      assume "\<not> length q \<le> length x'"
      then have "y \<noteq> [] \<and> hd y \<in> set q"
        using x' by (auto simp: append_eq_append_conv2 neq_Nil_conv)
      with Char.prems utf8_firstD(4) [OF Char.hyps(1)] show False by (auto simp: list_all_iff)
    qed
    with x' obtain z where "x' = q @ z" "r = z @ y" by (auto simp: append_eq_append_conv2)
    with Char x' Cons show ?thesis by (simp add: utf8_firstD(1) [OF Char.hyps(1)])
  qed simp
qed simp

lemma str_ok_append: "str_ok s \<Longrightarrow> str_ok t \<Longrightarrow> str_ok (s @ t)"
  by (simp add: str_ok_def utf8_ok_append)

lemma str_ok_concat: "\<forall>s \<in> set ss. str_ok s \<Longrightarrow> str_ok (concat ss)"
  by (induction ss) (auto intro: str_ok_append)

lemma str_ok_ascii: "\<forall>c \<in> set s. (of_char c :: nat) < 128 \<Longrightarrow> str_ok s"
proof (induction s)
  case (Cons c s)
  then have "(word_of_nat (of_char c) :: u8) < 0x80"
    by (simp add: word_less_nat_alt unat_of_nat)
  with Cons show ?case by (simp add: str_ok_def as_bytes_def utf8_ok.simps(2))
qed simp

lemma str_ok_before:
  assumes "str_ok (s @ c # t)" and "\<not> cont_char c"
  shows "str_ok s"
  using utf8_ok_prefix [of "as_bytes (s @ c # t)" "as_bytes s" "as_bytes (c # t)"] assms
  by (simp add: str_ok_def cont_char_def as_bytes_def)

definition char_seq :: "str \<Rightarrow> bool" where
  "char_seq k \<longleftrightarrow> k \<noteq> [] \<and> \<not> cont_char (hd k) \<and> list_all cont_char (tl k)"

lemma as_bytes_Cons: "as_bytes (c # s) = word_of_nat (of_char c) # as_bytes s"
  by (simp add: as_bytes_def)

lemma as_bytes_takeWhile: "as_bytes (takeWhile cont_char s) = takeWhile is_cont (as_bytes s)"
  by (induction s) (auto simp: as_bytes_def cont_char_def)

lemma as_bytes_dropWhile: "as_bytes (dropWhile cont_char s) = dropWhile is_cont (as_bytes s)"
  by (induction s) (auto simp: as_bytes_def cont_char_def)

lemma str_ok_hd: "str_ok (c # s) \<Longrightarrow> \<not> cont_char c"
  using utf8_ok_head by (auto simp: str_ok_def as_bytes_def cont_char_def)

lemma chars_ok: "str_ok s \<Longrightarrow> \<forall>k \<in> set (chars s). str_ok k \<and> char_seq k"
proof (induction s rule: chars.induct)
  case (2 c s)
  from 2(2) utf8_ok_first [of "word_of_nat (of_char c)" "as_bytes s"]
  have "str_ok (c # takeWhile cont_char s)" "str_ok (dropWhile cont_char s)"
    by (simp_all add: str_ok_def as_bytes_Cons as_bytes_dropWhile as_bytes_takeWhile)
  moreover have "char_seq (c # takeWhile cont_char s)"
    using str_ok_hd [OF 2(2)] by (auto simp: char_seq_def list_all_iff dest: set_takeWhileD)
  ultimately show ?case using 2(1) by simp
qed simp

lemma chars_concat: "\<forall>k \<in> set ks. char_seq k \<Longrightarrow> chars (concat ks) = ks"
proof (induction ks)
  case (Cons k ks)
  then obtain c cs where k: "k = c # cs" "\<forall>x \<in> set cs. cont_char x"
    by (cases k) (auto simp: char_seq_def list_all_iff)
  have hd: "takeWhile cont_char t = [] \<and> dropWhile cont_char t = t" if "t = [] \<or> \<not> cont_char (hd t)" for t
    using that by (cases t) auto
  have "concat ks = [] \<or> \<not> cont_char (hd (concat ks))"
    using Cons.prems by (cases ks) (auto simp: char_seq_def hd_append)
  from hd [OF this] k Cons show ?case by (simp add: takeWhile_append2 dropWhile_append2)
qed simp

lemmas [eval_simps] = str_ok_def as_bytes_def utf8_ok.simps is_cont_def

end
