(* ===== verification/Primitives.thy ===== *)
theory Primitives
  imports RustStr
begin

text \<open>
  The third-party code the source calls, as one record of functions that the modelled
  functions take as an argument: SHA-256 (\<open>sha2\<close>), Ed25519 (\<open>ed25519-dalek\<close>), sealed
  boxes (\<open>crypto_box\<close>), X25519 (\<open>x25519-dalek\<close>), hexadecimal text (\<open>hex\<close>), the
  Unicode tables behind \<open>char::is_alphanumeric\<close> and \<open>char::is_whitespace\<close>, and the
  random source. What the source relies on is stated below as named hypotheses.

  A hasher fed with several \<open>update\<close> calls is the digest of the concatenation, so a
  preimage is modelled as the bytes that are fed to it. The random event id drawn when
  the event at position \<open>n\<close> is appended is \<open>fresh_id n\<close>.
\<close>

record prims =
  sha256 :: "bytes \<Rightarrow> bytes"
  ed_key_ok :: "bytes \<Rightarrow> bool"
  ed_verify_strict :: "bytes \<Rightarrow> bytes \<Rightarrow> bytes \<Rightarrow> bool"
  ed_sign :: "bytes \<Rightarrow> bytes \<Rightarrow> bytes"
  ed_public :: "bytes \<Rightarrow> bytes"
  box_seal :: "bytes \<Rightarrow> bytes \<Rightarrow> bytes"
  box_unseal :: "bytes \<Rightarrow> bytes \<Rightarrow> bytes option"
  box_public :: "bytes \<Rightarrow> bytes"
  x25519 :: "bytes \<Rightarrow> bytes \<Rightarrow> bytes"
  hex_encode :: "bytes \<Rightarrow> str"
  is_alphanumeric :: "str \<Rightarrow> bool"
  is_whitespace :: "str \<Rightarrow> bool"
  fresh_id :: "nat \<Rightarrow> bytes"

text \<open>Digests are 32 bytes and random event ids 16 bytes (array types of the source).\<close>

definition sized_prims :: "prims \<Rightarrow> bool" where
  "sized_prims P \<longleftrightarrow>
     (\<forall>x. length (sha256 P x) = 32) \<and> (\<forall>n. length (fresh_id P n) = 16)
     \<and> (\<forall>k m. length (ed_sign P k m) = 64)"

text \<open>A signature verifies strictly under the public half of the key that made it.\<close>

definition signature_law :: "prims \<Rightarrow> bool" where
  "signature_law P \<longleftrightarrow>
     (\<forall>k m. ed_key_ok P (ed_public P k) \<and> ed_verify_strict P (ed_public P k) m (ed_sign P k m))"

text \<open>A box sealed to a public key opens under its secret key.\<close>

definition box_law :: "prims \<Rightarrow> bool" where
  "box_law P \<longleftrightarrow> (\<forall>k m. box_unseal P k (box_seal P (box_public P k) m) = Some m)"

text \<open>
  The hyphen and the full stop are not alphanumeric (and no other character has their code
  units in its UTF-8 sequence), ASCII letters and digits are.
\<close>

definition ascii_alnum :: "char \<Rightarrow> bool" where
  "ascii_alnum c \<longleftrightarrow>
     (let n = (of_char c :: nat) in (48 \<le> n \<and> n \<le> 57) \<or> (65 \<le> n \<and> n \<le> 90) \<or> (97 \<le> n \<and> n \<le> 122))"

definition unicode_law :: "prims \<Rightarrow> bool" where
  "unicode_law P \<longleftrightarrow>
     (\<forall>k. is_alphanumeric P k \<longrightarrow> k \<noteq> [] \<and> CHR ''-'' \<notin> set k \<and> CHR ''.'' \<notin> set k)
     \<and> (\<forall>c. ascii_alnum c \<longrightarrow> is_alphanumeric P [c])"

text \<open>Hexadecimal text is ASCII.\<close>

definition hex_law :: "prims \<Rightarrow> bool" where
  "hex_law P \<longleftrightarrow> (\<forall>bs. \<forall>c \<in> set (hex_encode P bs). (of_char c :: nat) < 128)"

text \<open>
  No two of the given preimages have the same digest. SHA-256 is not injective; a
  statement that rests on collision resistance names the finitely many preimages it
  compares.
\<close>

definition no_collision :: "prims \<Rightarrow> bytes set \<Rightarrow> bool" where
  "no_collision P A \<longleftrightarrow> inj_on (sha256 P) A"

lemma sized_primsD [simp]:
  assumes "sized_prims P"
  shows "length (sha256 P x) = 32" and "length (fresh_id P n) = 16" and "length (ed_sign P k m) = 64"
  using assms by (simp_all add: sized_prims_def)

lemma no_collisionD: "no_collision P A \<Longrightarrow> x \<in> A \<Longrightarrow> y \<in> A \<Longrightarrow> sha256 P x = sha256 P y \<Longrightarrow> x = y"
  by (auto simp: no_collision_def inj_on_def)

lemma no_collision_mono: "no_collision P B \<Longrightarrow> A \<subseteq> B \<Longrightarrow> no_collision P A"
  unfolding no_collision_def by (rule inj_on_subset)

section \<open>A concrete instance\<close>

text \<open>
  Concrete functions that satisfy the hypotheses, so that statements resting on them can
  be applied: a checksum of the length and the last bytes for the digest, a keyed digest
  for signatures, and boxes that carry their payload behind the public key.
\<close>

definition toy_hash :: "bytes \<Rightarrow> bytes" where
  "toy_hash bs = to_be 2 (length bs) @ take 30 (rev bs @ replicate 30 0)"

definition toy_sign :: "bytes \<Rightarrow> bytes \<Rightarrow> bytes" where
  "toy_sign k m = toy_hash (k @ m) @ toy_hash (m @ k)"

definition toy_prims :: prims where
  "toy_prims =
     \<lparr>sha256 = toy_hash,
      ed_key_ok = (\<lambda>_. True),
      ed_verify_strict = (\<lambda>k m s. s = toy_sign k m),
      ed_sign = toy_sign,
      ed_public = (\<lambda>k. k),
      box_seal = (\<lambda>k m. k @ m),
      box_unseal = (\<lambda>k c. if take (length k) c = k then Some (drop (length k) c) else None),
      box_public = (\<lambda>k. k),
      x25519 = (\<lambda>k p. p),
      hex_encode = (\<lambda>bs. replicate (2 * length bs) CHR ''a''),
      is_alphanumeric = (\<lambda>s. s \<noteq> [] \<and> list_all ascii_alnum s),
      is_whitespace = (\<lambda>s. s = '' ''),
      fresh_id = (\<lambda>n. to_be 16 n)\<rparr>"

lemma toy_prims_sel [simp]:
  "sha256 toy_prims = toy_hash"
  "ed_key_ok toy_prims k = True"
  "ed_verify_strict toy_prims k m sg = (sg = toy_sign k m)"
  "ed_sign toy_prims = toy_sign"
  "ed_public toy_prims k = k"
  "box_seal toy_prims k m = k @ m"
  "box_unseal toy_prims k c = (if take (length k) c = k then Some (drop (length k) c) else None)"
  "box_public toy_prims k = k"
  "x25519 toy_prims k p = p"
  "hex_encode toy_prims bs = replicate (2 * length bs) CHR ''a''"
  "is_alphanumeric toy_prims s = (s \<noteq> [] \<and> list_all ascii_alnum s)"
  "is_whitespace toy_prims s = (s = '' '')"
  "fresh_id toy_prims n = to_be 16 n"
  by (simp_all add: toy_prims_def)

lemma length_toy_hash [simp]: "length (toy_hash bs) = 32"
  by (simp add: toy_hash_def min_def)

lemma toy_sized [simp]: "sized_prims toy_prims"
  by (simp add: sized_prims_def toy_sign_def)

lemma toy_signature_law [simp]: "signature_law toy_prims"
  by (simp add: signature_law_def)

lemma toy_box_law [simp]: "box_law toy_prims"
  by (simp add: box_law_def)

lemma toy_hex_law [simp]: "hex_law toy_prims"
  by (auto simp: hex_law_def toy_prims_def)

lemma toy_unicode_law [simp]: "unicode_law toy_prims"
  by (auto simp: unicode_law_def ascii_alnum_def list_all_iff)

end
