(* ===== verification/Envelope.thy ===== *)
theory Envelope
  imports Primitives
begin

text \<open>
  The sealed outer envelope and the byte codec of \<open>src/envelope.rs\<close>. An encoder
  \<open>push_*\<close> yields the bytes it appends to the output vector; a decoder \<open>take_*\<close>
  yields the value and the rest of the slice it leaves behind.
\<close>

section \<open>Byte codec\<close>

definition push_len_prefixed :: "bytes \<Rightarrow> bytes result" where
  "push_len_prefixed bs =
     (if length bs < 2 ^ 16 then Ok (to_be 2 (length bs) @ bs) else Err BundleFieldTooLarge)"

definition hash_len_prefixed :: "bytes \<Rightarrow> bytes result" where
  "hash_len_prefixed bs =
     (if length bs < 2 ^ 16 then Ok (to_be 2 (length bs) @ bs) else Err BundleFieldTooLarge)"

definition hash_u16_count :: "nat \<Rightarrow> bytes result" where
  "hash_u16_count n = (if n < 2 ^ 16 then Ok (to_be 2 n) else Err BundleFieldTooLarge)"

definition push_len_prefixed_u32 :: "bytes \<Rightarrow> bytes result" where
  "push_len_prefixed_u32 bs =
     (if length bs < 2 ^ 32 then Ok (to_be 4 (length bs) @ bs) else Err BundleFieldTooLarge)"

definition take_u8 :: "bytes \<Rightarrow> (u8 \<times> bytes) result" where
  "take_u8 data = (case data of [] \<Rightarrow> Err InvalidBridgePackage | b # rest \<Rightarrow> Ok (b, rest))"

definition take_n :: "nat \<Rightarrow> bytes \<Rightarrow> (bytes \<times> bytes) result" where
  "take_n n data =
     (if length data < n then Err InvalidBridgePackage else Ok (take n data, drop n data))"

definition take_array :: "nat \<Rightarrow> bytes \<Rightarrow> (bytes \<times> bytes) result" where
  "take_array n data = take_n n data"

definition take_u32 :: "bytes \<Rightarrow> (nat \<times> bytes) result" where
  "take_u32 data = and_then (take_array 4 data) (\<lambda>(b, rest). Ok (from_be b, rest))"

definition take_len_prefixed :: "bytes \<Rightarrow> (bytes \<times> bytes) result" where
  "take_len_prefixed data = and_then (take_array 2 data) (\<lambda>(b, rest). take_n (from_be b) rest)"

definition take_len_prefixed_u32 :: "bytes \<Rightarrow> (bytes \<times> bytes) result" where
  "take_len_prefixed_u32 data = and_then (take_u32 data) (\<lambda>(len, rest). take_n len rest)"

definition utf8 :: "bytes \<Rightarrow> str result" where
  "utf8 bs = (case from_utf8 bs of None \<Rightarrow> Err InvalidBridgePackage | Some s \<Rightarrow> Ok s)"

lemma take_n_append [codec_simps]: "length xs = n \<Longrightarrow> take_n n (xs @ rest) = Ok (xs, rest)"
  by (simp add: take_n_def)

lemma take_array_append [codec_simps]:
  "length xs = n \<Longrightarrow> take_array n (xs @ rest) = Ok (xs, rest)"
  by (simp add: take_array_def take_n_append)

lemma take_u8_Cons [simp, codec_simps]: "take_u8 (b # rest) = Ok (b, rest)"
  by (simp add: take_u8_def)

lemma take_n_OkD: "take_n n data = Ok (x, rest) \<Longrightarrow> data = x @ rest \<and> length x = n"
  by (auto simp: take_n_def split: if_splits)

lemma take_array_OkD: "take_array n data = Ok (x, rest) \<Longrightarrow> data = x @ rest \<and> length x = n"
  by (simp add: take_array_def take_n_OkD)

lemma take_u32_append [codec_simps]:
  "n < 2 ^ 32 \<Longrightarrow> take_u32 (to_be 4 n @ rest) = Ok (n, rest)"
  by (simp add: take_u32_def take_array_append)

lemma push_len_prefixed_OkD:
  "push_len_prefixed bs = Ok e \<Longrightarrow> length bs < 2 ^ 16 \<and> e = to_be 2 (length bs) @ bs"
  by (auto simp: push_len_prefixed_def split: if_splits)

lemma take_push_len_prefixed [codec_simps]:
  "push_len_prefixed bs = Ok e \<Longrightarrow> take_len_prefixed (e @ rest) = Ok (bs, rest)"
  by (auto dest!: push_len_prefixed_OkD simp: take_len_prefixed_def take_array_append take_n_append)

lemma take_push_len_prefixed_u32 [codec_simps]:
  "push_len_prefixed_u32 bs = Ok e \<Longrightarrow> take_len_prefixed_u32 (e @ rest) = Ok (bs, rest)"
  by (auto simp: push_len_prefixed_u32_def take_len_prefixed_u32_def take_u32_append take_n_append
      split: if_splits)

lemma utf8_as_bytes [simp, codec_simps]: "str_ok s \<Longrightarrow> utf8 (as_bytes s) = Ok s"
  by (simp add: utf8_def)

section \<open>The envelope\<close>

record format =
  magic :: bytes
  format_version :: u8

definition PACKAGE :: format where
  "PACKAGE = \<lparr>magic = as_bytes ''KQPB'', format_version = 2\<rparr>"

definition EXPORT_BUNDLE :: format where
  "EXPORT_BUNDLE = \<lparr>magic = as_bytes ''KQXB'', format_version = 1\<rparr>"

definition KIND_DEVICE_TRANSFER :: u8 where "KIND_DEVICE_TRANSFER = 9"
definition KIND_DEVICE_TRANSFER_ACK :: u8 where "KIND_DEVICE_TRANSFER_ACK = 10"
definition KIND_DEVICE_RELOCATE :: u8 where "KIND_DEVICE_RELOCATE = 11"
definition KIND_DEVICE_RELOCATE_ACK :: u8 where "KIND_DEVICE_RELOCATE_ACK = 12"

definition is_device_workflow_kind :: "u8 \<Rightarrow> bool" where
  "is_device_workflow_kind k \<longleftrightarrow>
     k = KIND_DEVICE_TRANSFER \<or> k = KIND_DEVICE_TRANSFER_ACK
     \<or> k = KIND_DEVICE_RELOCATE \<or> k = KIND_DEVICE_RELOCATE_ACK"

definition is_weak_x25519_public_key :: "prims \<Rightarrow> bytes \<Rightarrow> bool" where
  "is_weak_x25519_public_key P public_key \<longleftrightarrow> x25519 P (replicate 32 1) public_key = replicate 32 0"

definition seal :: "prims \<Rightarrow> format \<Rightarrow> u8 \<Rightarrow> bytes \<Rightarrow> bytes \<Rightarrow> bytes result" where
  "seal P fmt kind recipient_public_key payload =
     (if is_weak_x25519_public_key P recipient_public_key then Err InvalidPublicKey
      else let sealed = box_seal P recipient_public_key payload in
        if length sealed < 2 ^ 32 then
          Ok (magic fmt @ [format_version fmt] @ [kind] @ recipient_public_key
              @ to_be 4 (length sealed) @ sealed)
        else Err BundleFieldTooLarge)"

definition framing_error :: "format \<Rightarrow> error" where
  "framing_error fmt = (if fmt = EXPORT_BUNDLE then InvalidExportBundle else InvalidBridgePackage)"

definition parse_outer_as :: "format \<Rightarrow> bytes \<Rightarrow> (u8 \<times> bytes \<times> bytes) result" where
  "parse_outer_as fmt bs =
     (let malformed = framing_error fmt in
      and_then (map_err malformed (take_n 4 bs)) (\<lambda>(m, data).
      if m \<noteq> magic fmt then Err malformed else
      and_then (map_err malformed (take_u8 data)) (\<lambda>(v, data).
      if v \<noteq> format_version fmt then Err malformed else
      and_then (map_err malformed (take_u8 data)) (\<lambda>(kind, data).
      and_then (map_err malformed (take_array 32 data)) (\<lambda>(recipient_public_key, data).
      and_then (map_err malformed (take_array 4 data)) (\<lambda>(len, data).
      and_then (map_err malformed (take_n (from_be len) data)) (\<lambda>(sealed, data).
      if data \<noteq> [] then Err malformed else Ok (kind, recipient_public_key, sealed))))))))"

definition parse_outer :: "bytes \<Rightarrow> (u8 \<times> bytes \<times> bytes) result" where
  "parse_outer bs = parse_outer_as PACKAGE bs"

definition format_of :: "bytes \<Rightarrow> format option" where
  "format_of bs =
     (if length bs < 4 then None
      else List.find (\<lambda>f. take 4 bs = magic f) [PACKAGE, EXPORT_BUNDLE])"

definition kind_of_prefix :: "bytes \<Rightarrow> u8 option" where
  "kind_of_prefix prefix =
     (if length prefix < 4 \<or> take 4 prefix \<noteq> magic PACKAGE then None
      else if length prefix \<le> 4 then None
      else if prefix ! 4 \<noteq> format_version PACKAGE then None
      else if length prefix \<le> 5 then None else Some (prefix ! 5))"

definition routing_public_key :: "bytes \<Rightarrow> bytes result" where
  "routing_public_key bs = and_then (parse_outer bs) (\<lambda>(_, recipient_public_key, _). Ok recipient_public_key)"

definition kind :: "bytes \<Rightarrow> u8 result" where
  "kind bs = and_then (parse_outer bs) (\<lambda>(k, _, _). Ok k)"

definition open_as :: "prims \<Rightarrow> format \<Rightarrow> bytes \<Rightarrow> bytes \<Rightarrow> (u8 \<times> bytes \<times> bytes) result" where
  "open_as P fmt bs recipient_secret =
     and_then (parse_outer_as fmt bs) (\<lambda>(k, recipient_public_key, sealed).
     and_then (ok_or (framing_error fmt) (box_unseal P recipient_secret sealed)) (\<lambda>payload.
     Ok (k, recipient_public_key, payload)))"

definition open_package :: "prims \<Rightarrow> bytes \<Rightarrow> bytes \<Rightarrow> (u8 \<times> bytes \<times> bytes) result" where
  "open_package P bs recipient_secret = open_as P PACKAGE bs recipient_secret"

lemma length_magic [simp]:
  "length (magic PACKAGE) = 4" "length (magic EXPORT_BUNDLE) = 4"
  by (simp_all add: PACKAGE_def EXPORT_BUNDLE_def)

lemma parse_outer_frame:
  assumes "length (magic fmt) = 4" and "length pk = 32" and "length sealed < 2 ^ 32"
  shows "parse_outer_as fmt
           (magic fmt @ [format_version fmt] @ [k] @ pk @ to_be 4 (length sealed) @ sealed)
         = Ok (k, pk, sealed)"
  using assms
  by (simp add: parse_outer_as_def take_n_append take_array_append take_n_append [of _ _ "[]", simplified])

text \<open>
  C38. A sealed envelope parses back to its kind, recipient key and sealed bytes, and the
  holder of the recipient's secret key reads the payload that was sealed.
\<close>

theorem open_seal:
  assumes "box_law P"
    and "length (magic fmt) = 4" and "length (box_public P sk) = 32"
    and "seal P fmt k (box_public P sk) payload = Ok bs"
  shows "parse_outer_as fmt bs = Ok (k, box_public P sk, box_seal P (box_public P sk) payload)
       \<and> open_as P fmt bs sk = Ok (k, box_public P sk, payload)"
proof -
  let ?sealed = "box_seal P (box_public P sk) payload"
  from assms(4) have len: "length ?sealed < 2 ^ 32"
    and bs: "bs = magic fmt @ [format_version fmt] @ [k] @ box_public P sk
               @ to_be 4 (length ?sealed) @ ?sealed"
    by (auto simp: seal_def Let_def split: if_splits)
  have parsed: "parse_outer_as fmt bs = Ok (k, box_public P sk, ?sealed)"
    unfolding bs by (rule parse_outer_frame) (use assms len in simp_all)
  moreover have "box_unseal P sk ?sealed = Some payload"
    using assms(1) by (simp add: box_law_def)
  ultimately show ?thesis by (simp add: open_as_def)
qed

theorem open_seal_witness:
  "parse_outer_as PACKAGE (as_bytes ''KQPB'' @ [2, 13] @ replicate 32 7 @ to_be 4 33 @ replicate 32 7 @ [5])
     = Ok (13, replicate 32 7, replicate 32 7 @ [5])
   \<and> open_as toy_prims PACKAGE
       (as_bytes ''KQPB'' @ [2, 13] @ replicate 32 7 @ to_be 4 33 @ replicate 32 7 @ [5]) (replicate 32 7)
     = Ok (13, replicate 32 7, [5])"
proof -
  have s: "seal toy_prims PACKAGE 13 (replicate 32 7) [5]
      = Ok (as_bytes ''KQPB'' @ [2, 13] @ replicate 32 7 @ to_be 4 33 @ replicate 32 7 @ [5])"
    by (simp add: seal_def is_weak_x25519_public_key_def PACKAGE_def)
  show ?thesis
    using open_seal [of toy_prims PACKAGE "replicate 32 7" 13 "[5]"] s by simp
qed

end
