(* ===== verification/Codec.thy ===== *)
theory Codec
  imports Envelope
begin

text \<open>
  The field encoders of \<open>src/file_history/codec.rs\<close>, and the contract every record
  codec of the development meets: a decoder reads back what the encoder wrote and leaves
  the rest untouched. The contract is the locale \<open>codec\<close>; what follows from it
  (injectivity, prefix freeness, lists of records) is proved once, and each record
  interprets it.
\<close>

section \<open>The contract of a codec\<close>

text \<open>\<open>for _ in 0..n\<close> decoding of \<open>n\<close> records, stopping at the first error.\<close>

fun decode_many :: "(bytes \<Rightarrow> ('a \<times> bytes) result) \<Rightarrow> nat \<Rightarrow> bytes \<Rightarrow> ('a list \<times> bytes) result" where
  "decode_many dec 0 data = Ok ([], data)"
| "decode_many dec (Suc n) data =
     and_then (dec data) (\<lambda>(x, data). and_then (decode_many dec n data) (\<lambda>(xs, data). Ok (x # xs, data)))"

text \<open>Encoding a sequence of records one after the other.\<close>

definition encode_all :: "('a \<Rightarrow> bytes result) \<Rightarrow> 'a list \<Rightarrow> bytes result" where
  "encode_all enc xs = and_then (mapM enc xs) (\<lambda>bss. Ok (concat bss))"

lemma encode_all_Nil [simp]: "encode_all enc [] = Ok []"
  by (simp add: encode_all_def)

lemma encode_all_Cons:
  "encode_all enc (x # xs) = and_then (enc x) (\<lambda>b. and_then (encode_all enc xs) (\<lambda>bs. Ok (b @ bs)))"
  by (cases "enc x"; cases "mapM enc xs") (simp_all add: encode_all_def)

lemma encode_all_Ok [simp]: "encode_all Ok xs = Ok (concat xs)"
  by (induction xs) (simp_all add: encode_all_Cons)

lemma encode_all_Ok_mem: "encode_all enc xs = Ok b \<Longrightarrow> x \<in> set xs \<Longrightarrow> \<exists>e. enc x = Ok e"
  by (induction xs arbitrary: b) (auto simp: encode_all_Cons)

locale codec =
  fixes enc :: "'a \<Rightarrow> bytes result"
    and dec :: "bytes \<Rightarrow> ('a \<times> bytes) result"
    and wf :: "'a \<Rightarrow> bool"
  assumes dec_enc: "wf x \<Longrightarrow> enc x = Ok e \<Longrightarrow> dec (e @ rest) = Ok (x, rest)"
begin

lemma prefix_free:
  assumes "wf x" "wf y" "enc x = Ok e" "enc y = Ok f" "e @ r = f @ s"
  shows "x = y \<and> r = s"
  using dec_enc [OF assms(1,3), of r] dec_enc [OF assms(2,4), of s] assms(5) by simp

lemma inject:
  assumes "wf x" "wf y" "enc x = Ok e" "enc y = Ok e"
  shows "x = y"
  using prefix_free [OF assms, of "[]" "[]"] by simp

lemma decode_all:
  "\<forall>x \<in> set xs. wf x \<Longrightarrow> encode_all enc xs = Ok e
    \<Longrightarrow> decode_many dec (length xs) (e @ rest) = Ok (xs, rest)"
proof (induction xs arbitrary: e)
  case Nil
  then show ?case by simp
next
  case (Cons x xs)
  then obtain b c where b: "enc x = Ok b" and c: "encode_all enc xs = Ok c" and e: "e = b @ c"
    by (auto simp: encode_all_Cons)
  from b Cons.prems have "dec (b @ c @ rest) = Ok (x, c @ rest)" by (simp add: dec_enc)
  moreover have "decode_many dec (length xs) (c @ rest) = Ok (xs, rest)"
    using Cons.IH [OF _ c] Cons.prems by simp
  ultimately show ?case by (simp add: e)
qed

end

text \<open>
  A canonical codec also accepts nothing but encodings: what it decodes, re-encodes to the
  bytes it read.
\<close>

locale canonical_codec = codec +
  assumes enc_dec: "dec data = Ok (x, rest) \<Longrightarrow> \<exists>e. enc x = Ok e \<and> data = e @ rest \<and> wf x"
begin

lemma decode_many_canonical:
  "decode_many dec n data = Ok (xs, rest)
    \<Longrightarrow> length xs = n \<and> (\<forall>x \<in> set xs. wf x) \<and> (\<exists>e. encode_all enc xs = Ok e \<and> data = e @ rest)"
proof (induction n arbitrary: data xs)
  case 0
  then show ?case by auto
next
  case (Suc n)
  then obtain x d ys where x: "dec data = Ok (x, d)" and ys: "decode_many dec n d = Ok (ys, rest)"
    and xs: "xs = x # ys"
    by auto
  from enc_dec [OF x] obtain e where "enc x = Ok e" "data = e @ d" "wf x" by blast
  moreover from Suc.IH [OF ys] obtain f where "length ys = n" "\<forall>y \<in> set ys. wf y"
    "encode_all enc ys = Ok f" "d = f @ rest" by blast
  ultimately show ?case by (simp add: xs encode_all_Cons)
qed

end

section \<open>Field encoders\<close>

definition bad :: "'a result \<Rightarrow> 'a result" where
  "bad r = map_err InvalidTrackedFile r"

definition push_str :: "str \<Rightarrow> bytes result" where
  "push_str value = push_len_prefixed (as_bytes value)"

definition take_str :: "bytes \<Rightarrow> (str \<times> bytes) result" where
  "take_str data =
     bad (and_then (take_len_prefixed data) (\<lambda>(b, rest). and_then (utf8 b) (\<lambda>s. Ok (s, rest))))"

definition push_u64 :: "u64 \<Rightarrow> bytes" where
  "push_u64 value = to_be 8 (unat value)"

definition take_u64 :: "bytes \<Rightarrow> (u64 \<times> bytes) result" where
  "take_u64 data = and_then (bad (take_array 8 data)) (\<lambda>(b, rest). Ok (word_of_nat (from_be b), rest))"

definition take_fixed :: "nat \<Rightarrow> bytes \<Rightarrow> (bytes \<times> bytes) result" where
  "take_fixed n data = bad (take_array n data)"

definition take_byte :: "bytes \<Rightarrow> (u8 \<times> bytes) result" where
  "take_byte data = bad (take_u8 data)"

definition push_opt_array :: "bytes option \<Rightarrow> bytes" where
  "push_opt_array value = (case value of Some b \<Rightarrow> 1 # b | None \<Rightarrow> [0])"

definition take_opt_array :: "nat \<Rightarrow> bytes \<Rightarrow> (bytes option \<times> bytes) result" where
  "take_opt_array n data =
     and_then (take_byte data) (\<lambda>(tag, data).
       if tag = 0 then Ok (None, data)
       else if tag = 1 then and_then (take_fixed n data) (\<lambda>(b, data). Ok (Some b, data))
       else Err InvalidTrackedFile)"

definition push_opt_str :: "str option \<Rightarrow> bytes result" where
  "push_opt_str value =
     (case value of
        Some text \<Rightarrow> and_then (push_str text) (\<lambda>b. Ok (1 # b))
      | None \<Rightarrow> Ok [0])"

definition take_opt_str :: "bytes \<Rightarrow> (str option \<times> bytes) result" where
  "take_opt_str data =
     and_then (take_byte data) (\<lambda>(tag, data).
       if tag = 0 then Ok (None, data)
       else if tag = 1 then and_then (take_str data) (\<lambda>(s, data). Ok (Some s, data))
       else Err InvalidTrackedFile)"

definition push_opt_u64 :: "u64 option \<Rightarrow> bytes" where
  "push_opt_u64 value = (case value of Some number \<Rightarrow> 1 # push_u64 number | None \<Rightarrow> [0])"

definition take_opt_u64 :: "bytes \<Rightarrow> (u64 option \<times> bytes) result" where
  "take_opt_u64 data =
     and_then (take_byte data) (\<lambda>(tag, data).
       if tag = 0 then Ok (None, data)
       else if tag = 1 then and_then (take_u64 data) (\<lambda>(n, data). Ok (Some n, data))
       else Err InvalidTrackedFile)"

definition opt_sized :: "nat \<Rightarrow> bytes option \<Rightarrow> bool" where
  "opt_sized n x = (case x of None \<Rightarrow> True | Some b \<Rightarrow> length b = n)"

definition opt_str_ok :: "str option \<Rightarrow> bool" where
  "opt_str_ok x = (case x of None \<Rightarrow> True | Some s \<Rightarrow> str_ok s)"

lemma bad_simps [simp]: "bad (Inr x) = Inr x" "bad (Inl e) = Inl InvalidTrackedFile"
  by (simp_all add: bad_def)

lemma bad_Ok_iff [simp, res_simps]: "bad r = Inr x \<longleftrightarrow> r = Inr x"
  by (simp add: bad_def)

lemma take_fixed_append [codec_simps]:
  "length xs = n \<Longrightarrow> take_fixed n (xs @ rest) = Ok (xs, rest)"
  by (simp add: take_fixed_def take_array_append)

lemma take_fixed_1 [codec_simps]: "take_fixed (Suc 0) (b # rest) = Ok ([b], rest)"
  using take_fixed_append [of "[b]" "Suc 0"] by simp

lemma take_fixed_OkD: "take_fixed n data = Ok (x, rest) \<Longrightarrow> data = x @ rest \<and> length x = n"
  by (simp add: take_fixed_def take_array_OkD)

lemma take_byte_Cons [codec_simps]: "take_byte (b # rest) = Ok (b, rest)"
  by (simp add: take_byte_def)

lemma take_u64_push [codec_simps]: "take_u64 (push_u64 v @ rest) = Ok (v, rest)"
  using u64_unat_bound [of v] by (simp add: take_u64_def push_u64_def take_array_append)

lemma take_str_push [codec_simps]:
  "push_str s = Ok e \<Longrightarrow> str_ok s \<Longrightarrow> take_str (e @ rest) = Ok (s, rest)"
  by (simp add: take_str_def push_str_def take_push_len_prefixed)

lemma take_opt_array_push [codec_simps]:
  "opt_sized n x \<Longrightarrow> take_opt_array n (push_opt_array x @ rest) = Ok (x, rest)"
  by (cases x) (simp_all add: take_opt_array_def push_opt_array_def opt_sized_def codec_simps)

lemma take_opt_str_push [codec_simps]:
  "push_opt_str x = Ok e \<Longrightarrow> opt_str_ok x \<Longrightarrow> take_opt_str (e @ rest) = Ok (x, rest)"
  by (cases x) (auto simp: take_opt_str_def push_opt_str_def opt_str_ok_def codec_simps)

lemma take_opt_u64_push [codec_simps]: "take_opt_u64 (push_opt_u64 x @ rest) = Ok (x, rest)"
  by (cases x) (simp_all add: take_opt_u64_def push_opt_u64_def codec_simps)

text \<open>
  The other direction: whatever a decoder accepts is the encoding of the value it
  returns, so one value has one encoding.
\<close>

lemma take_len_prefixed_OkD:
  assumes "take_len_prefixed data = Ok (b, rest)"
  shows "\<exists>e. push_len_prefixed b = Ok e \<and> data = e @ rest"
proof -
  from assms obtain l d where l: "take_array 2 data = Ok (l, d)" and n: "take_n (from_be l) d = Ok (b, rest)"
    by (auto simp: take_len_prefixed_def)
  from l have data: "data = l @ d" and len: "length l = 2" by (auto dest: take_array_OkD)
  from n have d: "d = b @ rest" and lb: "length b = from_be l" by (auto dest: take_n_OkD)
  have "from_be l < 2 ^ 16" using from_be_bound [of l] len by simp
  moreover have "to_be 2 (length b) = l" using to_be_from_be [of l] len lb by simp
  ultimately show ?thesis using data d lb by (auto simp: push_len_prefixed_def)
qed

lemma take_len_prefixed_u32_OkD:
  assumes "take_len_prefixed_u32 data = Ok (b, rest)"
  shows "\<exists>e. push_len_prefixed_u32 b = Ok e \<and> data = e @ rest"
proof -
  from assms obtain l d where l: "take_array 4 data = Ok (l, d)" and n: "take_n (from_be l) d = Ok (b, rest)"
    by (auto simp: take_len_prefixed_u32_def take_u32_def)
  from l have data: "data = l @ d" and len: "length l = 4" by (auto dest: take_array_OkD)
  from n have d: "d = b @ rest" and lb: "length b = from_be l" by (auto dest: take_n_OkD)
  have "from_be l < 2 ^ 32" using from_be_bound [of l] len by simp
  moreover have "to_be 4 (length b) = l" using to_be_from_be [of l] len lb by simp
  ultimately show ?thesis using data d lb by (auto simp: push_len_prefixed_u32_def)
qed

lemma take_str_OkD:
  assumes "take_str data = Ok (s, rest)"
  shows "\<exists>e. push_str s = Ok e \<and> data = e @ rest \<and> str_ok s"
proof -
  from assms obtain b where b: "take_len_prefixed data = Ok (b, rest)" and "utf8 b = Ok s"
    by (auto simp: take_str_def)
  then have "as_bytes s = b" "str_ok s"
    by (auto simp: utf8_def split: option.splits dest: from_utf8_SomeD)
  with take_len_prefixed_OkD [OF b] show ?thesis by (auto simp: push_str_def)
qed

lemma take_byte_OkD: "take_byte data = Ok (b, rest) \<Longrightarrow> data = b # rest"
  by (cases data) (auto simp: take_byte_def take_u8_def)

lemma take_u64_OkD: "take_u64 data = Ok (v, rest) \<Longrightarrow> data = push_u64 v @ rest"
proof -
  assume "take_u64 data = Ok (v, rest)"
  then obtain b where b: "take_array 8 data = Ok (b, rest)" and v: "v = word_of_nat (from_be b)"
    by (auto simp: take_u64_def)
  from b have data: "data = b @ rest" and len: "length b = 8" by (auto dest: take_array_OkD)
  have "from_be b < 2 ^ 64" using from_be_bound [of b] len by simp
  then have "unat v = from_be b" by (simp add: v unat_of_nat)
  with data len to_be_from_be [of b] show ?thesis by (simp add: push_u64_def)
qed

lemma take_opt_array_OkD:
  "take_opt_array n data = Ok (x, rest) \<Longrightarrow> data = push_opt_array x @ rest \<and> opt_sized n x"
  by (auto simp: take_opt_array_def push_opt_array_def opt_sized_def
      dest!: take_byte_OkD take_fixed_OkD split: if_splits)

lemma take_opt_str_OkD:
  "take_opt_str data = Ok (x, rest) \<Longrightarrow> \<exists>e. push_opt_str x = Ok e \<and> data = e @ rest \<and> opt_str_ok x"
  by (auto simp: take_opt_str_def push_opt_str_def opt_str_ok_def
      dest!: take_byte_OkD take_str_OkD split: if_splits)

lemma take_opt_u64_OkD:
  "take_opt_u64 data = Ok (x, rest) \<Longrightarrow> data = push_opt_u64 x @ rest"
  by (auto simp: take_opt_u64_def push_opt_u64_def dest!: take_byte_OkD take_u64_OkD split: if_splits)

lemmas field_decoded =
  take_fixed_OkD take_byte_OkD take_u64_OkD take_str_OkD take_opt_array_OkD take_opt_str_OkD
  take_opt_u64_OkD

interpretation len_prefixed_codec: canonical_codec push_len_prefixed take_len_prefixed "\<lambda>_. True"
  by unfold_locales (auto simp: codec_simps dest: take_len_prefixed_OkD)

interpretation str_codec: canonical_codec push_str take_str str_ok
  by unfold_locales (auto simp: codec_simps dest: take_str_OkD)

interpretation opt_str_codec: canonical_codec push_opt_str take_opt_str opt_str_ok
  by unfold_locales (auto simp: codec_simps dest: take_opt_str_OkD)

interpretation opt_array_codec: canonical_codec "\<lambda>x. Ok (push_opt_array x)" "take_opt_array n" "opt_sized n" for n
  by unfold_locales (auto simp: codec_simps dest: take_opt_array_OkD)

interpretation array_codec: canonical_codec Ok "take_fixed n" "\<lambda>x. length x = n" for n
  by unfold_locales (auto simp: codec_simps dest: take_fixed_OkD)

lemmas [eval_simps] =
  as_bytes_def push_str_def push_len_prefixed_def push_opt_array_def push_opt_u64_def push_opt_str_def
  push_u64_def encode_all_def to_be_numeral toy_hash_def opt_sized_def opt_str_ok_def

end
