(* ===== verification/Authority.thy ===== *)
theory Authority
  imports Codec "HOL-Library.Sublist"
begin

text \<open>
  Delegated authority over dotted labels, \<open>src/authority.rs\<close>: the one topology
  algorithm every other component asks. The abstract view of a label is its path of
  segments; ancestry refines the prefix order on paths, the lowest common ancestor is
  the meet, and \<open>relationship\<close> classifies every pair of labels. The key evidence a
  store records per label and topology generation is modelled as the rows of its table.
\<close>

section \<open>Labels\<close>

definition is_well_formed :: "str \<Rightarrow> bool" where
  "is_well_formed label \<longleftrightarrow> label \<noteq> [] \<and> list_all (\<lambda>segment. segment \<noteq> []) (split CHR ''.'' label)"

definition segment_count :: "str \<Rightarrow> nat" where
  "segment_count label = (if label = [] then 0 else length (split CHR ''.'' label))"

definition parent_node_label :: "str \<Rightarrow> str option" where
  "parent_node_label label = map_option fst (rsplit_once CHR ''.'' label)"

definition is_ancestor_or_self :: "str \<Rightarrow> str \<Rightarrow> bool" where
  "is_ancestor_or_self authorizer subject \<longleftrightarrow>
     (if \<not> is_well_formed authorizer \<or> \<not> is_well_formed subject then False
      else if authorizer = subject then True
      else case strip_prefix authorizer subject of
             None \<Rightarrow> False
           | Some rest \<Rightarrow> take 1 rest = ''.'')"

definition are_siblings :: "str \<Rightarrow> str \<Rightarrow> bool" where
  "are_siblings a b \<longleftrightarrow>
     a \<noteq> b \<and> is_well_formed a \<and> is_well_formed b
     \<and> parent_node_label a \<noteq> None \<and> parent_node_label a = parent_node_label b"

definition is_ancestor :: "str \<Rightarrow> str \<Rightarrow> bool" where
  "is_ancestor ancestor descendant \<longleftrightarrow> ancestor \<noteq> descendant \<and> is_ancestor_or_self ancestor descendant"

definition is_descendant :: "str \<Rightarrow> str \<Rightarrow> bool" where
  "is_descendant descendant ancestor \<longleftrightarrow> is_ancestor ancestor descendant"

definition direct_parent :: "str \<Rightarrow> str \<Rightarrow> bool" where
  "direct_parent parent child \<longleftrightarrow> parent_node_label child = Some parent"

text \<open>The subtraction is guarded: a covered label has at least as many segments.\<close>

definition ancestry_distance :: "str \<Rightarrow> str \<Rightarrow> nat option" where
  "ancestry_distance ancestor descendant =
     (if is_well_formed ancestor \<and> is_well_formed descendant \<and> is_ancestor_or_self ancestor descendant
      then Some (segment_count descendant - segment_count ancestor) else None)"

definition lowest_common_ancestor :: "str \<Rightarrow> str \<Rightarrow> str option" where
  "lowest_common_ancestor left right =
     (if left = [] \<or> right = [] then None
      else let common = map fst (takeWhile (\<lambda>(l, r). l = r \<and> l \<noteq> [])
                          (zip (split CHR ''.'' left) (split CHR ''.'' right))) in
           if common \<noteq> [] then Some (join ''.'' common) else None)"

definition bridge_connects :: "str \<Rightarrow> str \<Rightarrow> str \<Rightarrow> str \<Rightarrow> bool" where
  "bridge_connects end_a end_b actor scope \<longleftrightarrow>
     (let covers = (\<lambda>e. is_ancestor_or_self e actor);
          on_scope_line = (\<lambda>e. is_ancestor_or_self e scope \<or> is_ancestor_or_self scope e) in
      end_a \<noteq> end_b
      \<and> ((covers end_a \<and> on_scope_line end_b) \<or> (covers end_b \<and> on_scope_line end_a)))"

datatype revision_authority =
    ScopeOwner
  | Descendant str nat
  | Ancestor nat
  | CrossBranch "str option"
  | Unrelated

definition relationship :: "str \<Rightarrow> str \<Rightarrow> revision_authority" where
  "relationship scope_root actor =
     (if \<not> is_well_formed scope_root \<or> \<not> is_well_formed actor then Unrelated
      else if scope_root = actor then ScopeOwner
      else case ancestry_distance scope_root actor of
             Some depth \<Rightarrow> Descendant scope_root depth
           | None \<Rightarrow>
               (case ancestry_distance actor scope_root of
                  Some depth \<Rightarrow> Ancestor depth
                | None \<Rightarrow> CrossBranch (lowest_common_ancestor scope_root actor)))"

definition restructure_countersigner :: "str \<Rightarrow> str option" where
  "restructure_countersigner authorizer_label = parent_node_label authorizer_label"

definition is_routine_employee_reissue :: "str \<Rightarrow> str \<Rightarrow> bool" where
  "is_routine_employee_reissue authorizer_label subject_label \<longleftrightarrow>
     direct_parent authorizer_label subject_label \<and> 3 \<le> segment_count subject_label"

definition UNLOCK_DOMAIN :: bytes where
  "UNLOCK_DOMAIN = as_bytes ''KQ-UNLOCK-APPROVAL-v1''"

text \<open>Row ids are \<open>i64\<close>: eight bytes, big-endian two's complement.\<close>

definition unlock_approval_preimage ::
    "prims \<Rightarrow> 64 word \<Rightarrow> 64 word \<Rightarrow> str \<Rightarrow> str \<Rightarrow> bytes list \<Rightarrow> bytes result" where
  "unlock_approval_preimage P file_id key_id leaf_label countersigner_label device_ids =
     and_then (hash_len_prefixed (as_bytes leaf_label)) (\<lambda>leaf.
     and_then (hash_len_prefixed (as_bytes countersigner_label)) (\<lambda>signer.
     if length device_ids < 2 ^ 16 then
       Ok (sha256 P (UNLOCK_DOMAIN @ to_be 8 (unat file_id) @ to_be 8 (unat key_id) @ leaf @ signer
             @ to_be 2 (length device_ids) @ concat device_ids))
     else Err BundleFieldTooLarge))"

section \<open>Key evidence per label and generation\<close>

record evidence_row =
  ev_scope_root :: str
  ev_label :: str
  ev_identity :: bytes
  ev_public :: bytes
  first_generation :: nat
  last_generation :: nat

text \<open>
  The table \<open>label_authority_evidence\<close>, in insertion order. A generation is stored as an
  \<open>i64\<close>, so one that does not fit is refused.
\<close>

definition same_evidence_key :: "str \<Rightarrow> str \<Rightarrow> bytes \<Rightarrow> bytes \<Rightarrow> evidence_row \<Rightarrow> bool" where
  "same_evidence_key scope_root label identity public row \<longleftrightarrow>
     ev_scope_root row = scope_root \<and> ev_label row = label
     \<and> ev_identity row = identity \<and> ev_public row = public"

definition widen_range :: "nat \<Rightarrow> evidence_row \<Rightarrow> evidence_row" where
  "widen_range g row =
     row\<lparr>first_generation := min (first_generation row) g, last_generation := max (last_generation row) g\<rparr>"

definition evidence_at :: "str \<Rightarrow> bytes \<Rightarrow> nat \<Rightarrow> evidence_row \<Rightarrow> bool" where
  "evidence_at label identity g row \<longleftrightarrow>
     ev_label row = label \<and> ev_identity row = identity
     \<and> first_generation row \<le> g \<and> g \<le> last_generation row"

definition record_label_evidence ::
    "str \<Rightarrow> str \<Rightarrow> bytes \<Rightarrow> bytes \<Rightarrow> u64 \<Rightarrow> evidence_row list \<Rightarrow> evidence_row list result" where
  "record_label_evidence scope_root label identity public generation rows =
     (let g = unat generation; same = same_evidence_key scope_root label identity public in
      if g \<ge> 2 ^ 63 then Err InvalidTreeSpec
      else if list_ex same rows then
        Ok (map (\<lambda>row. if same row then widen_range g row else row) rows)
      else Ok (rows @ [\<lparr>ev_scope_root = scope_root, ev_label = label, ev_identity = identity,
                        ev_public = public, first_generation = g, last_generation = g\<rparr>]))"

definition historical_signing_publics ::
    "str \<Rightarrow> bytes \<Rightarrow> u64 \<Rightarrow> evidence_row list \<Rightarrow> bytes list result" where
  "historical_signing_publics label identity generation rows =
     (let g = unat generation in
      if g \<ge> 2 ^ 63 then Err InvalidTreeSpec
      else mapM (\<lambda>key. if length key = 32 then Ok key else Err InvalidPublicKey)
             (sort (map ev_public (filter (evidence_at label identity g) rows))))"

section \<open>Labels as paths\<close>

abbreviation path :: "str \<Rightarrow> str list" where
  "path label \<equiv> split CHR ''.'' label"

lemma is_well_formed_path: "is_well_formed l \<longleftrightarrow> [] \<notin> set (path l)"
  by (cases l) (auto simp: is_well_formed_def list_all_iff)

lemma ancestor_or_self_path:
  "is_ancestor_or_self a b \<longleftrightarrow> is_well_formed a \<and> is_well_formed b \<and> prefix (path a) (path b)"
proof (cases "is_well_formed a \<and> is_well_formed b \<and> a \<noteq> b")
  case False
  then show ?thesis by (auto simp: is_ancestor_or_self_def)
next
  case True
  have "is_ancestor_or_self a b \<longleftrightarrow> (\<exists>r. b = a @ CHR ''.'' # r)"
  proof
    assume "is_ancestor_or_self a b"
    with True obtain rest where "strip_prefix a b = Some rest" "take 1 rest = ''.''"
      by (auto simp: is_ancestor_or_self_def split: option.splits)
    then show "\<exists>r. b = a @ CHR ''.'' # r"
      by (cases rest) (auto simp: strip_prefix_Some_iff)
  next
    assume "\<exists>r. b = a @ CHR ''.'' # r"
    then obtain r where "strip_prefix a b = Some (CHR ''.'' # r)"
      by (auto simp: strip_prefix_Some_iff)
    with True show "is_ancestor_or_self a b" by (simp add: is_ancestor_or_self_def)
  qed
  also have "\<dots> \<longleftrightarrow> prefix (path a) (path b)"
  proof
    assume "\<exists>r. b = a @ CHR ''.'' # r"
    then show "prefix (path a) (path b)" by (auto simp: split_append_both prefix_def)
  next
    assume "prefix (path a) (path b)"
    then obtain ps where ps: "path b = path a @ ps" by (auto simp: prefix_def)
    with True have "ps \<noteq> []" by (auto simp: split_inject)
    then have "b = a @ CHR ''.'' # join ''.'' ps"
      using arg_cong [OF ps, of "join ''.''"] by (simp add: join_append)
    then show "\<exists>r. b = a @ CHR ''.'' # r" by blast
  qed
  finally show ?thesis using True by simp
qed

lemma takeWhile_zip_prefix:
  assumes "\<forall>x \<in> set us. x \<noteq> []"
  shows "map fst (takeWhile (\<lambda>(l, r). l = r \<and> l \<noteq> []) (zip us vs)) = longest_common_prefix us vs"
  using assms by (induction us vs rule: longest_common_prefix.induct) auto

lemma longest_common_prefix_greatest:
  "prefix ws us \<Longrightarrow> prefix ws vs \<Longrightarrow> prefix ws (longest_common_prefix us vs)"
  by (rule longest_common_prefix_max_prefix)

lemma set_longest_common_prefix: "set (longest_common_prefix us vs) \<subseteq> set us"
  by (rule set_mono_prefix [OF longest_common_prefix_prefix1])

lemma lca_path:
  assumes "is_well_formed l" "is_well_formed r"
  shows "lowest_common_ancestor l r =
    (let c = longest_common_prefix (path l) (path r) in if c \<noteq> [] then Some (join ''.'' c) else None)"
proof -
  have "l \<noteq> []" "r \<noteq> []" using assms by (auto simp: is_well_formed_def)
  moreover have "\<forall>x \<in> set (path l). x \<noteq> []" using assms(1) by (auto simp: is_well_formed_path)
  ultimately show ?thesis
    by (simp add: lowest_common_ancestor_def takeWhile_zip_prefix)
qed

lemma path_join_sub:
  assumes "c \<noteq> []" "set c \<subseteq> set (path l)"
  shows "path (join ''.'' c) = c"
  using assms by (intro split_join) (auto dest: split_no_sep)

text \<open>
  C39. For well-formed labels, the lowest common ancestor covers both, and every label that
  covers both covers it; when there is none, no label covers both.
\<close>

theorem lca_is_meet:
  assumes "is_well_formed l" "is_well_formed r"
  shows "(case lowest_common_ancestor l r of
            Some c \<Rightarrow> is_ancestor_or_self c l \<and> is_ancestor_or_self c r
                     \<and> (\<forall>a. is_ancestor_or_self a l \<and> is_ancestor_or_self a r \<longrightarrow> is_ancestor_or_self a c)
          | None \<Rightarrow> \<not> (\<exists>a. is_ancestor_or_self a l \<and> is_ancestor_or_self a r))"
proof -
  let ?c = "longest_common_prefix (path l) (path r)"
  have sub: "set ?c \<subseteq> set (path l)" by (rule set_longest_common_prefix)
  have pre: "prefix ?c (path l)" "prefix ?c (path r)"
    by (rule longest_common_prefix_prefix1, rule longest_common_prefix_prefix2)
  have common: "prefix (path a) ?c" if "is_ancestor_or_self a l" "is_ancestor_or_self a r" for a
    using that by (auto simp: ancestor_or_self_path intro: longest_common_prefix_greatest)
  show ?thesis
  proof (cases "?c = []")
    case True
    with common have "\<not> (is_ancestor_or_self a l \<and> is_ancestor_or_self a r)" for a
      by force
    with True show ?thesis by (simp add: lca_path assms)
  next
    case False
    let ?j = "join ''.'' ?c"
    have p: "path ?j = ?c" using False sub by (rule path_join_sub)
    then have "is_well_formed ?j" using sub assms(1) by (auto simp: is_well_formed_path)
    with False p pre common assms show ?thesis
      by (auto simp: lca_path ancestor_or_self_path)
  qed
qed

theorem lca_is_meet_witness:
  "lowest_common_ancestor ''M.S.1'' ''M.S.2'' = Some ''M.S''
   \<and> is_ancestor_or_self ''M.S'' ''M.S.1'' \<and> is_ancestor_or_self ''M.S'' ''M.S.2''"
proof -
  have "is_well_formed ''M.S.1''" "is_well_formed ''M.S.2''" by (simp_all add: is_well_formed_def)
  moreover have "lowest_common_ancestor ''M.S.1'' ''M.S.2'' = Some ''M.S''"
    by (simp add: lowest_common_ancestor_def)
  ultimately show ?thesis using lca_is_meet [of "''M.S.1''" "''M.S.2''"] by simp
qed

section \<open>The hierarchy contract\<close>

text \<open>
  What the policy and bridge components rely on: a partial order on the well-formed
  labels in which the ancestors of a label form a chain.
\<close>

locale hierarchy =
  fixes ok :: "'l \<Rightarrow> bool" and covers :: "'l \<Rightarrow> 'l \<Rightarrow> bool"
  assumes covers_ok: "covers a b \<Longrightarrow> ok a \<and> ok b"
    and covers_refl: "ok a \<Longrightarrow> covers a a"
    and covers_antisym: "covers a b \<Longrightarrow> covers b a \<Longrightarrow> a = b"
    and covers_trans: "covers a b \<Longrightarrow> covers b c \<Longrightarrow> covers a c"
    and covers_chain: "covers a c \<Longrightarrow> covers b c \<Longrightarrow> covers a b \<or> covers b a"
begin

lemma above_common:
  assumes "covers a c" "covers b c" "\<not> covers b a"
  shows "covers a b" "a \<noteq> b"
  using assms covers_chain covers_refl covers_ok by blast+

lemma branches_disjoint:
  assumes "\<not> covers a b" "\<not> covers b a"
  shows "\<not> (\<exists>c. covers a c \<and> covers b c)"
  using assms covers_chain by blast

end

interpretation labels: hierarchy is_well_formed is_ancestor_or_self
proof unfold_locales
  fix a b c
  show "is_ancestor_or_self a b \<Longrightarrow> is_well_formed a \<and> is_well_formed b"
    by (simp add: ancestor_or_self_path)
  show "is_well_formed a \<Longrightarrow> is_ancestor_or_self a a"
    by (simp add: ancestor_or_self_path)
  show "is_ancestor_or_self a b \<Longrightarrow> is_ancestor_or_self b a \<Longrightarrow> a = b"
    by (auto simp: ancestor_or_self_path split_inject dest: prefix_order.antisym)
  show "is_ancestor_or_self a b \<Longrightarrow> is_ancestor_or_self b c \<Longrightarrow> is_ancestor_or_self a c"
    by (auto simp: ancestor_or_self_path intro: prefix_order.trans)
  show "is_ancestor_or_self a c \<Longrightarrow> is_ancestor_or_self b c
      \<Longrightarrow> is_ancestor_or_self a b \<or> is_ancestor_or_self b a"
    by (auto simp: ancestor_or_self_path dest: prefix_same_cases)
qed

lemma ancestry_distance_Some_iff:
  "ancestry_distance a b = Some d \<longleftrightarrow>
     is_ancestor_or_self a b \<and> length (path b) = length (path a) + d"
proof -
  have "length (path a) \<le> length (path b)" if "is_ancestor_or_self a b"
    using that by (auto simp: ancestor_or_self_path dest: prefix_length_le)
  moreover have "segment_count x = length (path x)" if "is_well_formed x" for x
    using that by (auto simp: segment_count_def is_well_formed_def)
  ultimately show ?thesis
    by (auto simp: ancestry_distance_def dest: labels.covers_ok)
qed

lemma ancestry_distance_None_iff: "ancestry_distance a b = None \<longleftrightarrow> \<not> is_ancestor_or_self a b"
  by (auto simp: ancestry_distance_def dest: labels.covers_ok)

lemma relationship_classifies:
  assumes "is_well_formed scope" "is_well_formed actor"
  shows "relationship scope actor =
    (if actor = scope then ScopeOwner
     else if is_ancestor scope actor then Descendant scope (length (path actor) - length (path scope))
     else if is_ancestor actor scope then Ancestor (length (path scope) - length (path actor))
     else CrossBranch (lowest_common_ancestor scope actor))"
  using assms
  by (auto simp: relationship_def is_ancestor_def ancestry_distance_Some_iff
      ancestry_distance_None_iff split: option.splits)

lemma parent_path:
  assumes "parent_node_label l = Some p"
  shows "path l = path p @ [last (path l)]"
proof -
  from assms obtain s where l: "l = p @ CHR ''.'' # s" and s: "CHR ''.'' \<notin> set s"
    by (auto simp: parent_node_label_def rsplit_once_Some_iff)
  from s have "path s = [s]" by (induction s) auto
  with l show ?thesis by (simp add: split_append_both)
qed

text \<open>
  The direct parent of a well-formed label is an ancestor of it, and every ancestor of
  the label covers the parent: no label lies strictly between the two.
\<close>

lemma parent_is_next_ancestor:
  assumes "is_well_formed child" "parent_node_label child = Some p"
  shows "is_ancestor p child
    \<and> (\<forall>a. is_ancestor a child \<longrightarrow> is_ancestor_or_self a p)"
proof -
  have eq: "path child = path p @ [last (path child)]" by (rule parent_path [OF assms(2)])
  have sub: "set (path p) \<subseteq> set (path child)" by (subst eq) auto
  then have wf: "is_well_formed p" using assms(1) by (auto simp: is_well_formed_path)
  have "prefix (path p) (path child)" by (subst eq) simp
  moreover have "p \<noteq> child" using eq by (metis append_self_conv list.distinct(1))
  moreover have "is_ancestor_or_self a p" if a: "is_ancestor a child" for a
  proof -
    from a have "prefix (path a) (path p @ [last (path child)])" "path a \<noteq> path child"
      using eq by (auto simp: is_ancestor_def ancestor_or_self_path split_inject)
    then have "prefix (path a) (path p)" using eq prefix_snoc by metis
    with a wf show ?thesis by (auto simp: is_ancestor_def ancestor_or_self_path)
  qed
  ultimately show ?thesis using assms(1) wf by (simp add: is_ancestor_def ancestor_or_self_path)
qed

lemma mem_historical:
  assumes "historical_signing_publics label identity g rows = Ok keys"
  shows "set keys = ev_public ` {row \<in> set rows. evidence_at label identity (unat g) row}"
proof -
  have id: "mapM (\<lambda>key. if length key = 32 then Ok key else Err InvalidPublicKey) ks = Ok ks'
      \<Longrightarrow> ks' = ks" for ks ks' :: "bytes list"
    by (induction ks arbitrary: ks') (auto split: if_splits)
  from assms show ?thesis
    by (auto simp: historical_signing_publics_def Let_def dest!: id split: if_splits)
qed

lemma widen_range_keeps:
  "ev_public (widen_range g row) = ev_public row"
  "evidence_at l i h row \<Longrightarrow> evidence_at l i h (widen_range g row)"
  "same_evidence_key s l i k row \<Longrightarrow> evidence_at l i g (widen_range g row)"
  "same_evidence_key s l i k row \<Longrightarrow> ev_public row = k"
  by (auto simp: widen_range_def evidence_at_def same_evidence_key_def)

lemma recorded_rows:
  assumes "record_label_evidence scope label identity public g rows = Ok rows'"
  shows "row \<in> set rows \<Longrightarrow> evidence_at l i h row \<Longrightarrow> \<exists>row' \<in> set rows'. ev_public row' = ev_public row \<and> evidence_at l i h row'"
    and "\<exists>row' \<in> set rows'. ev_public row' = public \<and> evidence_at label identity (unat g) row'"
proof -
  let ?same = "same_evidence_key scope label identity public"
  let ?up = "\<lambda>row. if ?same row then widen_range (unat g) row else row"
  have up: "ev_public (?up row) = ev_public row" "evidence_at l i h row \<Longrightarrow> evidence_at l i h (?up row)" for row l i h
    by (simp_all add: widen_range_keeps)
  have rows': "rows' = (if list_ex ?same rows then map ?up rows
      else rows @ [\<lparr>ev_scope_root = scope, ev_label = label, ev_identity = identity, ev_public = public,
             first_generation = unat g, last_generation = unat g\<rparr>])"
    using assms by (auto simp: record_label_evidence_def Let_def split: if_splits)
  show "\<exists>row' \<in> set rows'. ev_public row' = ev_public row \<and> evidence_at l i h row'"
    if "row \<in> set rows" "evidence_at l i h row"
  proof (rule bexI)
    show "ev_public (if list_ex ?same rows then ?up row else row) = ev_public row
      \<and> evidence_at l i h (if list_ex ?same rows then ?up row else row)" using up that by simp
    show "(if list_ex ?same rows then ?up row else row) \<in> set rows'" using that(1) by (simp add: rows')
  qed
  show "\<exists>row' \<in> set rows'. ev_public row' = public \<and> evidence_at label identity (unat g) row'"
  proof (cases "list_ex ?same rows")
    case True
    then obtain r where r: "r \<in> set rows" "?same r" by (auto simp: list_ex_iff)
    with True have "widen_range (unat g) r \<in> set rows'" by (auto simp: rows' intro: rev_image_eqI)
    with r(2) widen_range_keeps show ?thesis by metis
  qed (simp add: rows' evidence_at_def)
qed

text \<open>
  Recording evidence never takes a key away: every key that was found for a label,
  identity and generation is still found afterwards, and the recorded key is found for
  the generation it was recorded at.
\<close>

lemma evidence_only_widens:
  assumes "record_label_evidence scope label identity public g rows = Ok rows'"
    and "historical_signing_publics l i h rows = Ok old"
    and "historical_signing_publics l i h rows' = Ok new"
  shows "set old \<subseteq> set new \<and> (l = label \<and> i = identity \<and> h = g \<longrightarrow> public \<in> set new)"
  unfolding mem_historical [OF assms(2)] mem_historical [OF assms(3)]
  using recorded_rows [OF assms(1)] by (auto simp: image_iff) metis+

end
