(* ===== verification/Signing.thy ===== *)
theory Signing
  imports Codec "HOL-Library.Sublist"
begin

text \<open>
  Signature preimages and bridge signature artifacts, \<open>src/signing.rs\<close>. Each preimage
  is the digest of a domain string followed by the signed fields; the fields fed to the
  hasher are definitions of their own (\<open>*_fed\<close>), so that what a digest commits to can
  be stated. Ed25519 itself is a parameter (\<open>Primitives\<close>).
\<close>

section \<open>Signatures\<close>

definition verify_signature :: "prims \<Rightarrow> bytes \<Rightarrow> bytes \<Rightarrow> bytes \<Rightarrow> unit result" where
  "verify_signature P public_key message signature =
     (if \<not> ed_key_ok P public_key then Err InvalidPublicKey
      else if ed_verify_strict P public_key message signature then Ok ()
      else Err SignatureVerificationFailed)"

definition sign :: "prims \<Rightarrow> bytes \<Rightarrow> bytes \<Rightarrow> bytes" where
  "sign P private_key message = ed_sign P private_key message"

definition public_key :: "prims \<Rightarrow> bytes \<Rightarrow> bytes" where
  "public_key P private_key = ed_public P private_key"

lemma verify_sign [simp]:
  "signature_law P \<Longrightarrow> verify_signature P (public_key P k) m (sign P k m) = Ok ()"
  by (simp add: verify_signature_def public_key_def sign_def signature_law_def)

section \<open>Preimages of tracked-file signatures\<close>

definition FILE_REVISION_DOMAIN :: bytes where "FILE_REVISION_DOMAIN = as_bytes ''KQ-FILE-REVISION-v1''"
definition FILE_COUNTERSIGN_DOMAIN :: bytes where "FILE_COUNTERSIGN_DOMAIN = as_bytes ''KQ-FILE-COUNTERSIGN-v1''"
definition FILE_FINALIZE_DOMAIN :: bytes where "FILE_FINALIZE_DOMAIN = as_bytes ''KQ-FILE-FINALIZE-v1''"
definition FILE_COAUTHOR_DOMAIN :: bytes where "FILE_COAUTHOR_DOMAIN = as_bytes ''KQ-FILE-COAUTHOR-v1''"
definition FILE_HISTORY_EVENT_DOMAIN :: bytes where "FILE_HISTORY_EVENT_DOMAIN = as_bytes ''KQ-FILE-HISTORY-EVENT-v1''"
definition FILE_BRIDGE_APPROVAL_DOMAIN :: bytes where "FILE_BRIDGE_APPROVAL_DOMAIN = as_bytes ''KQ-FILE-BRIDGE-APPROVAL-v1''"

definition digest :: "prims \<Rightarrow> bytes result \<Rightarrow> bytes result" where
  "digest P fed = and_then fed (\<lambda>b. Ok (sha256 P b))"

definition file_revision_fed :: "bytes \<Rightarrow> bytes \<Rightarrow> bytes \<Rightarrow> bytes \<Rightarrow> u64 \<Rightarrow> bytes \<Rightarrow> bytes" where
  "file_revision_fed file_id revision_id content_commitment signer_identity topology_generation policy_hash =
     FILE_REVISION_DOMAIN @ file_id @ revision_id @ content_commitment @ signer_identity
     @ push_u64 topology_generation @ policy_hash"

definition file_revision_preimage :: "prims \<Rightarrow> bytes \<Rightarrow> bytes \<Rightarrow> bytes \<Rightarrow> bytes \<Rightarrow> u64 \<Rightarrow> bytes \<Rightarrow> bytes" where
  "file_revision_preimage P file_id revision_id content_commitment signer_identity topology_generation policy_hash =
     sha256 P (file_revision_fed file_id revision_id content_commitment signer_identity
                 topology_generation policy_hash)"

definition file_countersign_fed ::
    "bytes \<Rightarrow> bytes \<Rightarrow> bytes \<Rightarrow> bytes \<Rightarrow> bytes \<Rightarrow> str \<Rightarrow> u64 \<Rightarrow> bytes \<Rightarrow> bytes result" where
  "file_countersign_fed file_id revision_id author author_signature_hash supervisor supervisor_label
       topology_generation policy_hash =
     and_then (hash_len_prefixed (as_bytes supervisor_label)) (\<lambda>label.
     Ok (FILE_COUNTERSIGN_DOMAIN @ file_id @ revision_id @ author @ author_signature_hash @ supervisor
         @ label @ push_u64 topology_generation @ policy_hash))"

definition file_countersign_preimage ::
    "prims \<Rightarrow> bytes \<Rightarrow> bytes \<Rightarrow> bytes \<Rightarrow> bytes \<Rightarrow> bytes \<Rightarrow> str \<Rightarrow> u64 \<Rightarrow> bytes \<Rightarrow> bytes result" where
  "file_countersign_preimage P file_id revision_id author author_signature_hash supervisor supervisor_label
       topology_generation policy_hash =
     digest P (file_countersign_fed file_id revision_id author author_signature_hash supervisor
                 supervisor_label topology_generation policy_hash)"

definition file_coauthor_fed ::
    "bytes \<Rightarrow> bytes \<Rightarrow> bytes \<Rightarrow> bytes \<Rightarrow> bytes \<Rightarrow> str \<Rightarrow> u64 \<Rightarrow> bytes \<Rightarrow> bytes result" where
  "file_coauthor_fed file_id revision_id author author_signature_hash coauthor coauthor_label
       topology_generation policy_hash =
     and_then (hash_len_prefixed (as_bytes coauthor_label)) (\<lambda>label.
     Ok (FILE_COAUTHOR_DOMAIN @ file_id @ revision_id @ author @ author_signature_hash @ coauthor
         @ label @ push_u64 topology_generation @ policy_hash))"

definition file_coauthor_preimage ::
    "prims \<Rightarrow> bytes \<Rightarrow> bytes \<Rightarrow> bytes \<Rightarrow> bytes \<Rightarrow> bytes \<Rightarrow> str \<Rightarrow> u64 \<Rightarrow> bytes \<Rightarrow> bytes result" where
  "file_coauthor_preimage P file_id revision_id author author_signature_hash coauthor coauthor_label
       topology_generation policy_hash =
     digest P (file_coauthor_fed file_id revision_id author author_signature_hash coauthor
                 coauthor_label topology_generation policy_hash)"

definition file_finalize_fed :: "bytes \<Rightarrow> bytes \<Rightarrow> bytes \<Rightarrow> str \<Rightarrow> u64 \<Rightarrow> bytes \<Rightarrow> bytes result" where
  "file_finalize_fed file_id revision_id finalizer finalizer_label topology_generation policy_hash =
     and_then (hash_len_prefixed (as_bytes finalizer_label)) (\<lambda>label.
     Ok (FILE_FINALIZE_DOMAIN @ file_id @ revision_id @ finalizer @ label
         @ push_u64 topology_generation @ policy_hash))"

definition file_finalize_preimage ::
    "prims \<Rightarrow> bytes \<Rightarrow> bytes \<Rightarrow> bytes \<Rightarrow> str \<Rightarrow> u64 \<Rightarrow> bytes \<Rightarrow> bytes result" where
  "file_finalize_preimage P file_id revision_id finalizer finalizer_label topology_generation policy_hash =
     digest P (file_finalize_fed file_id revision_id finalizer finalizer_label topology_generation policy_hash)"

definition file_bridge_approval_preimage ::
    "prims \<Rightarrow> bytes \<Rightarrow> bytes \<Rightarrow> str \<Rightarrow> str \<Rightarrow> u64 \<Rightarrow> bytes \<Rightarrow> bytes result" where
  "file_bridge_approval_preimage P file_id revision_id author_label scope_root topology_generation policy_hash =
     digest P
       (and_then (hash_len_prefixed (as_bytes author_label)) (\<lambda>author.
        and_then (hash_len_prefixed (as_bytes scope_root)) (\<lambda>scope.
        Ok (FILE_BRIDGE_APPROVAL_DOMAIN @ file_id @ revision_id @ author @ scope
            @ push_u64 topology_generation @ policy_hash))))"

definition file_history_event_fed :: "bytes \<Rightarrow> bytes option \<Rightarrow> u64 \<Rightarrow> bytes \<Rightarrow> bytes \<Rightarrow> bytes" where
  "file_history_event_fed file_id revision_id sequence previous_event_hash event_hash =
     FILE_HISTORY_EVENT_DOMAIN @ file_id
     @ (case revision_id of Some i \<Rightarrow> 1 # i | None \<Rightarrow> [0])
     @ push_u64 sequence @ previous_event_hash @ event_hash"

definition file_history_event_preimage ::
    "prims \<Rightarrow> bytes \<Rightarrow> bytes option \<Rightarrow> u64 \<Rightarrow> bytes \<Rightarrow> bytes \<Rightarrow> bytes" where
  "file_history_event_preimage P file_id revision_id sequence previous_event_hash event_hash =
     sha256 P (file_history_event_fed file_id revision_id sequence previous_event_hash event_hash)"

section \<open>Preimages of relay, provider and account signatures\<close>

definition hash_optional :: "bytes option \<Rightarrow> bytes result" where
  "hash_optional field =
     (case field of
        Some bs \<Rightarrow> and_then (hash_len_prefixed bs) (\<lambda>b. Ok (1 # b))
      | None \<Rightarrow> Ok [0])"

datatype account_bridge_role = Request | Accept

fun account_bridge_role_code :: "account_bridge_role \<Rightarrow> u8" where
  "account_bridge_role_code Request = 1"
| "account_bridge_role_code Accept = 2"

definition account_bridge_preimage ::
    "prims \<Rightarrow> account_bridge_role \<Rightarrow> str \<Rightarrow> str \<Rightarrow> str \<Rightarrow> bytes \<Rightarrow> bytes result" where
  "account_bridge_preimage P role from to signer bridge_nonce =
     digest P
       (and_then (hash_len_prefixed (as_bytes from)) (\<lambda>f.
        and_then (hash_len_prefixed (as_bytes to)) (\<lambda>t.
        and_then (hash_len_prefixed (as_bytes signer)) (\<lambda>s.
        Ok (as_bytes ''KQ-ACCOUNT-BRIDGE-v1'' @ [account_bridge_role_code role] @ f @ t @ s @ bridge_nonce)))))"

definition relay_audit_anchor_preimage ::
    "prims \<Rightarrow> str \<Rightarrow> u64 \<Rightarrow> bytes \<Rightarrow> str \<Rightarrow> bytes \<Rightarrow> bytes result" where
  "relay_audit_anchor_preimage P table row_count head_hash signed_at certificate =
     digest P
       (and_then (hash_len_prefixed (as_bytes table)) (\<lambda>t.
        and_then (hash_len_prefixed (as_bytes signed_at)) (\<lambda>at.
        Ok (as_bytes ''KQ-RELAY-AUDIT-ANCHOR-v1'' @ t @ push_u64 row_count @ head_hash @ at
            @ sha256 P certificate))))"

definition relay_setup_manifest_preimage :: "prims \<Rightarrow> bytes \<Rightarrow> bytes" where
  "relay_setup_manifest_preimage P body = sha256 P (as_bytes ''KQ-RELAY-SETUP-MANIFEST-v1'' @ body)"

definition provider_recovery_preimage :: "prims \<Rightarrow> bytes \<Rightarrow> bytes" where
  "provider_recovery_preimage P ctxt = sha256 P (as_bytes ''KQ-PROVIDER-RECOVERY-v1'' @ ctxt)"

definition error_report_preimage :: "prims \<Rightarrow> bytes \<Rightarrow> bytes" where
  "error_report_preimage P body = sha256 P (as_bytes ''KQ-ERROR-REPORT-v1'' @ body)"

definition relay_backup_manifest_preimage :: "prims \<Rightarrow> bytes \<Rightarrow> bytes" where
  "relay_backup_manifest_preimage P body = sha256 P (as_bytes ''KQ-RELAY-BACKUP-v1'' @ body)"

definition relay_key_issue_preimage ::
    "prims \<Rightarrow> bytes \<Rightarrow> str \<Rightarrow> 64 word \<Rightarrow> str \<Rightarrow> str \<Rightarrow> str \<Rightarrow> str option \<Rightarrow> bytes option \<Rightarrow> bytes \<Rightarrow> str option
      \<Rightarrow> bytes result" where
  "relay_key_issue_preimage P recipient_public_key relay_url key_id scope token issued_at expires_at
       device_id certificate licence =
     digest P
       (and_then (hash_len_prefixed (as_bytes relay_url)) (\<lambda>url.
        and_then (hash_len_prefixed (as_bytes scope)) (\<lambda>sc.
        and_then (hash_len_prefixed (as_bytes token)) (\<lambda>tok.
        and_then (hash_len_prefixed (as_bytes issued_at)) (\<lambda>at.
        and_then (hash_optional (map_option as_bytes expires_at)) (\<lambda>expires.
        and_then (hash_optional device_id) (\<lambda>device.
        and_then (hash_optional (map_option as_bytes licence)) (\<lambda>lic.
        Ok (as_bytes ''KQ-RELAY-API-KEY-ISSUE-v1'' @ recipient_public_key @ url @ push_u64 key_id @ sc
            @ tok @ at @ expires @ device @ sha256 P certificate @ lic)))))))))"

fun checkpoint_rows :: "(str \<times> u64 \<times> bytes) list \<Rightarrow> bytes result" where
  "checkpoint_rows [] = Ok []"
| "checkpoint_rows ((table, row_count, head_hash) # rows) =
     and_then (hash_len_prefixed (as_bytes table)) (\<lambda>t.
     and_then (checkpoint_rows rows) (\<lambda>rest.
     Ok (t @ push_u64 row_count @ head_hash @ rest)))"

definition relay_audit_checkpoint_preimage ::
    "prims \<Rightarrow> (str \<times> u64 \<times> bytes) list \<Rightarrow> str \<Rightarrow> bytes \<Rightarrow> bytes result" where
  "relay_audit_checkpoint_preimage P heads taken_at certificate =
     digest P
       (if length heads < 2 ^ 32 then
          and_then (checkpoint_rows heads) (\<lambda>rows.
          and_then (hash_len_prefixed (as_bytes taken_at)) (\<lambda>at.
          Ok (as_bytes ''KQ-RELAY-AUDIT-CHECKPOINT-v1'' @ to_be 4 (length heads) @ rows @ at
              @ sha256 P certificate)))
        else Err BundleFieldTooLarge)"

section \<open>Bridge signature artifacts\<close>

record bridge_signature =
  bs_uid :: str
  bs_generation :: u32
  bs_bridge_salt :: bytes
  bs_signature_salt :: bytes
  bs_signer_label :: str
  bs_signer_public_key :: bytes
  bs_bridge_signature :: bytes
  bs_personal_signature :: bytes

definition bridge_sign_fed :: "str \<Rightarrow> u32 \<Rightarrow> bytes \<Rightarrow> bytes \<Rightarrow> str \<Rightarrow> bytes \<Rightarrow> bytes \<Rightarrow> bytes" where
  "bridge_sign_fed uid generation bridge_salt signature_salt signer_label signer_public_key message =
     as_bytes ''KQBRIDGE-SIGN-v1'' @ as_bytes uid @ to_be 4 (unat generation) @ bridge_salt
     @ signature_salt @ as_bytes signer_label @ signer_public_key @ message"

definition bridge_sign_preimage ::
    "prims \<Rightarrow> str \<Rightarrow> u32 \<Rightarrow> bytes \<Rightarrow> bytes \<Rightarrow> str \<Rightarrow> bytes \<Rightarrow> bytes \<Rightarrow> bytes" where
  "bridge_sign_preimage P uid generation bridge_salt signature_salt signer_label signer_public_key message =
     sha256 P (bridge_sign_fed uid generation bridge_salt signature_salt signer_label
                 signer_public_key message)"

text \<open>The signature salt is drawn at random; here it is an argument.\<close>

definition sign_with_bridge ::
    "prims \<Rightarrow> bytes \<Rightarrow> str \<Rightarrow> u32 \<Rightarrow> bytes \<Rightarrow> str \<Rightarrow> bytes \<Rightarrow> bytes \<Rightarrow> bytes \<Rightarrow> bridge_signature" where
  "sign_with_bridge P signature_salt uid generation bridge_salt signer_label bridge_private_key
       personal_private_key message =
     (let signer_public_key = ed_public P personal_private_key;
          preimage = bridge_sign_preimage P uid generation bridge_salt signature_salt signer_label
                       signer_public_key message in
      \<lparr>bs_uid = uid, bs_generation = generation, bs_bridge_salt = bridge_salt,
       bs_signature_salt = signature_salt, bs_signer_label = signer_label,
       bs_signer_public_key = signer_public_key,
       bs_bridge_signature = sign P bridge_private_key preimage,
       bs_personal_signature = sign P personal_private_key preimage\<rparr>)"

definition verify_bridge_signature ::
    "prims \<Rightarrow> bridge_signature \<Rightarrow> bytes \<Rightarrow> bytes \<Rightarrow> bytes \<Rightarrow> unit result" where
  "verify_bridge_signature P artifact bridge_public_key signer_public_key message =
     (if bs_signer_public_key artifact \<noteq> signer_public_key then Err SignatureVerificationFailed
      else let preimage = bridge_sign_preimage P (bs_uid artifact) (bs_generation artifact)
                 (bs_bridge_salt artifact) (bs_signature_salt artifact) (bs_signer_label artifact)
                 signer_public_key message in
        and_then (verify_signature P bridge_public_key preimage (bs_bridge_signature artifact)) (\<lambda>_.
        verify_signature P signer_public_key preimage (bs_personal_signature artifact)))"

definition ARTIFACT_MAGIC :: bytes where "ARTIFACT_MAGIC = as_bytes ''KQBS''"
definition ARTIFACT_VERSION :: u8 where "ARTIFACT_VERSION = 1"

definition encode_bridge_signature :: "bridge_signature \<Rightarrow> bytes result" where
  "encode_bridge_signature artifact =
     and_then (push_len_prefixed (as_bytes (bs_uid artifact))) (\<lambda>uid.
     and_then (push_len_prefixed (as_bytes (bs_signer_label artifact))) (\<lambda>label.
     Ok (ARTIFACT_MAGIC @ [ARTIFACT_VERSION] @ uid @ to_be 4 (unat (bs_generation artifact))
         @ bs_bridge_salt artifact @ bs_signature_salt artifact @ label
         @ bs_signer_public_key artifact @ bs_bridge_signature artifact
         @ bs_personal_signature artifact)))"

definition decode_bridge_signature :: "bytes \<Rightarrow> bridge_signature result" where
  "decode_bridge_signature bs =
     and_then (take_n 4 bs) (\<lambda>(m, data).
     if m \<noteq> ARTIFACT_MAGIC then Err InvalidBridgePackage else
     and_then (take_u8 data) (\<lambda>(v, data).
     if v \<noteq> ARTIFACT_VERSION then Err InvalidBridgePackage else
     and_then (take_len_prefixed data) (\<lambda>(u, data).
     and_then (utf8 u) (\<lambda>uid.
     and_then (take_array 4 data) (\<lambda>(g, data).
     and_then (take_array 16 data) (\<lambda>(bridge_salt, data).
     and_then (take_array 16 data) (\<lambda>(signature_salt, data).
     and_then (take_len_prefixed data) (\<lambda>(l, data).
     and_then (utf8 l) (\<lambda>signer_label.
     and_then (take_array 32 data) (\<lambda>(signer_public_key, data).
     and_then (take_array 64 data) (\<lambda>(bridge_sig, data).
     and_then (take_array 64 data) (\<lambda>(personal_sig, data).
     if data \<noteq> [] then Err InvalidBridgePackage else
     Ok \<lparr>bs_uid = uid, bs_generation = word_of_nat (from_be g), bs_bridge_salt = bridge_salt,
         bs_signature_salt = signature_salt, bs_signer_label = signer_label,
         bs_signer_public_key = signer_public_key, bs_bridge_signature = bridge_sig,
         bs_personal_signature = personal_sig\<rparr>))))))))))))"

definition bridge_signature_ok :: "bridge_signature \<Rightarrow> bool" where
  "bridge_signature_ok a \<longleftrightarrow>
     str_ok (bs_uid a) \<and> str_ok (bs_signer_label a)
     \<and> length (bs_bridge_salt a) = 16 \<and> length (bs_signature_salt a) = 16
     \<and> length (bs_signer_public_key a) = 32 \<and> length (bs_bridge_signature a) = 64
     \<and> length (bs_personal_signature a) = 64"

section \<open>What the signatures commit to\<close>

lemma hash_eq_push: "hash_len_prefixed = push_len_prefixed"
  by (rule ext) (simp add: hash_len_prefixed_def push_len_prefixed_def)

lemma distinct_tagged:
  assumes "distinct ds" and "\<forall>d \<in> set ds. \<forall>e \<in> set ds. d \<noteq> e \<longrightarrow> \<not> prefix d e"
    and "length ds = length xs"
  shows "distinct (map2 (@) ds xs)"
  using assms(3,1,2)
proof (induction ds xs rule: list_induct2)
  case (Cons d ds x xs)
  have "d @ x \<noteq> e @ y" if "(e, y) \<in> set (zip ds xs)" for e y
  proof
    assume "d @ x = e @ y"
    then have "prefix d e \<or> prefix e d" by (metis append_eq_append_conv2 prefixI)
    with set_zip_leftD [OF that] Cons.prems show False by auto
  qed
  with Cons show ?case by auto
qed simp

lemmas file_domains =
  FILE_REVISION_DOMAIN_def FILE_COUNTERSIGN_DOMAIN_def FILE_FINALIZE_DOMAIN_def
  FILE_COAUTHOR_DOMAIN_def FILE_HISTORY_EVENT_DOMAIN_def FILE_BRIDGE_APPROVAL_DOMAIN_def

definition FILE_DOMAINS :: "bytes list" where
  "FILE_DOMAINS = [FILE_REVISION_DOMAIN, FILE_COUNTERSIGN_DOMAIN, FILE_COAUTHOR_DOMAIN,
     FILE_FINALIZE_DOMAIN, FILE_HISTORY_EVENT_DOMAIN]"

lemma domains_apart:
  "\<forall>d \<in> set FILE_DOMAINS. \<forall>e \<in> set FILE_DOMAINS. d \<noteq> e \<longrightarrow> \<not> prefix d e"
  by (simp add: FILE_DOMAINS_def file_domains as_bytes_def)

text \<open>
  A signature made for one purpose is never valid for another: the author, countersign,
  co-author, finalize and event preimages feed five different byte strings to the hasher,
  whatever their fields hold.
\<close>

lemma file_preimages_disjoint:
  assumes "file_countersign_fed f1 r1 a1 h1 s1 l1 g1 p1 = Ok counter"
    and "file_coauthor_fed f2 r2 a2 h2 s2 l2 g2 p2 = Ok coauthor"
    and "file_finalize_fed f3 r3 s3 l3 g3 p3 = Ok final"
  shows "distinct [file_revision_fed f r c s g p, counter, coauthor, final,
                   file_history_event_fed f4 r4 q4 pr4 h4]"
proof -
  obtain x1 x2 x3 where x: "counter = FILE_COUNTERSIGN_DOMAIN @ x1"
    "coauthor = FILE_COAUTHOR_DOMAIN @ x2" "final = FILE_FINALIZE_DOMAIN @ x3"
    using assms by (auto simp: file_countersign_fed_def file_coauthor_fed_def file_finalize_fed_def)
  let ?xs = "[f @ r @ c @ s @ push_u64 g @ p, x1, x2, x3,
    f4 @ (case r4 of Some i \<Rightarrow> 1 # i | None \<Rightarrow> [0]) @ push_u64 q4 @ pr4 @ h4]"
  have "distinct (map2 (@) FILE_DOMAINS ?xs)"
    by (rule distinct_tagged [OF _ domains_apart]) (simp_all add: FILE_DOMAINS_def file_domains)
  then show ?thesis
    unfolding x file_revision_fed_def file_history_event_fed_def FILE_DOMAINS_def by simp
qed

lemma countersign_fed_inject:
  assumes "file_countersign_fed f r a h s l g p = Ok fed" "file_countersign_fed f' r' a' h' s' l' g' p' = Ok fed"
    and "length f = 16" "length f' = 16" "length r = 32" "length r' = 32" "length a = 16" "length a' = 16"
    and "length h = 32" "length h' = 32" "length s = 16" "length s' = 16" "length p = 32" "length p' = 32"
  shows "f = f' \<and> r = r' \<and> a = a' \<and> h = h' \<and> s = s' \<and> l = l' \<and> g = g' \<and> p = p'"
proof -
  from assms(1,2) obtain b b' where b: "push_len_prefixed (as_bytes l) = Ok b"
    and b': "push_len_prefixed (as_bytes l') = Ok b'"
    and eq: "f @ r @ a @ h @ s @ b @ push_u64 g @ p = f' @ r' @ a' @ h' @ s' @ b' @ push_u64 g' @ p'"
    by (auto simp: file_countersign_fed_def hash_eq_push)
  from eq assms(3-12) have fs: "f = f'" "r = r'" "a = a'" "h = h'" "s = s'"
    and tail: "b @ push_u64 g @ p = b' @ push_u64 g' @ p'"
    by simp_all
  from len_prefixed_codec.prefix_free [OF _ _ b b' tail]
  have l: "l = l'" and rest: "push_u64 g @ p = push_u64 g' @ p'" by simp_all
  from arg_cong [OF rest, of take_u64] have "g = g'" "p = p'" by (simp_all add: codec_simps)
  with fs l show ?thesis by simp
qed

text \<open>
  A countersignature cannot be carried over: if two countersign requests differ in the
  file, the revision, the author, the author's signature hash, the supervisor, the
  supervisor's label, the topology generation or the policy, then the digests that are
  signed differ, unless the two byte strings are a collision of the hash.
\<close>

lemma countersign_commits:
  assumes "file_countersign_fed f r a h s l g p = Ok x" "file_countersign_fed f' r' a' h' s' l' g' p' = Ok y"
    and "no_collision P {x, y}"
    and "length f = 16" "length f' = 16" "length r = 32" "length r' = 32" "length a = 16" "length a' = 16"
    and "length h = 32" "length h' = 32" "length s = 16" "length s' = 16" "length p = 32" "length p' = 32"
    and "(f, r, a, h, s, l, g, p) \<noteq> (f', r', a', h', s', l', g', p')"
  shows "file_countersign_preimage P f r a h s l g p \<noteq> file_countersign_preimage P f' r' a' h' s' l' g' p'"
proof
  assume "file_countersign_preimage P f r a h s l g p = file_countersign_preimage P f' r' a' h' s' l' g' p'"
  with assms(1,2) have "sha256 P x = sha256 P y" by (simp add: file_countersign_preimage_def digest_def)
  with assms(3) have "x = y" by (auto dest: no_collisionD)
  with assms(2) have y: "file_countersign_fed f' r' a' h' s' l' g' p' = Ok x" by simp
  from countersign_fed_inject [OF assms(1) y assms(4-15)] assms(16) show False by simp
qed

text \<open>
  The preimage of a bridge signature does not separate its variable-length fields: the
  last character of the signer's label can move into the key, and the last byte of the key
  into the message, without changing what is signed.
\<close>

lemma bridge_preimage_shifts:
  "bridge_sign_preimage P uid g bs ss (label @ [c]) (q @ [b]) m
     = bridge_sign_preimage P uid g bs ss label (as_bytes [c] @ q) (b # m)"
  by (simp add: bridge_sign_preimage_def bridge_sign_fed_def)

text \<open>
  A bridge signature artifact reads back from its encoding field by field.
\<close>

lemma bridge_artifact_round_trip:
  assumes "bridge_signature_ok a" "encode_bridge_signature a = Ok bs"
  shows "decode_bridge_signature bs = Ok a"
proof -
  have g: "(word_of_nat (from_be (to_be 4 (unat (bs_generation a)))) :: u32) = bs_generation a"
  proof -
    have "unat (bs_generation a) < 256 ^ 4"
      by (rule order_less_le_trans [OF unsigned_less]) simp
    then show ?thesis by simp
  qed
  from assms obtain u l where u: "push_len_prefixed (as_bytes (bs_uid a)) = Ok u"
    and l: "push_len_prefixed (as_bytes (bs_signer_label a)) = Ok l"
    and bs: "bs = ARTIFACT_MAGIC @ [ARTIFACT_VERSION] @ u @ to_be 4 (unat (bs_generation a))
         @ bs_bridge_salt a @ bs_signature_salt a @ l
         @ bs_signer_public_key a @ bs_bridge_signature a @ bs_personal_signature a"
    by (auto simp: encode_bridge_signature_def)
  have m: "length ARTIFACT_MAGIC = 4" by (simp add: ARTIFACT_MAGIC_def)
  have last: "take_array 64 (bs_personal_signature a) = Ok (bs_personal_signature a, [])"
    using take_array_append [of "bs_personal_signature a" 64 "[]"] assms(1)
    by (simp add: bridge_signature_ok_def)
  show ?thesis
    using assms(1) u l m last g
    by (simp add: bs decode_bridge_signature_def bridge_signature_ok_def codec_simps)
qed

definition sample_artifact :: bridge_signature where
  "sample_artifact =
     \<lparr>bs_uid = ''b-1'', bs_generation = 3, bs_bridge_salt = replicate 16 1,
      bs_signature_salt = replicate 16 2, bs_signer_label = ''A.1'',
      bs_signer_public_key = replicate 32 3, bs_bridge_signature = replicate 64 4,
      bs_personal_signature = replicate 64 5\<rparr>"

text \<open>
  What \<open>sign_with_bridge\<close> produces, \<open>verify_bridge_signature\<close> accepts for the same
  message under the public halves of the two keys.
\<close>

lemma bridge_sign_verifies:
  assumes "signature_law P"
  shows "verify_bridge_signature P (sign_with_bridge P salt uid g bs label bk pk m)
           (public_key P bk) (public_key P pk) m = Ok ()"
  using assms by (simp add: sign_with_bridge_def verify_bridge_signature_def Let_def flip: public_key_def)

end
