(* ===== verification/Event.thy ===== *)
theory Event
  imports Signing
begin

text \<open>
  History events and the hash chain over them, \<open>src/file_history/event.rs\<close>. An event is
  a record whose canonical encoding (\<open>event_body\<close>) carries the hash of the event before
  it; \<open>verify_chain\<close> walks a chain from the genesis hash of its file. The enum
  \<open>HistoryEventType\<close> keeps the names and codes of the source; its variant
  \<open>FileExpired\<close> is \<open>FileExpiredEvent\<close> here, because an error has that name too.

  The main facts: the event codec is canonical (one event, one encoding), and a history
  root commits to the file and to every event of the chain.
\<close>

section \<open>Event types and outcomes\<close>

datatype history_event_type =
    TrackingStarted | EditCheckedIn | RevisionSigned | CountersignatureAdded | PolicyDecision |
    ShareAttempted | ShareDelivered | FileExpiredEvent | ContentDestroyed | TamperDetected |
    AutoMergeAttempted | AutoMergeFastForward | AutoMergeEquivalent | AutoMergeClean |
    AutoMergeBlocked | AutoMergeRequiresHuman | HistoryForkDetected | ContentConflictDetected |
    ConflictReviewAssigned | ConflictReviewEscalated | BridgeUsed | ConflictUnresolved |
    HistoryImported | QuorumUnlockAttempted | PasswordUnlockAttempted | ExpiredAccessAttempt |
    GateLinked | ShareLinkCreated | ShareLinkRedeemed | ShareLinkRevoked | ExpiryScheduled |
    FileRenamed | RevisionFinalized | ConflictResolved | MergeRejected | RevisionCheckedOut |
    VerificationRun | HistoryExported | FileRequested | ChangeRequested | RequestAnswered |
    LetterQueued | LetterSent | LetterDropped | LetterRefused | LetterReceived | LetterOpened |
    ErrorReported

text \<open>The discriminants of \<open>#[repr(u8)]\<close>, as \<open>event_type as u8\<close> reads them.\<close>

fun event_type_code :: "history_event_type \<Rightarrow> u8" where
  "event_type_code TrackingStarted = 1"
| "event_type_code EditCheckedIn = 2"
| "event_type_code RevisionSigned = 3"
| "event_type_code CountersignatureAdded = 4"
| "event_type_code PolicyDecision = 5"
| "event_type_code ShareAttempted = 6"
| "event_type_code ShareDelivered = 7"
| "event_type_code FileExpiredEvent = 8"
| "event_type_code ContentDestroyed = 9"
| "event_type_code TamperDetected = 10"
| "event_type_code AutoMergeAttempted = 11"
| "event_type_code AutoMergeFastForward = 12"
| "event_type_code AutoMergeEquivalent = 13"
| "event_type_code AutoMergeClean = 14"
| "event_type_code AutoMergeBlocked = 15"
| "event_type_code AutoMergeRequiresHuman = 16"
| "event_type_code HistoryForkDetected = 17"
| "event_type_code ContentConflictDetected = 18"
| "event_type_code ConflictReviewAssigned = 19"
| "event_type_code ConflictReviewEscalated = 20"
| "event_type_code BridgeUsed = 21"
| "event_type_code ConflictUnresolved = 22"
| "event_type_code HistoryImported = 23"
| "event_type_code QuorumUnlockAttempted = 24"
| "event_type_code PasswordUnlockAttempted = 25"
| "event_type_code ExpiredAccessAttempt = 26"
| "event_type_code GateLinked = 27"
| "event_type_code ShareLinkCreated = 28"
| "event_type_code ShareLinkRedeemed = 29"
| "event_type_code ShareLinkRevoked = 30"
| "event_type_code ExpiryScheduled = 31"
| "event_type_code FileRenamed = 32"
| "event_type_code RevisionFinalized = 33"
| "event_type_code ConflictResolved = 34"
| "event_type_code MergeRejected = 35"
| "event_type_code RevisionCheckedOut = 36"
| "event_type_code VerificationRun = 37"
| "event_type_code HistoryExported = 38"
| "event_type_code FileRequested = 39"
| "event_type_code ChangeRequested = 40"
| "event_type_code RequestAnswered = 41"
| "event_type_code LetterQueued = 42"
| "event_type_code LetterSent = 43"
| "event_type_code LetterDropped = 44"
| "event_type_code LetterRefused = 45"
| "event_type_code LetterReceived = 46"
| "event_type_code LetterOpened = 47"
| "event_type_code ErrorReported = 48"

definition event_type_of_u8 :: "u8 \<Rightarrow> history_event_type result" where
  "event_type_of_u8 v =
     (if v = 1 then Ok TrackingStarted else
      if v = 2 then Ok EditCheckedIn else
      if v = 3 then Ok RevisionSigned else
      if v = 4 then Ok CountersignatureAdded else
      if v = 5 then Ok PolicyDecision else
      if v = 6 then Ok ShareAttempted else
      if v = 7 then Ok ShareDelivered else
      if v = 8 then Ok FileExpiredEvent else
      if v = 9 then Ok ContentDestroyed else
      if v = 10 then Ok TamperDetected else
      if v = 11 then Ok AutoMergeAttempted else
      if v = 12 then Ok AutoMergeFastForward else
      if v = 13 then Ok AutoMergeEquivalent else
      if v = 14 then Ok AutoMergeClean else
      if v = 15 then Ok AutoMergeBlocked else
      if v = 16 then Ok AutoMergeRequiresHuman else
      if v = 17 then Ok HistoryForkDetected else
      if v = 18 then Ok ContentConflictDetected else
      if v = 19 then Ok ConflictReviewAssigned else
      if v = 20 then Ok ConflictReviewEscalated else
      if v = 21 then Ok BridgeUsed else
      if v = 22 then Ok ConflictUnresolved else
      if v = 23 then Ok HistoryImported else
      if v = 24 then Ok QuorumUnlockAttempted else
      if v = 25 then Ok PasswordUnlockAttempted else
      if v = 26 then Ok ExpiredAccessAttempt else
      if v = 27 then Ok GateLinked else
      if v = 28 then Ok ShareLinkCreated else
      if v = 29 then Ok ShareLinkRedeemed else
      if v = 30 then Ok ShareLinkRevoked else
      if v = 31 then Ok ExpiryScheduled else
      if v = 32 then Ok FileRenamed else
      if v = 33 then Ok RevisionFinalized else
      if v = 34 then Ok ConflictResolved else
      if v = 35 then Ok MergeRejected else
      if v = 36 then Ok RevisionCheckedOut else
      if v = 37 then Ok VerificationRun else
      if v = 38 then Ok HistoryExported else
      if v = 39 then Ok FileRequested else
      if v = 40 then Ok ChangeRequested else
      if v = 41 then Ok RequestAnswered else
      if v = 42 then Ok LetterQueued else
      if v = 43 then Ok LetterSent else
      if v = 44 then Ok LetterDropped else
      if v = 45 then Ok LetterRefused else
      if v = 46 then Ok LetterReceived else
      if v = 47 then Ok LetterOpened else
      if v = 48 then Ok ErrorReported else
      Err InvalidTrackedFile)"

fun category :: "history_event_type \<Rightarrow> str" where
  "category TrackingStarted = ''file''"
| "category HistoryImported = ''file''"
| "category GateLinked = ''file''"
| "category FileRenamed = ''file''"
| "category RevisionCheckedOut = ''file''"
| "category HistoryExported = ''file''"
| "category EditCheckedIn = ''revision''"
| "category RevisionFinalized = ''revision''"
| "category RevisionSigned = ''revision''"
| "category CountersignatureAdded = ''revision''"
| "category PolicyDecision = ''revision''"
| "category AutoMergeAttempted = ''revision''"
| "category AutoMergeFastForward = ''revision''"
| "category AutoMergeEquivalent = ''revision''"
| "category AutoMergeClean = ''revision''"
| "category ChangeRequested = ''revision''"
| "category QuorumUnlockAttempted = ''security''"
| "category PasswordUnlockAttempted = ''security''"
| "category FileExpiredEvent = ''security''"
| "category ContentDestroyed = ''security''"
| "category ExpiredAccessAttempt = ''security''"
| "category ExpiryScheduled = ''security''"
| "category TamperDetected = ''security''"
| "category VerificationRun = ''security''"
| "category ShareAttempted = ''sharing''"
| "category ShareDelivered = ''sharing''"
| "category ShareLinkCreated = ''sharing''"
| "category ShareLinkRedeemed = ''sharing''"
| "category ShareLinkRevoked = ''sharing''"
| "category FileRequested = ''sharing''"
| "category RequestAnswered = ''sharing''"
| "category LetterQueued = ''sharing''"
| "category LetterSent = ''sharing''"
| "category LetterDropped = ''sharing''"
| "category LetterRefused = ''sharing''"
| "category LetterReceived = ''sharing''"
| "category LetterOpened = ''sharing''"
| "category ErrorReported = ''sharing''"
| "category AutoMergeBlocked = ''conflict''"
| "category AutoMergeRequiresHuman = ''conflict''"
| "category HistoryForkDetected = ''conflict''"
| "category ContentConflictDetected = ''conflict''"
| "category ConflictReviewAssigned = ''conflict''"
| "category ConflictResolved = ''conflict''"
| "category MergeRejected = ''conflict''"
| "category ConflictReviewEscalated = ''conflict''"
| "category BridgeUsed = ''conflict''"
| "category ConflictUnresolved = ''conflict''"

fun event_name_c :: "history_event_type \<Rightarrow> str" where
  "event_name_c TrackingStarted = ''TrackingStarted''"
| "event_name_c EditCheckedIn = ''EditCheckedIn''"
| "event_name_c RevisionSigned = ''RevisionSigned''"
| "event_name_c CountersignatureAdded = ''CountersignatureAdded''"
| "event_name_c PolicyDecision = ''PolicyDecision''"
| "event_name_c ShareAttempted = ''ShareAttempted''"
| "event_name_c ShareDelivered = ''ShareDelivered''"
| "event_name_c FileExpiredEvent = ''FileExpired''"
| "event_name_c ContentDestroyed = ''ContentDestroyed''"
| "event_name_c TamperDetected = ''TamperDetected''"
| "event_name_c AutoMergeAttempted = ''AutoMergeAttempted''"
| "event_name_c AutoMergeFastForward = ''AutoMergeFastForward''"
| "event_name_c AutoMergeEquivalent = ''AutoMergeEquivalent''"
| "event_name_c AutoMergeClean = ''AutoMergeClean''"
| "event_name_c AutoMergeBlocked = ''AutoMergeBlocked''"
| "event_name_c AutoMergeRequiresHuman = ''AutoMergeRequiresHuman''"
| "event_name_c HistoryForkDetected = ''HistoryForkDetected''"
| "event_name_c ContentConflictDetected = ''ContentConflictDetected''"
| "event_name_c ConflictReviewAssigned = ''ConflictReviewAssigned''"
| "event_name_c ConflictReviewEscalated = ''ConflictReviewEscalated''"
| "event_name_c BridgeUsed = ''BridgeUsed''"
| "event_name_c ConflictUnresolved = ''ConflictUnresolved''"
| "event_name_c HistoryImported = ''HistoryImported''"
| "event_name_c QuorumUnlockAttempted = ''QuorumUnlockAttempted''"
| "event_name_c PasswordUnlockAttempted = ''PasswordUnlockAttempted''"
| "event_name_c ExpiredAccessAttempt = ''ExpiredAccessAttempt''"
| "event_name_c GateLinked = ''GateLinked''"
| "event_name_c ShareLinkCreated = ''ShareLinkCreated''"
| "event_name_c ShareLinkRedeemed = ''ShareLinkRedeemed''"
| "event_name_c ShareLinkRevoked = ''ShareLinkRevoked''"
| "event_name_c ExpiryScheduled = ''ExpiryScheduled''"
| "event_name_c FileRenamed = ''FileRenamed''"
| "event_name_c RevisionFinalized = ''RevisionFinalized''"
| "event_name_c ConflictResolved = ''ConflictResolved''"
| "event_name_c MergeRejected = ''MergeRejected''"
| "event_name_c RevisionCheckedOut = ''RevisionCheckedOut''"
| "event_name_c VerificationRun = ''VerificationRun''"
| "event_name_c HistoryExported = ''HistoryExported''"
| "event_name_c FileRequested = ''FileRequested''"
| "event_name_c ChangeRequested = ''ChangeRequested''"
| "event_name_c RequestAnswered = ''RequestAnswered''"
| "event_name_c LetterQueued = ''LetterQueued''"
| "event_name_c LetterSent = ''LetterSent''"
| "event_name_c LetterDropped = ''LetterDropped''"
| "event_name_c LetterRefused = ''LetterRefused''"
| "event_name_c LetterReceived = ''LetterReceived''"
| "event_name_c LetterOpened = ''LetterOpened''"
| "event_name_c ErrorReported = ''ErrorReported''"

definition event_name_of :: "u8 \<Rightarrow> str option" where
  "event_name_of code =
     (case event_type_of_u8 code of Inl _ \<Rightarrow> None | Inr t \<Rightarrow> Some (event_name_c t))"

datatype history_outcome = Success | Failure | Denied | Info

fun outcome_code :: "history_outcome \<Rightarrow> u8" where
  "outcome_code Success = 1"
| "outcome_code Failure = 2"
| "outcome_code Denied = 3"
| "outcome_code Info = 4"

definition outcome_of_u8 :: "u8 \<Rightarrow> history_outcome result" where
  "outcome_of_u8 v =
     (if v = 1 then Ok Success else
      if v = 2 then Ok Failure else
      if v = 3 then Ok Denied else
      if v = 4 then Ok Info else
      Err InvalidTrackedFile)"

fun outcome_name_c :: "history_outcome \<Rightarrow> str" where
  "outcome_name_c Success = ''Success''"
| "outcome_name_c Failure = ''Failure''"
| "outcome_name_c Denied = ''Denied''"
| "outcome_name_c Info = ''Info''"

definition outcome_name_of :: "u8 \<Rightarrow> str option" where
  "outcome_name_of code =
     (case outcome_of_u8 code of Inl _ \<Rightarrow> None | Inr t \<Rightarrow> Some (outcome_name_c t))"

lemma event_type_of_code [simp]: "event_type_of_u8 (event_type_code t) = Ok t"
  by (cases t) (simp_all add: event_type_of_u8_def)

lemma event_type_of_u8_OkD: "event_type_of_u8 v = Ok t \<Longrightarrow> v = event_type_code t"
  unfolding event_type_of_u8_def by (simp split: if_splits)

lemma outcome_of_code [simp]: "outcome_of_u8 (outcome_code t) = Ok t"
  by (cases t) (simp_all add: outcome_of_u8_def)

lemma outcome_of_u8_OkD: "outcome_of_u8 v = Ok t \<Longrightarrow> v = outcome_code t"
  by (auto simp: outcome_of_u8_def split: if_splits)

section \<open>Event details\<close>

type_synonym event_details = "(str \<times> str) list"

definition SAFE_DETAIL_KEYS :: "str list" where
  "SAFE_DETAIL_KEYS =
     [''action'', ''answers'', ''approval'', ''approvals'', ''base'', ''base_revision'',
      ''by'', ''bundle_type'', ''candidate'', ''container_commitment'', ''container_hash'',
      ''custody'', ''denied'', ''decision'', ''delivery_id'', ''devices'', ''error_class'',
      ''error_code'', ''error_ref'', ''expires_at'', ''fallback_reason'', ''for_actor'',
      ''freshness'', ''from'', ''from_history_root'', ''gate'', ''gate_file'', ''kind'',
      ''left'', ''letter_id'', ''minimum_devices'', ''operation'', ''pending'', ''pin'',
      ''presented'', ''proofs_added'', ''reason'', ''redeemer'', ''relation'',
      ''relationship'', ''result'', ''request_id'', ''request_kind'', ''reviewer'',
      ''revision_a'', ''revision_b'', ''revisions'', ''revisions_added'',
      ''revisions_destroyed'', ''resolution'', ''right'', ''scope'', ''selection_rule'',
      ''satisfied_by'', ''share'', ''shareable'', ''shares'', ''signing_mode'', ''slot'',
      ''state'', ''threshold'', ''to'', ''trust_state'', ''trusted'']"

definition details_with :: "event_details \<Rightarrow> str \<Rightarrow> str \<Rightarrow> event_details" where
  "details_with d key val = d @ [(key, val)]"

definition details_get :: "event_details \<Rightarrow> str \<Rightarrow> str option" where
  "details_get d key = map_option snd (List.find (\<lambda>(k, _). k = key) d)"

definition unsafe_key :: "event_details \<Rightarrow> str option" where
  "unsafe_key d = List.find (\<lambda>key. key \<notin> set SAFE_DETAIL_KEYS) (map fst d)"

section \<open>Events\<close>

record new_event =
  n_revision_id :: "bytes option"
  n_occurred_at :: str
  n_actor_identity :: "bytes option"
  n_actor_label :: "str option"
  n_topology_generation :: "u64 option"
  n_event_type :: history_event_type
  n_outcome :: history_outcome
  n_details :: event_details

record history_event =
  e_event_id :: bytes
  e_sequence :: u64
  e_file_id :: bytes
  e_revision_id :: "bytes option"
  e_previous_event_hash :: bytes
  e_event_hash :: bytes
  e_occurred_at :: str
  e_actor_identity :: "bytes option"
  e_actor_label :: "str option"
  e_topology_generation :: "u64 option"
  e_event_type :: history_event_type
  e_outcome :: history_outcome
  e_details :: event_details

text \<open>The array lengths and the UTF-8 strings that the types of the source carry.\<close>

definition new_event_ok :: "new_event \<Rightarrow> bool" where
  "new_event_ok n \<longleftrightarrow>
     opt_sized 32 (n_revision_id n) \<and> str_ok (n_occurred_at n) \<and> opt_sized 16 (n_actor_identity n)
     \<and> opt_str_ok (n_actor_label n) \<and> list_all (\<lambda>(k, v). str_ok k \<and> str_ok v) (n_details n)"

definition event_ok :: "history_event \<Rightarrow> bool" where
  "event_ok e \<longleftrightarrow>
     length (e_event_id e) = 16 \<and> length (e_file_id e) = 16 \<and> opt_sized 32 (e_revision_id e)
     \<and> length (e_previous_event_hash e) = 32 \<and> length (e_event_hash e) = 32
     \<and> str_ok (e_occurred_at e) \<and> opt_sized 16 (e_actor_identity e)
     \<and> opt_str_ok (e_actor_label e) \<and> list_all (\<lambda>(k, v). str_ok k \<and> str_ok v) (e_details e)"

definition HISTORY_DOMAIN :: bytes where "HISTORY_DOMAIN = as_bytes ''KQ-FILE-HISTORY-v1''"
definition GENESIS_DOMAIN :: bytes where "GENESIS_DOMAIN = as_bytes ''KQ-FILE-HISTORY-GENESIS-v1''"

definition genesis_hash :: "prims \<Rightarrow> bytes \<Rightarrow> bytes" where
  "genesis_hash P file_id = sha256 P (GENESIS_DOMAIN @ file_id)"

definition push_detail :: "str \<times> str \<Rightarrow> bytes result" where
  "push_detail = (\<lambda>(key, val).
     and_then (push_len_prefixed (as_bytes key)) (\<lambda>k.
     and_then (push_len_prefixed (as_bytes val)) (\<lambda>v. Ok (k @ v))))"

definition take_detail :: "bytes \<Rightarrow> ((str \<times> str) \<times> bytes) result" where
  "take_detail data =
     and_then (take_str data) (\<lambda>(k, data).
     and_then (take_str data) (\<lambda>(v, data). Ok ((k, v), data)))"

definition event_body :: "history_event \<Rightarrow> bytes result" where
  "event_body e =
     and_then (push_str (e_occurred_at e)) (\<lambda>at.
     and_then (push_opt_str (e_actor_label e)) (\<lambda>label.
     if length (e_details e) < 2 ^ 16 then
       and_then (encode_all push_detail (e_details e)) (\<lambda>details.
       Ok (e_event_id e @ push_u64 (e_sequence e) @ e_file_id e @ push_opt_array (e_revision_id e)
           @ e_previous_event_hash e @ at @ push_opt_array (e_actor_identity e) @ label
           @ push_opt_u64 (e_topology_generation e)
           @ [event_type_code (e_event_type e), outcome_code (e_outcome e)]
           @ to_be 2 (length (e_details e)) @ details))
     else Err BundleFieldTooLarge))"

definition compute_hash :: "prims \<Rightarrow> history_event \<Rightarrow> bytes result" where
  "compute_hash P e = and_then (event_body e) (\<lambda>b. Ok (sha256 P (HISTORY_DOMAIN @ b)))"

definition seal_event :: "prims \<Rightarrow> bytes \<Rightarrow> u64 \<Rightarrow> bytes \<Rightarrow> bytes \<Rightarrow> new_event \<Rightarrow> history_event result" where
  "seal_event P event_id sequence file_id previous_event_hash new =
     (let event = \<lparr>e_event_id = event_id, e_sequence = sequence, e_file_id = file_id,
            e_revision_id = n_revision_id new, e_previous_event_hash = previous_event_hash,
            e_event_hash = replicate 32 0, e_occurred_at = n_occurred_at new,
            e_actor_identity = n_actor_identity new, e_actor_label = n_actor_label new,
            e_topology_generation = n_topology_generation new, e_event_type = n_event_type new,
            e_outcome = n_outcome new, e_details = n_details new\<rparr> in
      and_then (compute_hash P event) (\<lambda>h. Ok (event\<lparr>e_event_hash := h\<rparr>)))"

text \<open>The random event id of \<open>chained\<close> is an argument.\<close>

definition chained :: "prims \<Rightarrow> bytes \<Rightarrow> bytes \<Rightarrow> u64 \<Rightarrow> bytes \<Rightarrow> new_event \<Rightarrow> history_event result" where
  "chained P event_id history_id sequence previous_event_hash new =
     (if unsafe_key (n_details new) \<noteq> None \<or> n_revision_id new \<noteq> None then Err InvalidTrackedFile
      else seal_event P event_id sequence history_id previous_event_hash new)"

definition encode_event :: "history_event \<Rightarrow> bytes result" where
  "encode_event e = and_then (event_body e) (\<lambda>b. Ok (b @ e_event_hash e))"

definition decode_event :: "bytes \<Rightarrow> (history_event \<times> bytes) result" where
  "decode_event data =
     and_then (take_fixed 16 data) (\<lambda>(event_id, data).
     and_then (take_u64 data) (\<lambda>(sequence, data).
     and_then (take_fixed 16 data) (\<lambda>(file_id, data).
     and_then (take_opt_array 32 data) (\<lambda>(revision_id, data).
     and_then (take_fixed 32 data) (\<lambda>(previous_event_hash, data).
     and_then (take_str data) (\<lambda>(occurred_at, data).
     and_then (take_opt_array 16 data) (\<lambda>(actor_identity, data).
     and_then (take_opt_str data) (\<lambda>(actor_label, data).
     and_then (take_opt_u64 data) (\<lambda>(topology_generation, data).
     and_then (take_byte data) (\<lambda>(t, data).
     and_then (event_type_of_u8 t) (\<lambda>event_type.
     and_then (take_byte data) (\<lambda>(r, data).
     and_then (outcome_of_u8 r) (\<lambda>outcome.
     and_then (take_fixed 2 data) (\<lambda>(count, data).
     and_then (decode_many take_detail (from_be count) data) (\<lambda>(details, data).
     and_then (take_fixed 32 data) (\<lambda>(event_hash, data).
     Ok (\<lparr>e_event_id = event_id, e_sequence = sequence, e_file_id = file_id,
          e_revision_id = revision_id, e_previous_event_hash = previous_event_hash,
          e_event_hash = event_hash, e_occurred_at = occurred_at,
          e_actor_identity = actor_identity, e_actor_label = actor_label,
          e_topology_generation = topology_generation, e_event_type = event_type,
          e_outcome = outcome, e_details = details\<rparr>, data)))))))))))))))))"

definition event_to_bytes :: "history_event \<Rightarrow> bytes result" where
  "event_to_bytes e = encode_event e"

definition event_from_bytes :: "bytes \<Rightarrow> history_event result" where
  "event_from_bytes bs =
     and_then (decode_event bs) (\<lambda>(event, data). if data \<noteq> [] then Err InvalidTrackedFile else Ok event)"

text \<open>
  The loop of \<open>verify_chain\<close>: \<open>index\<close> counts from 0 and is cast to \<open>u64\<close>, \<open>previous\<close>
  is the hash the next event must link to.
\<close>

fun verify_chain_from :: "prims \<Rightarrow> bytes \<Rightarrow> nat \<Rightarrow> bytes \<Rightarrow> history_event list \<Rightarrow> bytes result" where
  "verify_chain_from P file_id index previous [] = Ok previous"
| "verify_chain_from P file_id index previous (event # events) =
     (if e_sequence event \<noteq> word_of_nat index \<or> e_file_id event \<noteq> file_id
         \<or> e_previous_event_hash event \<noteq> previous then Err InvalidTrackedFile
      else and_then (compute_hash P event) (\<lambda>h.
        if h \<noteq> e_event_hash event then Err InvalidTrackedFile
        else verify_chain_from P file_id (Suc index) (e_event_hash event) events))"

definition verify_chain :: "prims \<Rightarrow> bytes \<Rightarrow> history_event list \<Rightarrow> bytes result" where
  "verify_chain P file_id events = verify_chain_from P file_id 0 (genesis_hash P file_id) events"

section \<open>The event codec\<close>

interpretation detail_codec: canonical_codec push_detail take_detail "\<lambda>(k, v). str_ok k \<and> str_ok v"
proof unfold_locales
  fix x :: "str \<times> str" and e rest
  assume "case x of (k, v) \<Rightarrow> str_ok k \<and> str_ok v" and "push_detail x = Ok e"
  then show "take_detail (e @ rest) = Ok (x, rest)"
    by (cases x) (auto simp: push_detail_def take_detail_def codec_simps simp flip: push_str_def)
next
  fix data and x :: "str \<times> str" and rest
  assume "take_detail data = Ok (x, rest)"
  then show "\<exists>e. push_detail x = Ok e \<and> data = e @ rest \<and> (case x of (k, v) \<Rightarrow> str_ok k \<and> str_ok v)"
    by (auto simp: take_detail_def push_detail_def simp flip: push_str_def dest!: take_str_OkD)
qed

lemma decode_event_encode:
  assumes "event_ok e" and "encode_event e = Ok b"
  shows "decode_event (b @ rest) = Ok (e, rest)"
proof -
  from assms(2) obtain at label details where at: "push_str (e_occurred_at e) = Ok at"
    and label: "push_opt_str (e_actor_label e) = Ok label" and len: "length (e_details e) < 2 ^ 16"
    and details: "encode_all push_detail (e_details e) = Ok details"
    and b: "b = (e_event_id e @ push_u64 (e_sequence e) @ e_file_id e @ push_opt_array (e_revision_id e)
           @ e_previous_event_hash e @ at @ push_opt_array (e_actor_identity e) @ label
           @ push_opt_u64 (e_topology_generation e)
           @ [event_type_code (e_event_type e), outcome_code (e_outcome e)]
           @ to_be 2 (length (e_details e)) @ details) @ e_event_hash e"
    by (auto simp: encode_event_def event_body_def split: if_splits)
  have "decode_many take_detail (length (e_details e)) (details @ e_event_hash e @ rest)
      = Ok (e_details e, e_event_hash e @ rest)"
    using assms(1) details by (intro detail_codec.decode_all) (auto simp: event_ok_def list_all_iff)
  then show ?thesis
    using assms(1) len
    by (simp add: b decode_event_def event_ok_def codec_simps take_str_push [OF at] take_opt_str_push [OF label])
qed

lemma decode_event_OkD:
  assumes "decode_event data = Ok (e, rest)"
  shows "\<exists>b. encode_event e = Ok b \<and> data = b @ rest \<and> event_ok e"
proof -
  from assms obtain event_id d1 sequence d2 file_id d3 revision_id d4 prev d5 at d6 actor d7 label d8
      gen d9 t d10 ty r d11 oc count d12 details d13 h where
    1: "take_fixed 16 data = Ok (event_id, d1)" "take_u64 d1 = Ok (sequence, d2)"
      "take_fixed 16 d2 = Ok (file_id, d3)" "take_opt_array 32 d3 = Ok (revision_id, d4)"
      "take_fixed 32 d4 = Ok (prev, d5)" "take_str d5 = Ok (at, d6)" "take_opt_array 16 d6 = Ok (actor, d7)"
      "take_opt_str d7 = Ok (label, d8)" "take_opt_u64 d8 = Ok (gen, d9)" "take_byte d9 = Ok (t, d10)"
      "take_byte d10 = Ok (r, d11)" "take_fixed 2 d11 = Ok (count, d12)" "take_fixed 32 d13 = Ok (h, rest)"
    and ty: "event_type_of_u8 t = Ok ty" and oc: "outcome_of_u8 r = Ok oc"
    and det: "decode_many take_detail (from_be count) d12 = Ok (details, d13)"
    and e: "e = \<lparr>e_event_id = event_id, e_sequence = sequence, e_file_id = file_id,
          e_revision_id = revision_id, e_previous_event_hash = prev,
          e_event_hash = h, e_occurred_at = at, e_actor_identity = actor, e_actor_label = label,
          e_topology_generation = gen, e_event_type = ty, e_outcome = oc, e_details = details\<rparr>"
    by (auto simp: decode_event_def)
  from detail_codec.decode_many_canonical [OF det] obtain db where n: "length details = from_be count"
    and ok: "\<forall>x \<in> set details. case x of (k, v) \<Rightarrow> str_ok k \<and> str_ok v"
    and db: "encode_all push_detail details = Ok db" "d12 = db @ d13" by blast
  from 1 have count: "length count = 2" by (auto dest: take_fixed_OkD)
  have "length details < 65536" using from_be_bound [of count] count n by simp
  moreover have "to_be 2 (length details) = count" using to_be_from_be [of count] count n by simp
  ultimately show ?thesis
    using 1 ok db ty oc
    by (auto simp: e encode_event_def event_body_def event_ok_def list_all_iff
        dest!: field_decoded event_type_of_u8_OkD outcome_of_u8_OkD)
qed

interpretation event_codec: canonical_codec encode_event decode_event event_ok
  by unfold_locales (auto intro: decode_event_encode decode_event_OkD)

text \<open>
  C23. The encoding of a history event is canonical. Every event that can be encoded reads
  back exactly, and every byte string that \<open>from_bytes\<close> accepts is the encoding of the
  event it returns, so an event has one encoding and no other bytes pass for it.
\<close>

theorem event_bytes_canonical:
  assumes "event_ok e"
  shows "event_to_bytes e = Ok bs \<longleftrightarrow> event_from_bytes bs = Ok e"
proof
  assume "event_to_bytes e = Ok bs"
  then show "event_from_bytes bs = Ok e"
    using event_codec.dec_enc [OF assms, of bs "[]"] by (simp add: event_to_bytes_def event_from_bytes_def)
next
  assume "event_from_bytes bs = Ok e"
  then show "event_to_bytes e = Ok bs"
    by (auto simp: event_from_bytes_def event_to_bytes_def dest!: event_codec.enc_dec split: if_splits)
qed

section \<open>The hash chain\<close>

lemma body_inject:
  assumes "event_ok e" "event_ok f" "event_body e = Ok b" "event_body f = Ok b" "e_event_hash e = e_event_hash f"
  shows "e = f"
  by (rule event_codec.inject [OF assms(1,2)]) (simp_all add: encode_event_def assms)

lemma seal_event_facts:
  assumes "seal_event P i s f p n = Ok e"
  shows "e_event_id e = i" "e_sequence e = s" "e_file_id e = f" "e_previous_event_hash e = p"
    "e_revision_id e = n_revision_id n" "e_event_type e = n_event_type n" "e_details e = n_details n"
    "e_outcome e = n_outcome n" "e_actor_identity e = n_actor_identity n"
    "compute_hash P e = Ok (e_event_hash e)"
  using assms by (auto simp: seal_event_def Let_def compute_hash_def event_body_def split: if_splits)

lemma seal_event_ok:
  assumes "seal_event P i s f p n = Ok e" "new_event_ok n" "sized_prims P"
    "length i = 16" "length f = 16" "length p = 32"
  shows "event_ok e"
  using assms by (auto simp: seal_event_def Let_def compute_hash_def event_ok_def new_event_ok_def)

lemma verify_chain_from_append:
  "verify_chain_from P f i p (es @ fs)
     = and_then (verify_chain_from P f i p es) (\<lambda>q. verify_chain_from P f (i + length es) q fs)"
proof (induction es arbitrary: i p)
  case Nil
  then show ?case by simp
next
  case (Cons e es)
  then show ?case by (cases "compute_hash P e") auto
qed

lemma verify_chain_snoc:
  "verify_chain P f (es @ [e]) = Ok r \<longleftrightarrow>
     (\<exists>q. verify_chain P f es = Ok q \<and> e_sequence e = word_of_nat (length es) \<and> e_file_id e = f
        \<and> e_previous_event_hash e = q \<and> compute_hash P e = Ok (e_event_hash e) \<and> r = e_event_hash e)"
  by (cases "verify_chain_from P f 0 (genesis_hash P f) es"; cases "compute_hash P e")
     (auto simp: verify_chain_def verify_chain_from_append)

lemma verify_chain_Nil [simp]: "verify_chain P f [] = Ok (genesis_hash P f)"
  by (simp add: verify_chain_def)

lemma verify_chain_prefix: "verify_chain P f (es @ fs) = Ok r \<Longrightarrow> \<exists>q. verify_chain P f es = Ok q"
  by (auto simp: verify_chain_def verify_chain_from_append)

lemma verify_chain_root:
  "verify_chain P f es = Ok r \<Longrightarrow> r = (if es = [] then genesis_hash P f else e_event_hash (last es))"
  by (cases es rule: rev_cases) (auto simp: verify_chain_snoc)

text \<open>The byte strings whose digests make up a chain.\<close>

definition chain_preimages :: "bytes \<Rightarrow> history_event list \<Rightarrow> bytes set" where
  "chain_preimages f es =
     insert (GENESIS_DOMAIN @ f) {HISTORY_DOMAIN @ b | b e. e \<in> set es \<and> event_body e = Ok b}"

lemma chain_domains_apart: "GENESIS_DOMAIN @ x \<noteq> HISTORY_DOMAIN @ y"
  by (simp add: GENESIS_DOMAIN_def HISTORY_DOMAIN_def as_bytes_def)

text \<open>The byte string whose digest is the root.\<close>

definition chain_top :: "bytes \<Rightarrow> history_event list \<Rightarrow> bytes" where
  "chain_top f es =
     (if es = [] then GENESIS_DOMAIN @ f else HISTORY_DOMAIN @ projr (event_body (last es)))"

lemma root_is_digest:
  assumes "verify_chain P f es = Ok r"
  shows "r = sha256 P (chain_top f es)" and "chain_top f es \<in> chain_preimages f es"
  using assms
  by (cases es rule: rev_cases;
      auto simp: chain_top_def chain_preimages_def verify_chain_snoc genesis_hash_def compute_hash_def)+

lemma same_root_same_top:
  assumes "verify_chain P f es = Ok r" "verify_chain P g fs = Ok r"
    and "no_collision P (chain_preimages f es \<union> chain_preimages g fs)"
  shows "chain_top f es = chain_top g fs"
proof (rule no_collisionD [OF assms(3)])
  show "sha256 P (chain_top f es) = sha256 P (chain_top g fs)"
    using root_is_digest(1) [OF assms(1)] root_is_digest(1) [OF assms(2)] by simp
qed (simp_all add: root_is_digest(2) [OF assms(1)] root_is_digest(2) [OF assms(2)])

lemma chain_preimages_prefix: "chain_preimages f es \<subseteq> chain_preimages f (es @ fs)"
  by (auto simp: chain_preimages_def)

lemma same_root_same_history:
  assumes "verify_chain P f es = Ok r" and "verify_chain P g fs = Ok r"
    and "\<forall>e \<in> set es \<union> set fs. event_ok e"
    and "no_collision P (chain_preimages f es \<union> chain_preimages g fs)"
  shows "f = g \<and> es = fs"
  using assms
proof (induction es arbitrary: fs r rule: rev_induct)
  case Nil
  from same_root_same_top [OF Nil.prems(1,2,4)] show ?case
    by (cases "fs = []") (simp_all add: chain_top_def chain_domains_apart)
next
  case (snoc x xs)
  note top = same_root_same_top [OF snoc.prems(1,2,4)]
  then have "fs \<noteq> []" by (auto simp: chain_top_def chain_domains_apart [symmetric])
  then obtain ys y where fs: "fs = ys @ [y]" by (cases fs rule: rev_cases) auto
  from snoc.prems(1,2) have h: "e_event_hash x = e_event_hash y"
    and q: "verify_chain P f xs = Ok (e_previous_event_hash x)"
      "verify_chain P g ys = Ok (e_previous_event_hash y)"
    and body: "\<exists>b c. event_body x = Ok b \<and> event_body y = Ok c"
    by (auto simp: fs verify_chain_snoc compute_hash_def)
  from body top obtain b where b: "event_body x = Ok b" "event_body y = Ok b"
    by (auto simp: chain_top_def fs)
  from body_inject [OF _ _ b h] snoc.prems(3) have xy: "x = y" by (simp add: fs)
  have "no_collision P (chain_preimages f xs \<union> chain_preimages g ys)"
    unfolding fs by (rule no_collision_mono [OF snoc.prems(4) [unfolded fs]])
      (intro Un_mono chain_preimages_prefix)
  with q xy snoc.prems(3) have "f = g \<and> xs = ys" by (intro snoc.IH) (simp_all add: fs)
  with xy show ?case by (simp add: fs)
qed

text \<open>
  C1. A history root commits to the whole history: verified chains that differ in the file
  or in any event (one changed, dropped, inserted or moved) have different roots, unless
  the bytes that were hashed contain a collision.
\<close>

theorem root_commits_to_history:
  assumes "verify_chain P f es = Ok r" and "verify_chain P g fs = Ok s"
    and "\<forall>e \<in> set es \<union> set fs. event_ok e"
    and "no_collision P (chain_preimages f es \<union> chain_preimages g fs)"
    and "(f, es) \<noteq> (g, fs)"
  shows "r \<noteq> s"
  using same_root_same_history [OF assms(1) _ assms(3,4)] assms(2,5) by auto

lemmas [eval_simps] =
  genesis_hash_def GENESIS_DOMAIN_def HISTORY_DOMAIN_def seal_event_def compute_hash_def Let_def
  event_body_def push_detail_def

definition sample_new_event :: new_event where
  "sample_new_event =
     \<lparr>n_revision_id = None, n_occurred_at = ''2026-01-01T00:00:00Z'',
      n_actor_identity = Some (replicate 16 2), n_actor_label = Some ''A.1'',
      n_topology_generation = Some 3, n_event_type = TrackingStarted, n_outcome = Success,
      n_details = [(''kind'', ''text'')]\<rparr>"

definition sample_event :: history_event where
  "sample_event =
     projr (seal_event toy_prims (replicate 16 4) 0 (replicate 16 1)
              (genesis_hash toy_prims (replicate 16 1)) sample_new_event)"

lemma sample_event_sealed:
  "seal_event toy_prims (replicate 16 4) 0 (replicate 16 1)
     (genesis_hash toy_prims (replicate 16 1)) sample_new_event = Ok sample_event"
  by (simp add: sample_event_def sample_new_event_def eval_simps)

lemma sample_event_ok: "event_ok sample_event"
  by (rule seal_event_ok [OF sample_event_sealed])
     (simp_all add: new_event_ok_def sample_new_event_def genesis_hash_def str_ok_def eval_simps)

lemma sample_chain: "verify_chain toy_prims (replicate 16 1) [sample_event] = Ok (e_event_hash sample_event)"
  using seal_event_facts [OF sample_event_sealed] by (simp add: verify_chain_def)

theorem root_commits_to_history_witness:
  "e_event_hash sample_event \<noteq> genesis_hash toy_prims (replicate 16 1)"
proof (rule root_commits_to_history [of toy_prims "replicate 16 1" "[sample_event]" _ "replicate 16 1" "[]"])
  show "no_collision toy_prims
          (chain_preimages (replicate 16 1) [sample_event] \<union> chain_preimages (replicate 16 1) [])"
    by (simp add: chain_preimages_def no_collision_def sample_event_def sample_new_event_def eval_simps)
qed (simp_all add: sample_chain sample_event_ok)

theorem event_bytes_canonical_witness:
  "\<exists>bs. event_to_bytes sample_event = Ok bs \<and> event_from_bytes bs = Ok sample_event"
proof -
  obtain b where "event_body sample_event = Ok b"
    using seal_event_facts(10) [OF sample_event_sealed] by (auto simp: compute_hash_def)
  then show ?thesis
    using event_bytes_canonical [OF sample_event_ok]
    by (auto simp: event_to_bytes_def encode_event_def)
qed

end
