(* ===== verification/Revision.thy ===== *)
theory Revision
  imports Event
begin

text \<open>
  Immutable revisions, \<open>src/file_history/revision.rs\<close>: content commitments, generated
  labels and their timestamps, the canonical encoding and the identity of a revision. The
  graph the revisions form is in \<open>RevGraph\<close>.
\<close>

section \<open>Generated labels\<close>

definition CONTENT_DOMAIN :: bytes where "CONTENT_DOMAIN = as_bytes ''KQ-FILE-CONTENT-v1''"
definition REVISION_ID_DOMAIN :: bytes where "REVISION_ID_DOMAIN = as_bytes ''KQ-FILE-REVISION-ID-v1''"

definition content_commitment :: "prims \<Rightarrow> bytes \<Rightarrow> bytes \<Rightarrow> bytes" where
  "content_commitment P file_id payload = sha256 P (CONTENT_DOMAIN @ file_id @ payload)"

definition ends_with :: "char \<Rightarrow> str \<Rightarrow> bool" where
  "ends_with c s \<longleftrightarrow> s \<noteq> [] \<and> last s = c"

text \<open>\<open>name.rfind('.')\<close> with a positive index: the text before the last full stop.\<close>

definition stem :: "str \<Rightarrow> str" where
  "stem name =
     (case rsplit_once CHR ''.'' name of
        Some (before, _) \<Rightarrow> if before \<noteq> [] then before else name
      | None \<Rightarrow> name)"

text \<open>The loop over the characters of the stem; \<open>out\<close> is the string built so far.\<close>

fun normalize_chars :: "prims \<Rightarrow> str \<Rightarrow> str list \<Rightarrow> str" where
  "normalize_chars P out [] = out"
| "normalize_chars P out (c # cs) =
     (if is_alphanumeric P c then normalize_chars P (out @ c) cs
      else if (is_whitespace P c \<or> c = ''-'' \<or> c = ''_'') \<and> \<not> ends_with CHR ''-'' out
        then normalize_chars P (out @ ''-'') cs
      else normalize_chars P out cs)"

definition normalize_name :: "prims \<Rightarrow> str \<Rightarrow> str" where
  "normalize_name P name =
     (let trimmed = trim_matches CHR ''-'' (normalize_chars P [] (chars (stem name))) in
      if trimmed = [] then ''file'' else trimmed)"

definition whole_seconds :: "str \<Rightarrow> str" where
  "whole_seconds instant =
     (case (split_once CHR ''.'' instant, strip_suffix ''Z'' instant) of
        (Some (before, _), Some _) \<Rightarrow> before @ ''Z''
      | _ \<Rightarrow> instant)"

definition digits :: "str \<Rightarrow> nat \<Rightarrow> bool" where
  "digits s n \<longleftrightarrow> length s = n \<and> list_all is_ascii_digit s"

definition number :: "str \<Rightarrow> nat" where
  "number s = (case parse_u32 s of Some n \<Rightarrow> n | None \<Rightarrow> 2 ^ 32 - 1)"

definition month_days :: "nat \<Rightarrow> nat \<Rightarrow> nat" where
  "month_days year month =
     (let leap = year mod 4 = 0 \<and> (year mod 100 \<noteq> 0 \<or> year mod 400 = 0) in
      if month \<in> {1, 3, 5, 7, 8, 10, 12} then 31
      else if month \<in> {4, 6, 9, 11} then 30
      else if month = 2 then (if leap then 29 else 28)
      else 0)"

definition compact_utc :: "str \<Rightarrow> str result" where
  "compact_utc val =
     and_then (ok_or InvalidTrackedFile (split_once CHR ''T'' val)) (\<lambda>(date, time).
     and_then (ok_or InvalidTrackedFile (strip_suffix ''Z'' time)) (\<lambda>time.
     let (clock, fraction) = (case split_once CHR ''.'' time of
           Some (clock, fraction) \<Rightarrow> (clock, Some fraction) | None \<Rightarrow> (time, None)) in
     case (split CHR ''-'' date, split CHR '':'' clock) of
       ([y, m, d], [h, mi, s]) \<Rightarrow>
         if \<not> (digits y 4 \<and> digits m 2 \<and> digits d 2 \<and> digits h 2 \<and> digits mi 2 \<and> digits s 2
              \<and> (case fraction of None \<Rightarrow> True
                 | Some f \<Rightarrow> f \<noteq> [] \<and> length f \<le> 9 \<and> list_all is_ascii_digit f))
         then Err InvalidTrackedFile
         else if number y = 0 \<or> number d = 0 \<or> number d > month_days (number y) (number m)
              \<or> number h > 23 \<or> number mi > 59 \<or> number s > 59
         then Err InvalidTrackedFile
         else Ok (y @ m @ d @ ''T'' @ h @ mi @ s
                  @ (case fraction of Some f \<Rightarrow> ''.'' @ f | None \<Rightarrow> []) @ ''Z'')
     | _ \<Rightarrow> Err InvalidTrackedFile))"

definition generated_label :: "prims \<Rightarrow> str \<Rightarrow> str \<Rightarrow> str \<Rightarrow> str result" where
  "generated_label P logical_name created_at_utc hcp_label =
     (if hcp_label = [] then Err InvalidTrackedFile
      else and_then (compact_utc created_at_utc) (\<lambda>stamp.
        Ok (''R'' @ normalize_name P logical_name @ ''-'' @ stamp @ ''-'' @ hcp_label)))"

section \<open>Revisions\<close>

record new_revision =
  nr_parent_revision_ids :: "bytes list"
  nr_user_label :: "str option"
  nr_author_identity :: "bytes option"
  nr_author_hcp_label :: str
  nr_created_at_utc :: str
  nr_topology_generation :: u64
  nr_policy_hash :: bytes

record file_revision =
  r_revision_id :: bytes
  r_file_id :: bytes
  r_parent_revision_ids :: "bytes list"
  r_content_commitment :: bytes
  r_generated_label :: str
  r_user_label :: "str option"
  r_author_identity :: "bytes option"
  r_author_hcp_label :: str
  r_created_at_utc :: str
  r_topology_generation :: u64
  r_policy_hash :: bytes

record stored_revision =
  s_revision :: file_revision
  s_payload :: "bytes option"

definition new_revision_ok :: "new_revision \<Rightarrow> bool" where
  "new_revision_ok n \<longleftrightarrow>
     list_all (\<lambda>p. length p = 32) (nr_parent_revision_ids n) \<and> opt_str_ok (nr_user_label n)
     \<and> opt_sized 16 (nr_author_identity n) \<and> str_ok (nr_author_hcp_label n)
     \<and> str_ok (nr_created_at_utc n) \<and> length (nr_policy_hash n) = 32"

definition revision_ok :: "file_revision \<Rightarrow> bool" where
  "revision_ok r \<longleftrightarrow>
     length (r_revision_id r) = 32 \<and> length (r_file_id r) = 16
     \<and> list_all (\<lambda>p. length p = 32) (r_parent_revision_ids r) \<and> length (r_content_commitment r) = 32
     \<and> str_ok (r_generated_label r) \<and> opt_str_ok (r_user_label r) \<and> opt_sized 16 (r_author_identity r)
     \<and> str_ok (r_author_hcp_label r) \<and> str_ok (r_created_at_utc r) \<and> length (r_policy_hash r) = 32"

abbreviation rev_id :: "stored_revision \<Rightarrow> bytes" where
  "rev_id s \<equiv> r_revision_id (s_revision s)"

abbreviation rev_parents :: "stored_revision \<Rightarrow> bytes list" where
  "rev_parents s \<equiv> r_parent_revision_ids (s_revision s)"

definition generated_label_is_consistent :: "prims \<Rightarrow> file_revision \<Rightarrow> bool" where
  "generated_label_is_consistent P r =
     (case compact_utc (r_created_at_utc r) of
        Inl _ \<Rightarrow> False
      | Inr stamp \<Rightarrow>
          r_author_hcp_label r \<noteq> []
          \<and> (case strip_prefix ''R'' (r_generated_label r) of
               None \<Rightarrow> False
             | Some rest \<Rightarrow>
                 (case strip_suffix (''-'' @ stamp @ ''-'' @ r_author_hcp_label r) rest of
                    None \<Rightarrow> False
                  | Some name \<Rightarrow> name \<noteq> [] \<and> normalize_name P name = name)))"

definition revision_body :: "file_revision \<Rightarrow> bytes result" where
  "revision_body r =
     (if length (r_parent_revision_ids r) < 2 ^ 16 then
        and_then (push_str (r_generated_label r)) (\<lambda>label.
        and_then (push_opt_str (r_user_label r)) (\<lambda>user.
        and_then (push_str (r_author_hcp_label r)) (\<lambda>author.
        and_then (push_str (r_created_at_utc r)) (\<lambda>at.
        Ok (r_file_id r @ to_be 2 (length (r_parent_revision_ids r)) @ concat (r_parent_revision_ids r)
            @ r_content_commitment r @ label @ user @ push_opt_array (r_author_identity r) @ author @ at
            @ push_u64 (r_topology_generation r) @ r_policy_hash r)))))
      else Err BundleFieldTooLarge)"

definition compute_id :: "prims \<Rightarrow> file_revision \<Rightarrow> bytes result" where
  "compute_id P r = and_then (revision_body r) (\<lambda>b. Ok (sha256 P (REVISION_ID_DOMAIN @ b)))"

definition create_revision ::
    "prims \<Rightarrow> bytes \<Rightarrow> str \<Rightarrow> bytes \<Rightarrow> new_revision \<Rightarrow> file_revision result" where
  "create_revision P file_id logical_name payload new =
     and_then (generated_label P logical_name (nr_created_at_utc new) (nr_author_hcp_label new)) (\<lambda>generated.
     let revision = \<lparr>r_revision_id = replicate 32 0, r_file_id = file_id,
           r_parent_revision_ids = nr_parent_revision_ids new,
           r_content_commitment = content_commitment P file_id payload,
           r_generated_label = generated, r_user_label = nr_user_label new,
           r_author_identity = nr_author_identity new, r_author_hcp_label = nr_author_hcp_label new,
           r_created_at_utc = nr_created_at_utc new, r_topology_generation = nr_topology_generation new,
           r_policy_hash = nr_policy_hash new\<rparr> in
     and_then (compute_id P revision) (\<lambda>i. Ok (revision\<lparr>r_revision_id := i\<rparr>)))"

definition decode_revision :: "bytes \<Rightarrow> (file_revision \<times> bytes) result" where
  "decode_revision data =
     and_then (take_fixed 16 data) (\<lambda>(file_id, data).
     and_then (take_fixed 2 data) (\<lambda>(parents, data).
     and_then (decode_many (take_fixed 32) (from_be parents) data) (\<lambda>(parent_revision_ids, data).
     and_then (take_fixed 32 data) (\<lambda>(commitment, data).
     and_then (take_str data) (\<lambda>(label, data).
     and_then (take_opt_str data) (\<lambda>(user_label, data).
     and_then (take_opt_array 16 data) (\<lambda>(author_identity, data).
     and_then (take_str data) (\<lambda>(author_hcp_label, data).
     and_then (take_str data) (\<lambda>(created_at_utc, data).
     and_then (take_u64 data) (\<lambda>(topology_generation, data).
     and_then (take_fixed 32 data) (\<lambda>(policy_hash, data).
     and_then (take_fixed 32 data) (\<lambda>(revision_id, data).
     Ok (\<lparr>r_revision_id = revision_id, r_file_id = file_id,
          r_parent_revision_ids = parent_revision_ids, r_content_commitment = commitment,
          r_generated_label = label, r_user_label = user_label, r_author_identity = author_identity,
          r_author_hcp_label = author_hcp_label, r_created_at_utc = created_at_utc,
          r_topology_generation = topology_generation, r_policy_hash = policy_hash\<rparr>, data)))))))))))))"

definition encode_stored :: "stored_revision \<Rightarrow> bytes result" where
  "encode_stored s =
     and_then (revision_body (s_revision s)) (\<lambda>b.
     and_then (case s_payload s of
         Some payload \<Rightarrow> and_then (push_len_prefixed_u32 payload) (\<lambda>p. Ok (1 # p))
       | None \<Rightarrow> Ok [0]) (\<lambda>p.
     Ok (b @ r_revision_id (s_revision s) @ p)))"

definition decode_stored :: "u8 \<Rightarrow> bytes \<Rightarrow> (stored_revision \<times> bytes) result" where
  "decode_stored version data =
     and_then (decode_revision data) (\<lambda>(revision, data).
     and_then
       (if version < 5 then Ok (True, data)
        else and_then (take_fixed 1 data) (\<lambda>(flag, data).
          if hd flag = 0 then Ok (False, data)
          else if hd flag = 1 then Ok (True, data)
          else Err InvalidTrackedFile)) (\<lambda>(present, data).
     if present then
       and_then (bad (take_len_prefixed_u32 data)) (\<lambda>(payload, data).
         Ok (\<lparr>s_revision = revision, s_payload = Some payload\<rparr>, data))
     else Ok (\<lparr>s_revision = revision, s_payload = None\<rparr>, data)))"

definition content :: "stored_revision \<Rightarrow> bytes option" where
  "content s = s_payload s"

section \<open>The revision codec\<close>

definition encode_revision :: "file_revision \<Rightarrow> bytes result" where
  "encode_revision r = and_then (revision_body r) (\<lambda>b. Ok (b @ r_revision_id r))"

lemma decode_revision_encode:
  assumes "revision_ok r" and "encode_revision r = Ok b"
  shows "decode_revision (b @ rest) = Ok (r, rest)"
proof -
  from assms(2) obtain label user author at where
    p: "push_str (r_generated_label r) = Ok label" "push_opt_str (r_user_label r) = Ok user"
      "push_str (r_author_hcp_label r) = Ok author" "push_str (r_created_at_utc r) = Ok at"
    and len: "length (r_parent_revision_ids r) < 2 ^ 16"
    and b: "b = (r_file_id r @ to_be 2 (length (r_parent_revision_ids r)) @ concat (r_parent_revision_ids r)
            @ r_content_commitment r @ label @ user @ push_opt_array (r_author_identity r) @ author @ at
            @ push_u64 (r_topology_generation r) @ r_policy_hash r) @ r_revision_id r"
    by (auto simp: encode_revision_def revision_body_def split: if_splits)
  have ps: "decode_many (take_fixed 32) (length (r_parent_revision_ids r)) (concat (r_parent_revision_ids r) @ d)
      = Ok (r_parent_revision_ids r, d)" for d
    using assms(1) by (intro array_codec.decode_all) (auto simp: revision_ok_def list_all_iff)
  show ?thesis
    using assms(1) len
    by (simp add: b decode_revision_def revision_ok_def codec_simps ps
        take_str_push [OF p(1)] take_opt_str_push [OF p(2)] take_str_push [OF p(3)] take_str_push [OF p(4)])
qed

lemma decode_revision_OkD:
  assumes "decode_revision data = Ok (r, rest)"
  shows "\<exists>b. encode_revision r = Ok b \<and> data = b @ rest \<and> revision_ok r"
proof -
  from assms obtain f d1 n d2 ps d3 c d4 l d5 u d6 a d7 h d8 at d9 g d10 p d11 i where
    1: "take_fixed 16 data = Ok (f, d1)" "take_fixed 2 d1 = Ok (n, d2)"
      "take_fixed 32 d3 = Ok (c, d4)" "take_str d4 = Ok (l, d5)" "take_opt_str d5 = Ok (u, d6)"
      "take_opt_array 16 d6 = Ok (a, d7)" "take_str d7 = Ok (h, d8)" "take_str d8 = Ok (at, d9)"
      "take_u64 d9 = Ok (g, d10)" "take_fixed 32 d10 = Ok (p, d11)" "take_fixed 32 d11 = Ok (i, rest)"
    and ps: "decode_many (take_fixed 32) (from_be n) d2 = Ok (ps, d3)"
    and r: "r = \<lparr>r_revision_id = i, r_file_id = f, r_parent_revision_ids = ps, r_content_commitment = c,
          r_generated_label = l, r_user_label = u, r_author_identity = a, r_author_hcp_label = h,
          r_created_at_utc = at, r_topology_generation = g, r_policy_hash = p\<rparr>"
    by (auto simp: decode_revision_def)
  from array_codec.decode_many_canonical [OF ps] have len: "length ps = from_be n"
    and ok: "\<forall>x \<in> set ps. length x = 32" and d2: "d2 = concat ps @ d3" by auto
  from 1 have n: "length n = 2" by (auto dest: take_fixed_OkD)
  have "length ps < 65536" using from_be_bound [of n] n len by simp
  moreover have "to_be 2 (length ps) = n" using to_be_from_be [of n] n len by simp
  ultimately show ?thesis
    using 1 ok d2
    by (auto simp: r encode_revision_def revision_body_def revision_ok_def list_all_iff
        dest!: field_decoded)
qed

interpretation revision_codec: canonical_codec encode_revision decode_revision revision_ok
  by unfold_locales (auto intro: decode_revision_encode decode_revision_OkD)

definition stored_ok :: "stored_revision \<Rightarrow> bool" where
  "stored_ok s \<longleftrightarrow> revision_ok (s_revision s)"

lemma encode_stored_revision:
  "encode_stored s =
     and_then (encode_revision (s_revision s)) (\<lambda>b.
     and_then (case s_payload s of
         Some payload \<Rightarrow> and_then (push_len_prefixed_u32 payload) (\<lambda>p. Ok (1 # p))
       | None \<Rightarrow> Ok [0]) (\<lambda>p. Ok (b @ p)))"
  by (cases "revision_body (s_revision s)"; cases "s_payload s";
      cases "push_len_prefixed_u32 (the (s_payload s))")
     (auto simp: encode_stored_def encode_revision_def)

text \<open>From version 5 on, the stored revision carries a flag for its payload.\<close>

interpretation stored_codec: canonical_codec encode_stored "decode_stored 5" stored_ok
proof unfold_locales
  fix s e rest
  assume "stored_ok s" and "encode_stored s = Ok e"
  then show "decode_stored 5 (e @ rest) = Ok (s, rest)"
    by (cases s; cases "s_payload s")
       (auto simp: encode_stored_revision decode_stored_def stored_ok_def revision_codec.dec_enc
          take_fixed_1 take_push_len_prefixed_u32)
next
  fix data s rest
  assume "decode_stored 5 data = Ok (s, rest)"
  then show "\<exists>e. encode_stored s = Ok e \<and> data = e @ rest \<and> stored_ok s"
    by (auto simp: decode_stored_def encode_stored_revision stored_ok_def length_Suc_conv
        dest!: revision_codec.enc_dec take_fixed_OkD take_len_prefixed_u32_OkD split: if_splits)
qed

lemma decode_stored_version: "\<not> v < 5 \<Longrightarrow> decode_stored v = decode_stored 5"
  by (rule ext) (simp add: decode_stored_def)

lemma revision_body_id [simp]: "revision_body (r\<lparr>r_revision_id := i\<rparr>) = revision_body r"
  by (simp add: revision_body_def)

lemma revision_ok_id: "revision_ok r \<Longrightarrow> length i = 32 \<Longrightarrow> revision_ok (r\<lparr>r_revision_id := i\<rparr>)"
  by (simp add: revision_ok_def)

lemma revision_body_inject:
  assumes "revision_ok r" "revision_ok s" "revision_body r = Ok b" "revision_body s = Ok b"
    "r_revision_id r = r_revision_id s"
  shows "r = s"
  by (rule revision_codec.inject [OF assms(1,2)]) (simp_all add: encode_revision_def assms)

section \<open>Normalized names\<close>

text \<open>
  A run of \<open>normalize_chars\<close> produces alphanumeric characters separated by single hyphens;
  on such a sequence it changes nothing.
\<close>

fun hyphenated :: "prims \<Rightarrow> bool \<Rightarrow> str list \<Rightarrow> bool" where
  "hyphenated P h [] = True"
| "hyphenated P h (k # ks) =
     (if is_alphanumeric P k then char_seq k \<and> str_ok k \<and> hyphenated P False ks
      else k = ''-'' \<and> \<not> h \<and> hyphenated P True ks)"

lemma alphanumericD:
  assumes "unicode_law P" "is_alphanumeric P k"
  shows "k \<noteq> []" "CHR ''-'' \<notin> set k" "CHR ''.'' \<notin> set k" "hd k \<noteq> CHR ''-''" "last k \<noteq> CHR ''-''"
proof -
  show *: "k \<noteq> []" "CHR ''-'' \<notin> set k" "CHR ''.'' \<notin> set k"
    using assms by (auto simp: unicode_law_def)
  from * show "hd k \<noteq> CHR ''-''" "last k \<noteq> CHR ''-''"
    using hd_in_set [of k] last_in_set [of k] by metis+
qed

lemma not_alphanumeric_hyphen: "unicode_law P \<Longrightarrow> \<not> is_alphanumeric P ''-''"
  by (auto dest: alphanumericD)

lemma ends_with_append [simp]: "ends_with c (s @ t) = (if t = [] then ends_with c s else last t = c)"
  by (simp add: ends_with_def)

lemma normalize_chars_hyphenated:
  assumes "unicode_law P" "\<forall>k \<in> set cs. char_seq k \<and> str_ok k"
  shows "\<exists>ks. normalize_chars P out cs = out @ concat ks \<and> hyphenated P (ends_with CHR ''-'' out) ks"
  using assms(2)
proof (induction cs arbitrary: out)
  case Nil
  show ?case by (intro exI [of _ "[]"]) simp
next
  case (Cons c cs)
  then have IH: "\<exists>ks. normalize_chars P o' cs = o' @ concat ks \<and> hyphenated P (ends_with CHR ''-'' o') ks" for o'
    by simp
  consider "is_alphanumeric P c"
    | "\<not> is_alphanumeric P c" "(is_whitespace P c \<or> c = ''-'' \<or> c = ''_'') \<and> \<not> ends_with CHR ''-'' out"
    | "\<not> is_alphanumeric P c" "\<not> ((is_whitespace P c \<or> c = ''-'' \<or> c = ''_'') \<and> \<not> ends_with CHR ''-'' out)"
    by blast
  then show ?case
  proof cases
    case 1
    note c = alphanumericD [OF assms(1) 1]
    with 1 IH [of "out @ c"] Cons.prems obtain ks where "normalize_chars P out (c # cs) = out @ concat (c # ks)"
      "hyphenated P (ends_with CHR ''-'' out) (c # ks)" by auto
    then show ?thesis by blast
  next
    case 2
    with IH [of "out @ ''-''"] obtain ks where "normalize_chars P out (c # cs) = out @ concat (''-'' # ks)"
      "hyphenated P (ends_with CHR ''-'' out) (''-'' # ks)"
      by (auto simp: not_alphanumeric_hyphen [OF assms(1)])
    then show ?thesis by blast
  next
    case 3
    with IH [of out] show ?thesis by auto
  qed
qed

lemma normalize_chars_fixed:
  assumes "unicode_law P"
  shows "hyphenated P (ends_with CHR ''-'' out) ks \<Longrightarrow> normalize_chars P out ks = out @ concat ks"
proof (induction ks arbitrary: out)
  case (Cons k ks)
  show ?case
  proof (cases "is_alphanumeric P k")
    case True
    from alphanumericD [OF assms True] True Cons show ?thesis by simp
  next
    case False
    with Cons show ?thesis by simp
  qed
qed simp

lemma hyphenated_append: "hyphenated P h (ks @ ls) \<Longrightarrow> hyphenated P h ks"
  by (induction ks arbitrary: h) auto

lemma hyphenated_mem:
  "hyphenated P h ks \<Longrightarrow> k \<in> set ks \<Longrightarrow> is_alphanumeric P k \<and> char_seq k \<and> str_ok k \<or> k = ''-''"
  by (induction ks arbitrary: h) (auto split: if_splits)

lemma hyphen_ok [simp]: "char_seq ''-''" "str_ok ''-''"
  by (simp_all add: char_seq_def cont_char_def eval_simps)

lemma dropWhile_hyphens:
  assumes "unicode_law P"
  shows "hyphenated P h ks \<Longrightarrow>
    \<exists>ls. dropWhile (\<lambda>x. x = CHR ''-'') (concat ks) = concat ls \<and> hyphenated P False ls
      \<and> (ls = [] \<or> is_alphanumeric P (hd ls))"
proof (induction ks arbitrary: h)
  case (Cons k ks)
  show ?case
  proof (cases "is_alphanumeric P k")
    case True
    then obtain c cs where k: "k = c # cs" "c \<noteq> CHR ''-''"
      using alphanumericD [OF assms True] by (cases k) auto
    with True Cons.prems show ?thesis by (intro exI [of _ "k # ks"]) auto
  next
    case False
    with Cons.prems Cons.IH [of True] show ?thesis by simp
  qed
qed (auto intro: exI [of _ "[]"])

lemma trim_trailing_hyphens:
  assumes "unicode_law P"
  shows "hyphenated P h ks \<Longrightarrow>
    \<exists>ls. rev (dropWhile (\<lambda>x. x = CHR ''-'') (rev (concat ks))) = concat ls \<and> hyphenated P h ls
      \<and> (ls = [] \<or> hd ls = hd ks \<and> is_alphanumeric P (last ls))"
proof (induction ks rule: rev_induct)
  case (snoc k ks)
  show ?case
  proof (cases "is_alphanumeric P k")
    case True
    with alphanumericD [OF assms True] have "dropWhile (\<lambda>x. x = CHR ''-'') (rev k @ r) = rev k @ r" for r
      by (cases k rule: rev_cases) auto
    with True snoc.prems show ?thesis by (intro exI [of _ "ks @ [k]"]) auto
  next
    case False
    with snoc.prems have "k = ''-''" by (auto dest: hyphenated_mem)
    with snoc.IH hyphenated_append [OF snoc.prems] show ?thesis
      by (cases "ks = []") (auto simp: hd_append intro: exI [of _ "[]"])
  qed
qed (auto intro: exI [of _ "[]"])

text \<open>The shape of a normalized name.\<close>

definition normal_name :: "prims \<Rightarrow> str \<Rightarrow> bool" where
  "normal_name P t \<longleftrightarrow>
     (\<exists>ls. t = concat ls \<and> hyphenated P False ls \<and> ls \<noteq> []
        \<and> is_alphanumeric P (hd ls) \<and> is_alphanumeric P (last ls))"

lemma normal_name_file: "unicode_law P \<Longrightarrow> normal_name P ''file''"
  unfolding normal_name_def
  by (intro exI [of _ "[''f'', ''i'', ''l'', ''e'']"])
     (simp add: unicode_law_def ascii_alnum_def char_seq_def cont_char_def eval_simps)

lemma stem_str_ok: "str_ok name \<Longrightarrow> str_ok (stem name)"
proof -
  have "\<not> cont_char CHR ''.''" by (simp add: cont_char_def is_cont_def)
  then show "str_ok name \<Longrightarrow> str_ok (stem name)"
    by (auto simp: stem_def rsplit_once_Some_iff split: option.splits dest: str_ok_before)
qed

lemma normalize_name_normal:
  assumes "unicode_law P" "str_ok name"
  shows "normal_name P (normalize_name P name)"
proof -
  have "\<forall>k \<in> set (chars (stem name)). char_seq k \<and> str_ok k"
    using chars_ok [OF stem_str_ok [OF assms(2)]] by auto
  from normalize_chars_hyphenated [OF assms(1) this, of "[]"] obtain ks where
    ks: "normalize_chars P [] (chars (stem name)) = concat ks" "hyphenated P False ks"
    by (auto simp: ends_with_def)
  from dropWhile_hyphens [OF assms(1) ks(2)] obtain ms where
    ms: "dropWhile (\<lambda>x. x = CHR ''-'') (concat ks) = concat ms" "hyphenated P False ms"
      "ms = [] \<or> is_alphanumeric P (hd ms)" by blast
  from trim_trailing_hyphens [OF assms(1) ms(2)] obtain ls where
    ls: "rev (dropWhile (\<lambda>x. x = CHR ''-'') (rev (concat ms))) = concat ls" "hyphenated P False ls"
      "ls = [] \<or> hd ls = hd ms \<and> is_alphanumeric P (last ls)" by blast
  have t: "trim_matches CHR ''-'' (normalize_chars P [] (chars (stem name))) = concat ls"
    by (simp add: trim_matches_def ks(1) ms(1) ls(1))
  show ?thesis
  proof (cases "concat ls = []")
    case True
    then show ?thesis using normal_name_file [OF assms(1)] by (simp add: normalize_name_def t)
  next
    case False
    then have "ls \<noteq> []" and "ms \<noteq> []" using ls(1) by auto
    moreover from this ls(3) ms(3) have "is_alphanumeric P (hd ls)" by simp
    ultimately show ?thesis using False ls unfolding normalize_name_def t normal_name_def by auto
  qed
qed

lemma normal_name_fixed:
  assumes "unicode_law P" "normal_name P t"
  shows "normalize_name P t = t" "t \<noteq> []" "str_ok t"
proof -
  from assms(2) obtain ls where t: "t = concat ls" and ls: "hyphenated P False ls" "ls \<noteq> []"
    "is_alphanumeric P (hd ls)" "is_alphanumeric P (last ls)" by (auto simp: normal_name_def)
  note mem = hyphenated_mem [OF ls(1)]
  have seq: "\<forall>k \<in> set ls. char_seq k" "\<forall>k \<in> set ls. str_ok k" using mem by fastforce+
  have nz: "\<forall>k \<in> set ls. k \<noteq> []" using mem alphanumericD(1) [OF assms(1)] by auto
  have "CHR ''.'' \<notin> set t" using mem alphanumericD(3) [OF assms(1)] by (fastforce simp: t)
  then have "stem t = t" by (simp add: stem_def rsplit_once_None_iff [THEN iffD2])
  moreover have "chars t = ls" unfolding t by (rule chars_concat) (rule seq)
  moreover have "normalize_chars P [] ls = t"
    using normalize_chars_fixed [OF assms(1), of "[]" ls] ls by (simp add: t ends_with_def)
  moreover have "hd t \<noteq> CHR ''-'' \<and> last t \<noteq> CHR ''-''"
  proof
    from ls nz show "hd t \<noteq> CHR ''-''"
      using alphanumericD(4) [OF assms(1) ls(3)] by (cases ls) (auto simp: t hd_append)
    from ls nz show "last t \<noteq> CHR ''-''"
      using alphanumericD(5) [OF assms(1) ls(4)] by (cases ls rule: rev_cases) (auto simp: t last_append)
  qed
  moreover show ne: "t \<noteq> []" using ls nz by (cases ls) (auto simp: t)
  ultimately show "normalize_name P t = t" by (simp add: normalize_name_def trim_matches_no_change)
  show "str_ok t" unfolding t by (rule str_ok_concat) (rule seq)
qed

section \<open>Created revisions\<close>

lemma digit_ascii: "is_ascii_digit c \<Longrightarrow> (of_char c :: nat) < 128"
  by (simp add: is_ascii_digit_def)

lemma compact_utc_str_ok: "compact_utc t = Ok stamp \<Longrightarrow> str_ok stamp"
  by (rule str_ok_ascii)
     (auto simp: compact_utc_def Let_def digits_def list_all_iff digit_ascii
        split: option.splits prod.splits list.splits if_splits)

lemma generated_label_str_ok:
  assumes "generated_label P name at l = Ok g" "unicode_law P" "str_ok name" "str_ok l"
  shows "str_ok g"
proof -
  from assms(1) obtain stamp where stamp: "compact_utc at = Ok stamp"
    and g: "''R'' @ normalize_name P name @ ''-'' @ stamp @ ''-'' @ l = g"
    by (auto simp: generated_label_def split: if_splits)
  have "str_ok (normalize_name P name)"
    by (rule normal_name_fixed(3) [OF assms(2) normalize_name_normal [OF assms(2,3)]])
  moreover have "str_ok ''R''" by (simp add: eval_simps)
  ultimately show ?thesis
    unfolding g [symmetric] using assms(4) compact_utc_str_ok [OF stamp] hyphen_ok(2)
    by (intro str_ok_append)
qed

lemma create_revision_facts:
  assumes "create_revision P f name payload n = Ok r"
  shows "r_file_id r = f" "r_parent_revision_ids r = nr_parent_revision_ids n"
    "r_content_commitment r = content_commitment P f payload"
    "r_author_identity r = nr_author_identity n" "r_author_hcp_label r = nr_author_hcp_label n"
    "r_created_at_utc r = nr_created_at_utc n" "r_topology_generation r = nr_topology_generation n"
    "r_policy_hash r = nr_policy_hash n" "r_user_label r = nr_user_label n"
    "generated_label P name (nr_created_at_utc n) (nr_author_hcp_label n) = Ok (r_generated_label r)"
    "compute_id P r = Ok (r_revision_id r)"
  using assms by (auto simp: create_revision_def Let_def compute_id_def revision_body_def split: if_splits)

lemma create_revision_ok:
  assumes "create_revision P f name payload n = Ok r" "new_revision_ok n" "sized_prims P" "unicode_law P"
    "length f = 16" "str_ok name"
  shows "revision_ok r"
proof -
  note facts = create_revision_facts [OF assms(1)]
  from facts(11) obtain b where "sha256 P (REVISION_ID_DOMAIN @ b) = r_revision_id r"
    by (auto simp: compute_id_def)
  with sized_primsD(1) [OF assms(3)] have "length (r_revision_id r) = 32" by metis
  moreover have "str_ok (r_generated_label r)"
    by (rule generated_label_str_ok [OF facts(10)]) (use assms in \<open>simp_all add: new_revision_ok_def\<close>)
  ultimately show ?thesis
    using facts assms by (simp add: revision_ok_def new_revision_ok_def content_commitment_def)
qed

lemma create_revision_consistent:
  assumes "create_revision P f name payload n = Ok r" "unicode_law P" "str_ok name"
  shows "generated_label_is_consistent P r"
proof -
  note facts = create_revision_facts [OF assms(1)]
  note normal = normal_name_fixed [OF assms(2) normalize_name_normal [OF assms(2,3)]]
  from facts(10) obtain stamp where "compact_utc (r_created_at_utc r) = Ok stamp"
    "r_author_hcp_label r \<noteq> []"
    "r_generated_label r = ''R'' @ normalize_name P name @ ''-'' @ stamp @ ''-'' @ r_author_hcp_label r"
    by (auto simp: generated_label_def facts split: if_splits)
  moreover have "strip_prefix ''R'' (''R'' @ x) = Some x" "strip_suffix y (x @ y) = Some x" for x y
    by (simp_all only: strip_prefix_Some_iff strip_suffix_Some_iff)
  ultimately show ?thesis
    using normal by (simp add: generated_label_is_consistent_def)
qed

section \<open>Properties\<close>

text \<open>
  C25. A revision id commits to the whole revision: two revisions that differ in any field
  (content, parents and their order, author, label, time, topology or policy) have
  different ids, unless their encodings are a collision of the hash. So a revision cannot
  be given other parents or other content under the same identity.
\<close>

theorem revision_id_commits:
  assumes "revision_ok r" "revision_ok s" "compute_id P r = Ok i" "compute_id P s = Ok j"
    and "revision_body r = Ok b" "revision_body s = Ok c"
    and "no_collision P {REVISION_ID_DOMAIN @ b, REVISION_ID_DOMAIN @ c}"
    and "r\<lparr>r_revision_id := i\<rparr> \<noteq> s\<lparr>r_revision_id := i\<rparr>" and "length i = 32"
  shows "i \<noteq> j"
proof
  assume "i = j"
  with assms(3-6) have "sha256 P (REVISION_ID_DOMAIN @ b) = sha256 P (REVISION_ID_DOMAIN @ c)"
    by (simp add: compute_id_def)
  with assms(7) have "REVISION_ID_DOMAIN @ b = REVISION_ID_DOMAIN @ c" by (auto dest: no_collisionD)
  then have bc: "b = c" by simp
  have "r\<lparr>r_revision_id := i\<rparr> = s\<lparr>r_revision_id := i\<rparr>"
    by (rule revision_body_inject [of _ _ b])
       (use assms bc in \<open>simp_all add: revision_ok_id\<close>)
  with assms(8) show False by simp
qed

definition sample_revision :: "bytes list \<Rightarrow> file_revision" where
  "sample_revision parents =
     \<lparr>r_revision_id = replicate 32 0, r_file_id = replicate 16 1, r_parent_revision_ids = parents,
      r_content_commitment = replicate 32 2, r_generated_label = ''Rx-20260101T000000Z-A'',
      r_user_label = None, r_author_identity = Some (replicate 16 3), r_author_hcp_label = ''A'',
      r_created_at_utc = ''2026-01-01T00:00:00Z'', r_topology_generation = 1,
      r_policy_hash = replicate 32 4\<rparr>"

theorem revision_id_commits_witness:
  "toy_hash (REVISION_ID_DOMAIN @ projr (revision_body (sample_revision [])))
     \<noteq> toy_hash (REVISION_ID_DOMAIN @ projr (revision_body (sample_revision [replicate 32 5])))"
proof (rule revision_id_commits [of "sample_revision []" "sample_revision [replicate 32 5]" toy_prims])
  show "no_collision toy_prims
      {REVISION_ID_DOMAIN @ projr (revision_body (sample_revision [])),
       REVISION_ID_DOMAIN @ projr (revision_body (sample_revision [replicate 32 5]))}"
    by (simp add: no_collision_def revision_body_def sample_revision_def eval_simps)
qed (simp_all add: revision_ok_def sample_revision_def compute_id_def revision_body_def eval_simps)

text \<open>
  Normalizing a file name is idempotent, for every valid name: a normalized name is its
  own normal form, which is what lets a generated label be checked without the original
  name.
\<close>

lemma normalize_name_idempotent:
  assumes "unicode_law P" "str_ok name"
  shows "normalize_name P (normalize_name P name) = normalize_name P name"
  by (rule normal_name_fixed(1) [OF assms(1) normalize_name_normal [OF assms]])

end
