(* ===== verification/RevGraph.thy ===== *)
theory RevGraph
  imports Revision
begin

text \<open>
  The revision graph of a tracked file, \<open>RevisionGraph\<close> in
  \<open>src/file_history/revision.rs\<close>: heads, ancestry, merge bases and the comparison of two
  heads. The two graph searches are worklist loops; they are total functions here (their
  termination is proved), and the theorems identify their results with reachability along
  parent links.
\<close>

section \<open>Operations\<close>

type_synonym graph = "stored_revision list"

definition get :: "graph \<Rightarrow> bytes \<Rightarrow> stored_revision option" where
  "get g revision_id = List.find (\<lambda>s. rev_id s = revision_id) g"

definition heads :: "graph \<Rightarrow> bytes list" where
  "heads g =
     (let parents = set (concat (map rev_parents g)) in
      filter (\<lambda>i. i \<notin> parents) (map rev_id g))"

definition has_fork :: "graph \<Rightarrow> bool" where
  "has_fork g \<longleftrightarrow> length (heads g) > 1"

text \<open>Collecting pairs into a \<open>BTreeMap\<close>: a later pair replaces an earlier one.\<close>

definition index_of :: "graph \<Rightarrow> bytes \<Rightarrow> nat option" where
  "index_of g = map_of (rev (zip (map rev_id g) [0..<length g]))"

lemma index_of_SomeD: "index_of g x = Some i \<Longrightarrow> i < length g \<and> rev_id (g ! i) = x"
  by (auto simp: index_of_def set_zip dest!: map_of_SomeD)

lemma finite_dom_index_of [simp]: "finite (dom (index_of g))"
  by (simp add: index_of_def finite_dom_map_of)

lemma card_Diff_insert_less:
  "finite A \<Longrightarrow> x \<in> A \<Longrightarrow> x \<notin> S \<Longrightarrow> card (A - insert x S) < card (A - S)"
  by (rule psubset_card_mono) auto

text \<open>
  The loop of \<open>is_ancestor_or_self\<close>. The stack has its top at the head, so
  \<open>stack.extend(parents)\<close> puts the last parent first.
\<close>

function ancestor_loop :: "graph \<Rightarrow> bytes \<Rightarrow> bytes set \<Rightarrow> bytes list \<Rightarrow> bool" where
  "ancestor_loop g ancestor seen [] = False"
| "ancestor_loop g ancestor seen (x # stack) =
     (if x = ancestor then True
      else if x \<in> seen then ancestor_loop g ancestor seen stack
      else case index_of g x of
        Some i \<Rightarrow> ancestor_loop g ancestor (insert x seen) (rev (rev_parents (g ! i)) @ stack)
      | None \<Rightarrow> ancestor_loop g ancestor (insert x seen) stack)"
  by pat_completeness auto

termination
proof (relation "measures [\<lambda>(g, a, seen, stack). card (dom (index_of g) - seen), \<lambda>(g, a, seen, stack). length stack]",
    goal_cases)
  case (3 g a seen x stack)
  then have "dom (index_of g) - insert x seen = dom (index_of g) - seen" by auto
  then show ?case by simp
next
  case (4 g a seen x stack i)
  then have "card (dom (index_of g) - insert x seen) < card (dom (index_of g) - seen)"
    by (intro card_Diff_insert_less) auto
  then show ?case by simp
qed auto

definition graph_ancestor_or_self :: "graph \<Rightarrow> bytes \<Rightarrow> bytes \<Rightarrow> bool" where
  "graph_ancestor_or_self g ancestor descendant =
     (if index_of g ancestor = None then False
      else ancestor_loop g ancestor {} [descendant])"

lemma unmarked_less:
  assumes "i < length marked" "\<not> marked ! i"
  shows "card {j. j < length marked \<and> \<not> marked[i := True] ! j} < card {j. j < length marked \<and> \<not> marked ! j}"
  by (rule psubset_card_mono) (use assms in \<open>auto simp: nth_list_update\<close>)

text \<open>
  The loop of \<open>mark_ancestors\<close>. An index from \<open>index_of\<close> is always in range
  (\<open>index_of_SomeD\<close>); the guard on it only makes the function total.
\<close>

function mark_loop :: "graph \<Rightarrow> bool list \<Rightarrow> bytes list \<Rightarrow> bool list" where
  "mark_loop g marked [] = marked"
| "mark_loop g marked (x # stack) =
     (case index_of g x of
        Some i \<Rightarrow>
          if i < length marked \<and> \<not> marked ! i
          then mark_loop g (marked[i := True]) (rev (rev_parents (g ! i)) @ stack)
          else mark_loop g marked stack
      | None \<Rightarrow> mark_loop g marked stack)"
  by pat_completeness auto

termination
  by (relation "measures [\<lambda>(g, marked, stack). card {j. j < length marked \<and> \<not> marked ! j},
        \<lambda>(g, marked, stack). length stack]")
     (auto dest: unmarked_less)

definition mark_ancestors :: "graph \<Rightarrow> bytes \<Rightarrow> bool list" where
  "mark_ancestors g x = mark_loop g (replicate (length g) False) [x]"

definition ancestor_set :: "graph \<Rightarrow> bytes \<Rightarrow> bytes set" where
  "ancestor_set g x =
     set (map (\<lambda>(s, _). rev_id s) (filter snd (zip g (mark_ancestors g x))))"

datatype base_kind = Unique bytes | Ambiguous | NoBase

fun cover_parents :: "graph \<Rightarrow> bytes list \<Rightarrow> bool list \<Rightarrow> bool list" where
  "cover_parents g [] covered = covered"
| "cover_parents g (p # ps) covered =
     cover_parents g ps (case index_of g p of Some j \<Rightarrow> covered[j := True] | None \<Rightarrow> covered)"

definition base_step ::
    "graph \<Rightarrow> bool list \<Rightarrow> bool list \<Rightarrow> nat \<Rightarrow> bool list \<times> bytes list \<Rightarrow> bool list \<times> bytes list" where
  "base_step g from_a from_b i = (\<lambda>(covered, nearest).
     let common = from_a ! i \<and> from_b ! i in
     ((if common \<or> covered ! i then cover_parents g (rev_parents (g ! i)) covered else covered),
      (if common \<and> \<not> covered ! i then nearest @ [rev_id (g ! i)] else nearest)))"

definition merge_base :: "graph \<Rightarrow> bytes \<Rightarrow> bytes \<Rightarrow> base_kind" where
  "merge_base g a b =
     (let from_a = mark_ancestors g a; from_b = mark_ancestors g b;
          (covered, nearest) = fold (base_step g from_a from_b) (rev [0..<length g])
                                 (replicate (length g) False, []) in
      case nearest of [] \<Rightarrow> NoBase | [only] \<Rightarrow> Unique only | _ \<Rightarrow> Ambiguous)"

datatype head_relation = Equal | IncomingAhead | IncomingBehind | Diverged

definition compare_heads :: "graph \<Rightarrow> bytes \<Rightarrow> bytes \<Rightarrow> head_relation result" where
  "compare_heads g local incoming =
     (if get g local = None \<or> get g incoming = None then Err InvalidTrackedFile
      else Ok (if local = incoming then Equal
               else if graph_ancestor_or_self g local incoming then IncomingAhead
               else if graph_ancestor_or_self g incoming local then IncomingBehind
               else Diverged))"

section \<open>Reachability\<close>

text \<open>
  The specification: \<open>parent_rel\<close> holds between a revision and each of its parents. A
  well-formed graph has distinct ids and is stored parents-first, which
  \<open>verify_structure\<close> checks.
\<close>

definition ids :: "graph \<Rightarrow> bytes set" where
  "ids g = set (map rev_id g)"

definition parent_rel :: "graph \<Rightarrow> (bytes \<times> bytes) set" where
  "parent_rel g = {(rev_id s, p) | s p. s \<in> set g \<and> p \<in> set (rev_parents s)}"

fun parents_first :: "bytes list \<Rightarrow> graph \<Rightarrow> bool" where
  "parents_first seen [] = True"
| "parents_first seen (s # g) =
     (rev_id s \<notin> set seen \<and> list_all (\<lambda>p. p \<in> set seen) (rev_parents s)
      \<and> parents_first (rev_id s # seen) g)"

definition dag_ok :: "graph \<Rightarrow> bool" where
  "dag_ok g \<longleftrightarrow> parents_first [] g"

lemma parents_first_distinct:
  "parents_first seen g \<Longrightarrow> distinct (map rev_id g) \<and> set (map rev_id g) \<inter> set seen = {}"
proof (induction g arbitrary: seen)
  case (Cons s g)
  then have "distinct (map rev_id g) \<and> set (map rev_id g) \<inter> set (rev_id s # seen) = {}"
    by (intro Cons.IH) simp
  with Cons.prems show ?case by auto
qed simp

lemma dag_ok_distinct: "dag_ok g \<Longrightarrow> distinct (map rev_id g)"
  by (simp add: dag_ok_def parents_first_distinct)

lemma parents_first_parent:
  "parents_first seen g \<Longrightarrow> i < length g \<Longrightarrow> p \<in> set (rev_parents (g ! i))
    \<Longrightarrow> p \<in> set seen \<or> (\<exists>j < i. rev_id (g ! j) = p)"
proof (induction g arbitrary: seen i)
  case (Cons s g)
  show ?case
  proof (cases i)
    case 0
    with Cons.prems show ?thesis by (auto simp: list_all_iff)
  next
    case (Suc k)
    from Cons.prems Suc have "p \<in> set (rev_id s # seen) \<or> (\<exists>j < k. rev_id (g ! j) = p)"
      by (intro Cons.IH) auto
    then show ?thesis unfolding Suc by (auto intro: exI [of _ 0] exI [of _ "Suc j" for j])
  qed
qed simp

lemma dag_ok_parent:
  "dag_ok g \<Longrightarrow> i < length g \<Longrightarrow> p \<in> set (rev_parents (g ! i)) \<Longrightarrow> \<exists>j < i. rev_id (g ! j) = p"
  using parents_first_parent [of "[]" g i p] by (simp add: dag_ok_def)

lemma index_of_iff:
  assumes "distinct (map rev_id g)"
  shows "index_of g x = Some i \<longleftrightarrow> i < length g \<and> rev_id (g ! i) = x"
proof
  assume r: "i < length g \<and> rev_id (g ! i) = x"
  have "distinct (map fst (rev (zip (map rev_id g) [0..<length g])))"
    using assms by (simp add: rev_map [symmetric])
  moreover have "(x, i) \<in> set (rev (zip (map rev_id g) [0..<length g]))"
    using r by (auto simp: set_zip intro!: exI [of _ i])
  ultimately show "index_of g x = Some i" by (simp add: index_of_def)
qed (auto dest: index_of_SomeD)

lemma rev_id_nth_inject:
  "distinct (map rev_id g) \<Longrightarrow> i < length g \<Longrightarrow> j < length g \<Longrightarrow> rev_id (g ! i) = rev_id (g ! j) \<longleftrightarrow> i = j"
  using nth_eq_iff_index_eq [of "map rev_id g" i j] by simp

lemma ids_nth: "ids g = {rev_id (g ! i) | i. i < length g}"
  by (simp add: ids_def) (auto simp: set_conv_nth)

lemma index_of_None_iff: "index_of g x = None \<longleftrightarrow> x \<notin> ids g"
proof -
  have "map fst (zip (map rev_id g) [0..<length g]) = map rev_id g" by simp
  from arg_cong [OF this, of set] show ?thesis
    by (simp add: index_of_def map_of_eq_None_iff ids_def del: map_fst_zip)
qed

lemma parent_rel_index:
  assumes "distinct (map rev_id g)" "index_of g x = Some i"
  shows "(x, p) \<in> parent_rel g \<longleftrightarrow> p \<in> set (rev_parents (g ! i))"
proof -
  from assms have i: "i < length g" "rev_id (g ! i) = x" by (auto dest: index_of_SomeD)
  have "s = g ! i" if "s \<in> set g" "rev_id s = x" for s
    using that i assms(1) by (auto simp: in_set_conv_nth distinct_conv_nth)
  with i show ?thesis by (auto simp: parent_rel_def)
qed

lemma parent_rel_None: "index_of g x = None \<Longrightarrow> (x, p) \<notin> parent_rel g"
  by (auto simp: index_of_None_iff ids_def parent_rel_def)

lemma reach_via_parents:
  assumes "distinct (map rev_id g)" "index_of g x = Some i"
  shows "(x, y) \<in> (parent_rel g)\<^sup>* \<longleftrightarrow> x = y \<or> (\<exists>p \<in> set (rev_parents (g ! i)). (p, y) \<in> (parent_rel g)\<^sup>*)"
proof -
  have "(x, y) \<in> (parent_rel g)\<^sup>* \<longleftrightarrow> x = y \<or> (\<exists>p. (x, p) \<in> parent_rel g \<and> (p, y) \<in> (parent_rel g)\<^sup>*)"
    by (meson converse_rtranclE converse_rtrancl_into_rtrancl rtrancl.rtrancl_refl)
  then show ?thesis by (auto simp: parent_rel_index [OF assms])
qed

section \<open>Ancestry\<close>

lemma leaves_seen:
  assumes "(x, a) \<in> (parent_rel g)\<^sup>*" and "x \<in> seen" and "a \<notin> seen"
    and "\<forall>y \<in> seen. \<forall>p. (y, p) \<in> parent_rel g \<longrightarrow> p \<in> seen \<union> set stack"
  shows "\<exists>y \<in> set stack. (y, a) \<in> (parent_rel g)\<^sup>*"
  using assms(1,2)
proof (induction rule: converse_rtrancl_induct)
  case (step y z)
  with assms(4) have "z \<in> seen \<or> z \<in> set stack" by blast
  with step show ?case by blast
qed (use assms(3) in blast)

lemma ancestor_loop_iff:
  shows "distinct (map rev_id g) \<Longrightarrow> a \<notin> seen \<Longrightarrow> \<forall>y \<in> seen. \<forall>p. (y, p) \<in> parent_rel g \<longrightarrow> p \<in> seen \<union> set stack
    \<Longrightarrow> ancestor_loop g a seen stack \<longleftrightarrow> (\<exists>x \<in> set stack. (x, a) \<in> (parent_rel g)\<^sup>*)"
proof (induction g a seen stack rule: ancestor_loop.induct)
  case (2 g a seen x stack)
  consider "x = a" | "x \<noteq> a" "x \<in> seen" | "x \<noteq> a" "x \<notin> seen" "index_of g x = None"
    | i where "x \<noteq> a" "x \<notin> seen" "index_of g x = Some i" by (cases "index_of g x") auto
  then show ?case
  proof cases
    case 2
    have closed: "\<forall>y \<in> seen. \<forall>p. (y, p) \<in> parent_rel g \<longrightarrow> p \<in> seen \<union> set stack"
      using "2.prems"(3) 2(2) by auto
    with leaves_seen [OF _ 2(2) "2.prems"(2) closed] "2.IH"(1) "2.prems" 2 show ?thesis by auto
  next
    case 3
    then have none: "(x, p) \<notin> parent_rel g" for p by (simp add: parent_rel_None)
    then have "(x, a) \<notin> (parent_rel g)\<^sup>*" using 3(1) by (auto elim: converse_rtranclE)
    moreover have "\<forall>y \<in> insert x seen. \<forall>p. (y, p) \<in> parent_rel g \<longrightarrow> p \<in> insert x seen \<union> set stack"
      using none "2.prems"(3) by auto
    ultimately show ?thesis using "2.IH"(2) "2.prems" 3 by auto
  next
    case 4
    note rel = parent_rel_index [OF "2.prems"(1) 4(3)]
    let ?stack = "rev (rev_parents (g ! i)) @ stack"
    have "\<forall>y \<in> insert x seen. \<forall>p. (y, p) \<in> parent_rel g \<longrightarrow> p \<in> insert x seen \<union> set ?stack"
      using "2.prems"(3) by (auto simp: rel)
    with "2.IH"(3) [OF 4] "2.prems" 4
    have "ancestor_loop g a seen (x # stack) \<longleftrightarrow> (\<exists>y \<in> set ?stack. (y, a) \<in> (parent_rel g)\<^sup>*)" by auto
    with reach_via_parents [OF "2.prems"(1) 4(3), of a] 4(1) show ?thesis by auto
  qed simp
qed simp

lemma graph_ancestor_or_self_iff:
  assumes "distinct (map rev_id g)"
  shows "graph_ancestor_or_self g a d \<longleftrightarrow> a \<in> ids g \<and> (d, a) \<in> (parent_rel g)\<^sup>*"
  using ancestor_loop_iff [OF assms, of a "{}" "[d]"]
  by (auto simp: graph_ancestor_or_self_def index_of_None_iff)

text \<open>Every indexed parent of a marked revision is marked or still on the stack.\<close>

definition marks_closed :: "graph \<Rightarrow> bool list \<Rightarrow> bytes list \<Rightarrow> bool" where
  "marks_closed g marked stack \<longleftrightarrow>
     (\<forall>x i p j. index_of g x = Some i \<and> marked ! i \<and> (x, p) \<in> parent_rel g \<and> index_of g p = Some j
        \<longrightarrow> marked ! j \<or> p \<in> set stack)"

lemma leaves_marked:
  assumes "(x, y) \<in> (parent_rel g)\<^sup>*" and "index_of g x = Some i" and "marked ! i"
    and "index_of g y = Some j" and "marks_closed g marked stack"
  shows "marked ! j \<or> (\<exists>z \<in> set stack. (z, y) \<in> (parent_rel g)\<^sup>*)"
  using assms(1-3)
proof (induction arbitrary: i rule: converse_rtrancl_induct)
  case base
  then show ?case using assms(4) by simp
next
  case (step x z)
  show ?case
  proof (cases "index_of g z")
    case None
    then have "z = y" using step.hyps(2) parent_rel_None [OF None] by (auto elim: converse_rtranclE)
    then show ?thesis using None assms(4) by simp
  next
    case (Some k)
    with step assms(5) have "marked ! k \<or> z \<in> set stack" unfolding marks_closed_def by blast
    with step Some show ?thesis by blast
  qed
qed

lemma marks_closed_step:
  assumes "distinct (map rev_id g)" "index_of g x = Some i" "i < length marked"
    and closed: "marks_closed g marked (x # stack)"
  shows "marks_closed g (marked[i := True]) (rev (rev_parents (g ! i)) @ stack)"
  unfolding marks_closed_def
proof (intro allI impI, elim conjE)
  fix y k p j
  assume y: "index_of g y = Some k" "marked[i := True] ! k" "(y, p) \<in> parent_rel g" "index_of g p = Some j"
  show "marked[i := True] ! j \<or> p \<in> set (rev (rev_parents (g ! i)) @ stack)"
  proof (cases "y = x")
    case True
    with y(3) show ?thesis by (simp add: parent_rel_index [OF assms(1,2)])
  next
    case False
    with y(1) assms(1,2) have "k \<noteq> i" by (auto simp: index_of_iff)
    with y closed have "marked ! j \<or> p = x \<or> p \<in> set stack" unfolding marks_closed_def by fastforce
    with y(4) assms(2,3) show ?thesis by (auto simp: nth_list_update)
  qed
qed

lemma mark_loop_iff:
  "distinct (map rev_id g) \<Longrightarrow> length marked = length g \<Longrightarrow> marks_closed g marked stack
    \<Longrightarrow> length (mark_loop g marked stack) = length g
      \<and> (\<forall>y j. index_of g y = Some j \<longrightarrow>
            (mark_loop g marked stack ! j \<longleftrightarrow> marked ! j \<or> (\<exists>x \<in> set stack. (x, y) \<in> (parent_rel g)\<^sup>*)))"
proof (induction g marked stack rule: mark_loop.induct)
  case (2 g marked x stack)
  note prems = "2.prems"
  show ?case
  proof (cases "index_of g x")
    case None
    then have no: "(x, y) \<in> (parent_rel g)\<^sup>* \<Longrightarrow> index_of g y = None" for y
      using parent_rel_None [OF None] by (auto elim: converse_rtranclE)
    have "marks_closed g marked stack" using prems(3) None unfolding marks_closed_def by fastforce
    with "2.IH"(1) [OF None prems(1,2)] None no show ?thesis by auto
  next
    case (Some i)
    then have i: "i < length marked" using prems(2) by (auto dest: index_of_SomeD)
    show ?thesis
    proof (cases "marked ! i")
      case True
      have closed: "marks_closed g marked stack"
        using prems(3) Some True unfolding marks_closed_def by fastforce
      have "marked ! j \<or> (\<exists>z \<in> set stack. (z, y) \<in> (parent_rel g)\<^sup>*)"
        if "(x, y) \<in> (parent_rel g)\<^sup>*" "index_of g y = Some j" for y j
        using leaves_marked [OF that(1) Some True that(2) closed] .
      with "2.IH"(3) [OF Some _ prems(1,2) closed] Some True show ?thesis by auto
    next
      case False
      let ?m = "marked[i := True]" and ?s = "rev (rev_parents (g ! i)) @ stack"
      note closed = marks_closed_step [OF prems(1) Some i prems(3)]
      have mj: "?m ! j \<longleftrightarrow> marked ! j \<or> x = y" if "index_of g y = Some j" for y j
      proof -
        have "x = y \<longleftrightarrow> i = j" using that Some by (auto dest: index_of_SomeD)
        then show ?thesis using i by (simp add: nth_list_update)
      qed
      from "2.IH"(2) [OF Some _ prems(1) _ closed] i False Some prems(2)
      have "length (mark_loop g marked (x # stack)) = length g
        \<and> (\<forall>y j. index_of g y = Some j \<longrightarrow>
            (mark_loop g marked (x # stack) ! j \<longleftrightarrow> ?m ! j \<or> (\<exists>z \<in> set ?s. (z, y) \<in> (parent_rel g)\<^sup>*)))"
        by simp
      then show ?thesis
        by (auto simp: mj reach_via_parents [OF prems(1) Some])
    qed
  qed
qed simp

lemma mark_ancestors_iff:
  assumes "distinct (map rev_id g)"
  shows "length (mark_ancestors g x) = length g"
    and "i < length g \<Longrightarrow> mark_ancestors g x ! i \<longleftrightarrow> (x, rev_id (g ! i)) \<in> (parent_rel g)\<^sup>*"
proof -
  have "marks_closed g (replicate (length g) False) [x]"
    by (auto simp: marks_closed_def dest: index_of_SomeD)
  from mark_loop_iff [OF assms _ this] have *: "length (mark_ancestors g x) = length g"
    "\<And>y j. index_of g y = Some j \<Longrightarrow> mark_ancestors g x ! j \<longleftrightarrow> (x, y) \<in> (parent_rel g)\<^sup>*"
    by (auto simp: mark_ancestors_def dest: index_of_SomeD)
  from *(1) show "length (mark_ancestors g x) = length g" .
  from *(2) show "i < length g \<Longrightarrow> mark_ancestors g x ! i \<longleftrightarrow> (x, rev_id (g ! i)) \<in> (parent_rel g)\<^sup>*"
    by (simp add: index_of_iff [OF assms])
qed

lemma ancestor_set_eq:
  assumes "distinct (map rev_id g)"
  shows "ancestor_set g x = {a \<in> ids g. (x, a) \<in> (parent_rel g)\<^sup>*}"
proof -
  note ids_nth [of g]
  moreover have "ancestor_set g x = {rev_id (g ! i) | i. i < length g \<and> mark_ancestors g x ! i}"
    using mark_ancestors_iff(1) [OF assms, of x] by (force simp: ancestor_set_def set_zip)
  ultimately show ?thesis using mark_ancestors_iff(2) [OF assms] by auto
qed

section \<open>Merge bases\<close>

text \<open>
  The common ancestors of two revisions, and the nearest of them: those that are not
  ancestors of another common ancestor.
\<close>

definition common_ancestors :: "graph \<Rightarrow> bytes \<Rightarrow> bytes \<Rightarrow> bytes set" where
  "common_ancestors g a b =
     {c \<in> ids g. (a, c) \<in> (parent_rel g)\<^sup>* \<and> (b, c) \<in> (parent_rel g)\<^sup>*}"

definition nearest_common :: "graph \<Rightarrow> bytes \<Rightarrow> bytes \<Rightarrow> bytes set" where
  "nearest_common g a b =
     {c \<in> common_ancestors g a b.
        \<not> (\<exists>d \<in> common_ancestors g a b. d \<noteq> c \<and> (d, c) \<in> (parent_rel g)\<^sup>*)}"

lemma parent_rel_decreases:
  assumes "dag_ok g" "(rev_id (g ! i), p) \<in> parent_rel g" "i < length g"
  shows "\<exists>j < i. rev_id (g ! j) = p"
proof -
  have "index_of g (rev_id (g ! i)) = Some i"
    using assms by (simp add: index_of_iff dag_ok_distinct)
  with assms show ?thesis
    by (simp add: parent_rel_index dag_ok_distinct dag_ok_parent)
qed

lemma parent_rel_child: "(x, p) \<in> parent_rel g \<Longrightarrow> \<exists>i < length g. x = rev_id (g ! i)"
  by (auto simp: parent_rel_def in_set_conv_nth)

lemma reach_decreases:
  assumes "dag_ok g"
  shows "(x, y) \<in> (parent_rel g)\<^sup>+ \<Longrightarrow> x = rev_id (g ! i) \<Longrightarrow> i < length g
    \<Longrightarrow> \<exists>j < i. y = rev_id (g ! j)"
proof (induction rule: trancl_induct)
  case (base y)
  with parent_rel_decreases [OF assms] show ?case by fastforce
next
  case (step y z)
  then obtain j where "j < i" "y = rev_id (g ! j)" by blast
  moreover from this step obtain k where "k < j" "rev_id (g ! k) = z"
    using parent_rel_decreases [OF assms, of j z] by auto
  ultimately show ?case by (intro exI [of _ k]) simp
qed

text \<open>An index the reverse pass covers: a strict ancestor of a common ancestor.\<close>

definition strictly_below :: "graph \<Rightarrow> bytes set \<Rightarrow> nat \<Rightarrow> bool" where
  "strictly_below g C j \<longleftrightarrow> (\<exists>c \<in> C. (c, rev_id (g ! j)) \<in> (parent_rel g)\<^sup>+)"

lemma strictly_below_child:
  assumes "dag_ok g" "C \<subseteq> ids g" "j < length g"
  shows "strictly_below g C j \<longleftrightarrow>
    (\<exists>i > j. i < length g \<and> (rev_id (g ! i) \<in> C \<or> strictly_below g C i) \<and> (rev_id (g ! i), rev_id (g ! j)) \<in> parent_rel g)"
proof
  assume "strictly_below g C j"
  then obtain c where c: "c \<in> C" "(c, rev_id (g ! j)) \<in> (parent_rel g)\<^sup>+" by (auto simp: strictly_below_def)
  from c(2) obtain z where z: "(z, rev_id (g ! j)) \<in> parent_rel g" "c = z \<or> (c, z) \<in> (parent_rel g)\<^sup>+"
    by (auto elim: tranclE)
  from parent_rel_child [OF z(1)] obtain i where i: "i < length g" "z = rev_id (g ! i)" by blast
  from parent_rel_decreases [OF assms(1) z(1) [unfolded i(2)] i(1)]
  obtain k where k: "k < i" "rev_id (g ! k) = rev_id (g ! j)" by blast
  with rev_id_nth_inject [OF dag_ok_distinct [OF assms(1)], of k j] assms(3) i(1) have "k = j" by simp
  with k i z c(1) show "\<exists>i > j. i < length g \<and> (rev_id (g ! i) \<in> C \<or> strictly_below g C i)
      \<and> (rev_id (g ! i), rev_id (g ! j)) \<in> parent_rel g"
    by (auto simp: strictly_below_def)
qed (auto simp: strictly_below_def intro: trancl_into_trancl)

lemma cover_parents_nth:
  assumes "length covered = length g" "j < length g" "distinct (map rev_id g)"
  shows "length (cover_parents g ps covered) = length g
    \<and> (cover_parents g ps covered ! j \<longleftrightarrow> covered ! j \<or> rev_id (g ! j) \<in> set ps)"
  using assms(1)
proof (induction ps arbitrary: covered)
  case (Cons p ps)
  let ?c = "case index_of g p of Some k \<Rightarrow> covered[k := True] | None \<Rightarrow> covered"
  have "length ?c = length g" using Cons.prems by (simp split: option.split)
  moreover have "?c ! j \<longleftrightarrow> covered ! j \<or> rev_id (g ! j) = p"
    using Cons.prems assms(2) index_of_iff [OF assms(3), of p j]
    by (auto simp: nth_list_update index_of_None_iff ids_nth split: option.split)
  ultimately show ?case using Cons.IH [of ?c] by auto
qed simp

text \<open>The state of the reverse pass when the indices from \<open>k\<close> on have been visited.\<close>

definition pass_inv :: "graph \<Rightarrow> bytes set \<Rightarrow> nat \<Rightarrow> bool list \<times> bytes list \<Rightarrow> bool" where
  "pass_inv g C k = (\<lambda>(covered, nearest).
     length covered = length g
     \<and> (\<forall>j < length g. covered ! j \<longleftrightarrow>
          (\<exists>i \<ge> k. i < length g \<and> (rev_id (g ! i) \<in> C \<or> strictly_below g C i)
             \<and> (rev_id (g ! i), rev_id (g ! j)) \<in> parent_rel g))
     \<and> nearest = map (\<lambda>i. rev_id (g ! i))
          (filter (\<lambda>i. rev_id (g ! i) \<in> C \<and> \<not> strictly_below g C i) (rev [k..<length g])))"

lemma base_step_inv:
  assumes "dag_ok g" "C \<subseteq> ids g" "k < length g"
    and common: "\<And>i. i < length g \<Longrightarrow> (fa ! i \<and> fb ! i) \<longleftrightarrow> rev_id (g ! i) \<in> C"
    and inv: "pass_inv g C (Suc k) st"
  shows "pass_inv g C k (base_step g fa fb k st)"
proof -
  obtain covered nearest where st: "st = (covered, nearest)" by fastforce
  note inv' = inv [unfolded st pass_inv_def prod.case]
  from inv' have len: "length covered = length g" by blast
  note d = dag_ok_distinct [OF assms(1)]
  have cov: "covered ! k \<longleftrightarrow> strictly_below g C k"
    using inv' assms(3) strictly_below_child [OF assms(1,2,3)] by (simp add: Suc_le_eq)
  have idx: "index_of g (rev_id (g ! k)) = Some k" using assms(3) d by (simp add: index_of_iff)
  have split: "(\<exists>i \<ge> k. R i) \<longleftrightarrow> R k \<or> (\<exists>i \<ge> Suc k. R i)" for R
    by (metis Suc_le_eq le_eq_less_or_eq)
  let ?cov = "if rev_id (g ! k) \<in> C \<or> covered ! k then cover_parents g (rev_parents (g ! k)) covered else covered"
  have "?cov ! j \<longleftrightarrow>
      (\<exists>i \<ge> k. i < length g \<and> (rev_id (g ! i) \<in> C \<or> strictly_below g C i)
             \<and> (rev_id (g ! i), rev_id (g ! j)) \<in> parent_rel g)" if "j < length g" for j
    unfolding split using that inv' assms(3) cover_parents_nth [OF len that d]
    by (auto simp: cov parent_rel_index [OF d idx])
  moreover have "length ?cov = length g"
    using cover_parents_nth [OF len assms(3) d] len by simp
  ultimately show ?thesis
    using inv' assms(3) common [OF assms(3)] cov
    by (auto simp: st base_step_def pass_inv_def Let_def upt_conv_Cons)
qed

lemma reverse_pass_inv:
  assumes "dag_ok g" "C \<subseteq> ids g"
    and "\<And>i. i < length g \<Longrightarrow> (fa ! i \<and> fb ! i) \<longleftrightarrow> rev_id (g ! i) \<in> C" and "k \<le> length g"
  shows "pass_inv g C k (fold (base_step g fa fb) (rev [k..<length g]) (replicate (length g) False, []))"
  using assms(4)
proof (induction k rule: inc_induct)
  case base
  show ?case by (auto simp: pass_inv_def)
next
  case (step k)
  with base_step_inv [OF assms(1,2) step(2) assms(3) step(3)] show ?case
    by (simp add: upt_conv_Cons)
qed

lemma finite_ids [simp]: "finite (ids g)"
  by (simp add: ids_def)

lemma nearest_common_iff:
  assumes "dag_ok g" "i < length g"
  shows "rev_id (g ! i) \<in> nearest_common g a b \<longleftrightarrow>
    rev_id (g ! i) \<in> common_ancestors g a b \<and> \<not> strictly_below g (common_ancestors g a b) i"
proof -
  have "d \<noteq> rev_id (g ! i) \<and> (d, rev_id (g ! i)) \<in> (parent_rel g)\<^sup>* \<longleftrightarrow> (d, rev_id (g ! i)) \<in> (parent_rel g)\<^sup>+" for d
  proof
    assume d: "(d, rev_id (g ! i)) \<in> (parent_rel g)\<^sup>+"
    have "d \<noteq> rev_id (g ! i)"
    proof
      assume eq: "d = rev_id (g ! i)"
      from reach_decreases [OF assms(1) d eq assms(2)] obtain j where "j < i" "rev_id (g ! i) = rev_id (g ! j)" by blast
      then show False using rev_id_nth_inject [OF dag_ok_distinct [OF assms(1)], of i j] assms(2) by simp
    qed
    with d show "d \<noteq> rev_id (g ! i) \<and> (d, rev_id (g ! i)) \<in> (parent_rel g)\<^sup>*" by (simp add: trancl_into_rtrancl)
  qed (auto dest: rtranclD)
  then show ?thesis unfolding nearest_common_def strictly_below_def by auto
qed

lemma nearest_common_nonempty:
  assumes "dag_ok g" "common_ancestors g a b \<noteq> {}"
  shows "nearest_common g a b \<noteq> {}"
proof -
  let ?I = "{i. i < length g \<and> rev_id (g ! i) \<in> common_ancestors g a b}"
  have sub: "common_ancestors g a b \<subseteq> {rev_id (g ! i) | i. i < length g}"
    by (auto simp: common_ancestors_def ids_nth)
  with assms(2) have "?I \<noteq> {}" by auto
  then have m: "Max ?I \<in> ?I" by (intro Max_in) simp_all
  have "\<not> strictly_below g (common_ancestors g a b) (Max ?I)"
  proof
    assume "strictly_below g (common_ancestors g a b) (Max ?I)"
    then obtain i where i: "i < length g" "rev_id (g ! i) \<in> common_ancestors g a b"
      "(rev_id (g ! i), rev_id (g ! Max ?I)) \<in> (parent_rel g)\<^sup>+"
      using sub by (auto simp: strictly_below_def)
    from reach_decreases [OF assms(1) i(3) refl i(1)] obtain j where
      j: "j < i" "rev_id (g ! Max ?I) = rev_id (g ! j)" by blast
    with m i(1) rev_id_nth_inject [OF dag_ok_distinct [OF assms(1)], of "Max ?I" j] have "Max ?I = j" by simp
    moreover have "i \<le> Max ?I" using i by (intro Max_ge) simp_all
    ultimately show False using j by simp
  qed
  with m nearest_common_iff [OF assms(1), of "Max ?I" a b] show ?thesis by auto
qed

text \<open>The list the reverse pass collects: the nearest common ancestors, each once.\<close>

lemma merge_base_list:
  assumes "dag_ok g"
  shows "\<exists>ns. distinct ns \<and> set ns = nearest_common g a b
    \<and> merge_base g a b = (case ns of [] \<Rightarrow> NoBase | [only] \<Rightarrow> Unique only | _ \<Rightarrow> Ambiguous)"
proof -
  let ?C = "common_ancestors g a b" and ?fa = "mark_ancestors g a" and ?fb = "mark_ancestors g b"
  note d = dag_ok_distinct [OF assms]
  have sub: "?C \<subseteq> ids g" by (auto simp: common_ancestors_def)
  have common: "(?fa ! i \<and> ?fb ! i) \<longleftrightarrow> rev_id (g ! i) \<in> ?C" if "i < length g" for i
    using mark_ancestors_iff(2) [OF d that] that by (auto simp: common_ancestors_def ids_nth)
  define ns where "ns = map (\<lambda>i. rev_id (g ! i))
    (filter (\<lambda>i. rev_id (g ! i) \<in> ?C \<and> \<not> strictly_below g ?C i) (rev [0..<length g]))"
  have "snd (fold (base_step g ?fa ?fb) (rev [0..<length g]) (replicate (length g) False, [])) = ns"
    using reverse_pass_inv [OF assms sub common, of 0] by (auto simp: pass_inv_def ns_def)
  then have "merge_base g a b = (case ns of [] \<Rightarrow> NoBase | [only] \<Rightarrow> Unique only | _ \<Rightarrow> Ambiguous)"
    by (auto simp: merge_base_def Let_def split: prod.split)
  moreover have "distinct ns"
    unfolding ns_def distinct_map using rev_id_nth_inject [OF d] by (auto simp: inj_on_def)
  moreover have "nearest_common g a b \<subseteq> {rev_id (g ! i) | i. i < length g}"
    by (auto simp: nearest_common_def common_ancestors_def ids_nth)
  then have "set ns = nearest_common g a b"
    using nearest_common_iff [OF assms] by (auto simp: ns_def)
  ultimately show ?thesis by blast
qed

lemma dag_antisym:
  assumes "dag_ok g" "(x, y) \<in> (parent_rel g)\<^sup>*" "(y, x) \<in> (parent_rel g)\<^sup>*" "x \<in> ids g"
  shows "x = y"
proof (rule ccontr)
  assume "x \<noteq> y"
  with assms(2,3) have loop: "(x, x) \<in> (parent_rel g)\<^sup>+" by (metis rtranclD rtrancl_trancl_trancl)
  from assms(4) obtain i where i: "i < length g" "x = rev_id (g ! i)" by (auto simp: ids_nth)
  from reach_decreases [OF assms(1) loop i(2,1)] obtain j where "j < i" "x = rev_id (g ! j)" by blast
  with i rev_id_nth_inject [OF dag_ok_distinct [OF assms(1)], of i j] show False by simp
qed

lemma get_None_iff: "get g x = None \<longleftrightarrow> x \<notin> ids g"
  by (auto simp: get_def find_None_iff ids_def)

lemma get_SomeD: "get g x = Some s \<Longrightarrow> s \<in> set g \<and> rev_id s = x"
  by (auto simp: get_def dest: find_SomeD)

lemma get_Some_iff: "distinct (map rev_id g) \<Longrightarrow> get g x = Some s \<longleftrightarrow> s \<in> set g \<and> rev_id s = x"
  using find_Some_unique [of rev_id g s] by (auto simp: get_def dest: find_SomeD)

section \<open>Properties\<close>

text \<open>
  C9. The two ancestry searches compute reachability along parent links and agree with each
  other: \<open>is_ancestor_or_self\<close> answers whether the ancestor is in the graph and reachable
  from the descendant, and \<open>ancestor_set\<close> is the set of all revisions for which it says yes.
\<close>

theorem ancestry_is_reachability:
  assumes "dag_ok g"
  shows "(graph_ancestor_or_self g a d \<longleftrightarrow> a \<in> ids g \<and> (d, a) \<in> (parent_rel g)\<^sup>*)
    \<and> ancestor_set g d = {x. graph_ancestor_or_self g x d}"
  using graph_ancestor_or_self_iff [OF dag_ok_distinct [OF assms]] ancestor_set_eq [OF dag_ok_distinct [OF assms]]
  by auto

text \<open>
  C7. \<open>merge_base\<close> finds exactly the nearest common ancestors: it reports none only when the
  revisions share no ancestor, a unique base only when that is the one common ancestor
  below no other, and ambiguity only when there are two or more. The order of the two
  revisions does not matter.
\<close>

theorem merge_base_correct:
  assumes "dag_ok g"
  shows "(merge_base g a b = NoBase \<longleftrightarrow> common_ancestors g a b = {})
    \<and> (merge_base g a b = Unique c \<longleftrightarrow> nearest_common g a b = {c})
    \<and> (merge_base g a b = Ambiguous \<longleftrightarrow> card (nearest_common g a b) \<ge> 2)
    \<and> merge_base g b a = merge_base g a b"
proof -
  obtain ns where ns: "distinct ns" "set ns = nearest_common g a b"
    "merge_base g a b = (case ns of [] \<Rightarrow> NoBase | [only] \<Rightarrow> Unique only | _ \<Rightarrow> Ambiguous)"
    using merge_base_list [OF assms] by blast
  obtain ms where ms: "distinct ms" "set ms = nearest_common g b a"
    "merge_base g b a = (case ms of [] \<Rightarrow> NoBase | [only] \<Rightarrow> Unique only | _ \<Rightarrow> Ambiguous)"
    using merge_base_list [OF assms] by blast
  have sym: "nearest_common g b a = nearest_common g a b"
    unfolding nearest_common_def common_ancestors_def by blast
  have card: "card (nearest_common g a b) = length ns" "length ms = length ns"
    using ns(1,2) ms(1,2) sym distinct_card by metis+
  have ne: "common_ancestors g a b = {} \<longleftrightarrow> nearest_common g a b = {}"
  proof
    assume "nearest_common g a b = {}"
    then show "common_ancestors g a b = {}" using nearest_common_nonempty [OF assms, of a b] by blast
  qed (auto simp: nearest_common_def)
  consider "ns = []" | c where "ns = [c]" | c d r where "ns = c # d # r"
    by (cases ns; cases "tl ns") auto
  then show ?thesis
  proof cases
    case 1
    with ns ms card ne show ?thesis by simp
  next
    case (2 c)
    with card obtain c' where ms': "ms = [c']" by (auto simp: length_Suc_conv)
    with 2 ns(2) ms(2) sym have "c' = c" by auto
    with 2 ms' ns(3) ms(3) card ne ns(2) show ?thesis by auto
  next
    case (3 c d r)
    with card obtain c' d' r' where "ms = c' # d' # r'" by (cases ms; cases "tl ms") auto
    then have two: "merge_base g a b = Ambiguous" "merge_base g b a = Ambiguous" using 3 ns(3) ms(3) by simp_all
    from card(1) 3 have c2: "card (nearest_common g a b) = Suc (Suc (length r))" by simp
    then have "nearest_common g a b \<noteq> {x}" "nearest_common g a b \<noteq> {}" for x by (metis card_1_singleton_iff
      One_nat_def nat.inject nat.distinct(1) card.empty)+
    with two c2 ne show ?thesis by simp
  qed
qed

lemma head_or_parent: "x \<in> ids g \<Longrightarrow> x \<in> set (heads g) \<or> (\<exists>y. (y, x) \<in> parent_rel g)"
  by (fastforce simp: heads_def ids_def parent_rel_def Let_def)

lemma head_above:
  assumes "dag_ok g"
  shows "i < length g \<Longrightarrow> \<exists>h \<in> set (heads g). (h, rev_id (g ! i)) \<in> (parent_rel g)\<^sup>*"
proof (induction "length g - i" arbitrary: i rule: less_induct)
  case less
  from less.prems have "rev_id (g ! i) \<in> ids g" by (auto simp: ids_nth)
  with head_or_parent consider "rev_id (g ! i) \<in> set (heads g)" | y where "(y, rev_id (g ! i)) \<in> parent_rel g"
    by blast
  then show ?case
  proof cases
    case 2
    from parent_rel_child [OF 2] obtain j where j: "j < length g" "y = rev_id (g ! j)" by blast
    from parent_rel_decreases [OF assms 2 [unfolded j(2)] j(1)] obtain k where
      "k < j" "rev_id (g ! k) = rev_id (g ! i)" by blast
    with rev_id_nth_inject [OF dag_ok_distinct [OF assms], of k i] j less.prems have "i < j" by simp
    then have "length g - j < length g - i" using j less.prems by simp
    with less.hyps [of j] j obtain h where "h \<in> set (heads g)" "(h, y) \<in> (parent_rel g)\<^sup>*" by auto
    with 2 show ?thesis by (meson rtrancl.rtrancl_into_rtrancl)
  qed blast
qed

text \<open>
  No revision is lost behind the heads: in a well-formed graph every revision is a head
  or an ancestor of one, and no head is a parent.
\<close>

lemma heads_cover_history:
  assumes "dag_ok g" "x \<in> ids g"
  shows "(\<exists>h \<in> set (heads g). graph_ancestor_or_self g x h) \<and> (\<forall>h \<in> set (heads g). \<forall>y. (y, h) \<notin> parent_rel g)"
proof -
  from assms(2) obtain i where "i < length g" "x = rev_id (g ! i)" by (auto simp: ids_nth)
  with head_above [OF assms(1)] obtain h where "h \<in> set (heads g)" "(h, x) \<in> (parent_rel g)\<^sup>*" by blast
  with assms have "\<exists>h \<in> set (heads g). graph_ancestor_or_self g x h"
    by (auto simp: graph_ancestor_or_self_iff dag_ok_distinct)
  moreover have "\<forall>h \<in> set (heads g). \<forall>y. (y, h) \<notin> parent_rel g"
    by (auto simp: heads_def parent_rel_def Let_def)
  ultimately show ?thesis by blast
qed

fun flip_relation :: "head_relation \<Rightarrow> head_relation" where
  "flip_relation IncomingAhead = IncomingBehind"
| "flip_relation IncomingBehind = IncomingAhead"
| "flip_relation r = r"

text \<open>
  Comparing two heads is structural and consistent from both sides: the answer is an
  error exactly when one of them is unknown, "ahead" and "behind" mean strict descent and
  strict ancestry, "diverged" means neither contains the other, and swapping the heads
  swaps ahead and behind.
\<close>

lemma compare_heads_correct:
  assumes "dag_ok g"
  shows "case compare_heads g l i of
      Inl e \<Rightarrow> e = InvalidTrackedFile \<and> (l \<notin> ids g \<or> i \<notin> ids g)
    | Inr r \<Rightarrow> l \<in> ids g \<and> i \<in> ids g \<and> compare_heads g i l = Ok (flip_relation r)
        \<and> (r = Equal \<longleftrightarrow> l = i)
        \<and> (r = IncomingAhead \<longleftrightarrow> l \<noteq> i \<and> (i, l) \<in> (parent_rel g)\<^sup>*)
        \<and> (r = IncomingBehind \<longleftrightarrow> l \<noteq> i \<and> (l, i) \<in> (parent_rel g)\<^sup>*)
        \<and> (r = Diverged \<longleftrightarrow> (l, i) \<notin> (parent_rel g)\<^sup>* \<and> (i, l) \<notin> (parent_rel g)\<^sup>*)"
  using dag_antisym [OF assms, of l i] graph_ancestor_or_self_iff [OF dag_ok_distinct [OF assms]]
  by (auto simp: compare_heads_def get_None_iff)

section \<open>A diamond\<close>

definition sample_node :: "u8 \<Rightarrow> u8 list \<Rightarrow> stored_revision" where
  "sample_node i ps =
     \<lparr>s_revision = \<lparr>r_revision_id = [i], r_file_id = [], r_parent_revision_ids = map (\<lambda>p. [p]) ps,
        r_content_commitment = [], r_generated_label = [], r_user_label = None, r_author_identity = None,
        r_author_hcp_label = [], r_created_at_utc = [], r_topology_generation = 0, r_policy_hash = []\<rparr>,
      s_payload = None\<rparr>"

text \<open>A root, two edits of it, and a merge of the two; then one more edit.\<close>

definition sample_graph :: graph where
  "sample_graph = [sample_node 1 [], sample_node 2 [1], sample_node 3 [1], sample_node 4 [2, 3], sample_node 5 [2]]"

lemma sample_graph_dag: "dag_ok sample_graph"
  by (simp add: dag_ok_def sample_graph_def sample_node_def)

lemma sample_graph_ids: "ids sample_graph = {[1], [2], [3], [4], [5]}"
  by (simp add: ids_def sample_graph_def sample_node_def)

lemmas sample_eval = sample_graph_def sample_node_def index_of_def

lemma sample_ancestors: "ancestor_set sample_graph [5] = {[1], [2], [5]}"
  by (simp add: ancestor_set_def mark_ancestors_def sample_eval)

lemma sample_base: "merge_base sample_graph [4] [5] = Unique [2]"
  by (simp add: merge_base_def mark_ancestors_def base_step_def Let_def sample_eval)

lemma sample_heads: "heads sample_graph = [[4], [5]]"
  by (simp add: heads_def sample_eval)

lemma sample_compare: "compare_heads sample_graph [4] [5] = Ok Diverged"
  by (simp add: compare_heads_def graph_ancestor_or_self_def get_def sample_eval)

theorem ancestry_is_reachability_witness:
  "([5], [1]) \<in> (parent_rel sample_graph)\<^sup>* \<and> \<not> graph_ancestor_or_self sample_graph [3] [5]"
proof -
  note th = ancestry_is_reachability [OF sample_graph_dag, of "[1]" "[5]"]
  then have eq: "{x. graph_ancestor_or_self sample_graph x [5]} = {[1], [2], [5]}"
    by (simp only: sample_ancestors)
  then have "[1] \<in> {x. graph_ancestor_or_self sample_graph x [5]}"
    and "[3] \<notin> {x. graph_ancestor_or_self sample_graph x [5]}" by (simp_all only: eq) simp_all
  with th show ?thesis by simp
qed

theorem merge_base_correct_witness:
  "nearest_common sample_graph [4] [5] = {[2]} \<and> merge_base sample_graph [5] [4] = Unique [2]"
  using merge_base_correct [OF sample_graph_dag, of "[4]" "[5]" "[2]"] sample_base by simp

end
