(* ===== verification/FilePolicy.thy ===== *)
theory FilePolicy
  imports RevGraph Authority
begin

text \<open>
  The rules revisions of a file are judged by, and the signatures attached to revisions and
  events, as data: \<open>FilePolicy\<close> of \<open>src/file_history/policy.rs\<close>, \<open>RevisionProof\<close> and
  \<open>EventProof\<close> of \<open>src/file_history/proof.rs\<close>, with their codecs. Judging a revision is in
  \<open>Trust\<close>, making signatures in \<open>ProofOps\<close>.
\<close>

section \<open>Requirements and policies\<close>

datatype requirement =
    Forbidden | AuthorSign | AuthorSignDirectParent | AuthorSignBridgeOrOwner | AuthorSignBridgeAndOwner

fun requirement_code :: "requirement \<Rightarrow> u8" where
  "requirement_code Forbidden = 0"
| "requirement_code AuthorSign = 1"
| "requirement_code AuthorSignDirectParent = 2"
| "requirement_code AuthorSignBridgeOrOwner = 3"
| "requirement_code AuthorSignBridgeAndOwner = 4"

fun keyword :: "requirement \<Rightarrow> str" where
  "keyword Forbidden = ''forbidden''"
| "keyword AuthorSign = ''author''"
| "keyword AuthorSignDirectParent = ''author+parent''"
| "keyword AuthorSignBridgeOrOwner = ''author+bridge-or-owner''"
| "keyword AuthorSignBridgeAndOwner = ''author+bridge+owner''"

definition from_keyword :: "str \<Rightarrow> requirement option" where
  "from_keyword word =
     List.find (\<lambda>rule. keyword rule = word)
       [Forbidden, AuthorSign, AuthorSignDirectParent, AuthorSignBridgeOrOwner, AuthorSignBridgeAndOwner]"

fun trusted_because :: "requirement \<Rightarrow> str" where
  "trusted_because Forbidden = ''ROLE_FORBIDDEN''"
| "trusted_because AuthorSign = ''AUTHOR_SIGNATURE''"
| "trusted_because AuthorSignDirectParent = ''AUTHOR_SIGNATURE + REQUIRED_PARENT_COUNTERSIGNATURE''"
| "trusted_because AuthorSignBridgeOrOwner = ''AUTHOR_SIGNATURE + BRIDGE_OR_SCOPE_OWNER_APPROVAL''"
| "trusted_because AuthorSignBridgeAndOwner =
     ''AUTHOR_SIGNATURE + BRIDGE_APPROVAL + SCOPE_OWNER_APPROVAL''"

definition requirement_of_u8 :: "u8 \<Rightarrow> requirement result" where
  "requirement_of_u8 v =
     (if v = 0 then Ok Forbidden else
      if v = 1 then Ok AuthorSign else
      if v = 2 then Ok AuthorSignDirectParent else
      if v = 3 then Ok AuthorSignBridgeOrOwner else
      if v = 4 then Ok AuthorSignBridgeAndOwner else
      Err InvalidTrackedFile)"

record file_policy =
  fp_scope_root :: str
  fp_scope_owner :: requirement
  fp_descendants :: requirement
  fp_ancestors :: requirement
  fp_cross_branch :: requirement
  fp_auto_merge :: bool

definition policy_ok :: "file_policy \<Rightarrow> bool" where
  "policy_ok p \<longleftrightarrow> str_ok (fp_scope_root p)"

definition standard :: "str \<Rightarrow> file_policy" where
  "standard scope_root =
     \<lparr>fp_scope_root = scope_root, fp_scope_owner = AuthorSign, fp_descendants = AuthorSignDirectParent,
      fp_ancestors = AuthorSign, fp_cross_branch = AuthorSignBridgeOrOwner, fp_auto_merge = True\<rparr>"

definition needs_parent :: "requirement \<Rightarrow> bool" where
  "needs_parent rule \<longleftrightarrow> rule = AuthorSignDirectParent"

definition bridge_rule :: "requirement \<Rightarrow> bool" where
  "bridge_rule rule \<longleftrightarrow> rule = AuthorSignBridgeOrOwner \<or> rule = AuthorSignBridgeAndOwner"

definition unwrap_or :: "'a option \<Rightarrow> 'a \<Rightarrow> 'a" where
  "unwrap_or x d = (case x of Some v \<Rightarrow> v | None \<Rightarrow> d)"

definition with_rules ::
    "str \<Rightarrow> requirement option \<Rightarrow> requirement option \<Rightarrow> requirement option \<Rightarrow> requirement option \<Rightarrow> bool
      \<Rightarrow> file_policy result" where
  "with_rules scope_root owner descendants ancestors cross_branch auto_merge =
     (let std = standard scope_root;
          policy = std\<lparr>fp_auto_merge := auto_merge,
            fp_scope_owner := unwrap_or owner (fp_scope_owner std),
            fp_descendants := unwrap_or descendants (fp_descendants std),
            fp_ancestors := unwrap_or ancestors (fp_ancestors std),
            fp_cross_branch := unwrap_or cross_branch (fp_cross_branch std)\<rparr>;
          has_parent = parent_node_label scope_root \<noteq> None in
      if fp_scope_owner policy = Forbidden
         \<or> (needs_parent (fp_ancestors policy) \<and> has_parent)
         \<or> bridge_rule (fp_scope_owner policy)
         \<or> bridge_rule (fp_descendants policy)
         \<or> bridge_rule (fp_ancestors policy)
         \<or> (needs_parent (fp_scope_owner policy) \<and> \<not> has_parent)
         \<or> needs_parent (fp_cross_branch policy)
      then Err InvalidTrackedFile else Ok policy)"

definition policy_bytes :: "file_policy \<Rightarrow> bytes result" where
  "policy_bytes p =
     and_then (push_len_prefixed (as_bytes (fp_scope_root p))) (\<lambda>scope_root.
     Ok (scope_root @ [requirement_code (fp_scope_owner p), requirement_code (fp_descendants p),
           requirement_code (fp_ancestors p), requirement_code (fp_cross_branch p),
           (if fp_auto_merge p then 1 else 0)]))"

definition decode_policy :: "bytes \<Rightarrow> (file_policy \<times> bytes) result" where
  "decode_policy data =
     and_then (take_str data) (\<lambda>(scope_root, data).
     and_then (take_fixed 5 data) (\<lambda>(b, data).
     and_then (requirement_of_u8 (b ! 0)) (\<lambda>owner.
     and_then (requirement_of_u8 (b ! 1)) (\<lambda>descendants.
     and_then (requirement_of_u8 (b ! 2)) (\<lambda>ancestors.
     and_then (requirement_of_u8 (b ! 3)) (\<lambda>cross_branch.
     and_then (if b ! 4 = 0 then Ok False else if b ! 4 = 1 then Ok True
               else Err InvalidTrackedFile) (\<lambda>auto_merge.
     Ok (\<lparr>fp_scope_root = scope_root, fp_scope_owner = owner, fp_descendants = descendants,
          fp_ancestors = ancestors, fp_cross_branch = cross_branch, fp_auto_merge = auto_merge\<rparr>, data))))))))"

definition POLICY_DOMAIN :: bytes where "POLICY_DOMAIN = as_bytes ''KQ-FILE-POLICY-v1''"

definition policy_hash :: "prims \<Rightarrow> file_policy \<Rightarrow> bytes result" where
  "policy_hash P p = and_then (policy_bytes p) (\<lambda>b. Ok (sha256 P (POLICY_DOMAIN @ b)))"

definition requirement_for :: "file_policy \<Rightarrow> str \<Rightarrow> requirement option" where
  "requirement_for p author_label =
     (case relationship (fp_scope_root p) author_label of
        ScopeOwner \<Rightarrow> Some (fp_scope_owner p)
      | Descendant _ _ \<Rightarrow> Some (fp_descendants p)
      | Ancestor _ \<Rightarrow> Some (fp_ancestors p)
      | CrossBranch (Some _) \<Rightarrow> Some (fp_cross_branch p)
      | CrossBranch None \<Rightarrow> None
      | Unrelated \<Rightarrow> None)"

definition may_author :: "file_policy \<Rightarrow> str \<Rightarrow> bool" where
  "may_author p label \<longleftrightarrow>
     (case requirement_for p label of Some requirement \<Rightarrow> requirement \<noteq> Forbidden | None \<Rightarrow> False)"

section \<open>Proofs\<close>

definition MAX_PROOFS_PER_SLOT :: nat where "MAX_PROOFS_PER_SLOT = 8"

datatype proof_kind = Content | Countersignature | Finalization | CoAuthor

fun proof_kind_code :: "proof_kind \<Rightarrow> u8" where
  "proof_kind_code Content = 1"
| "proof_kind_code Countersignature = 2"
| "proof_kind_code Finalization = 3"
| "proof_kind_code CoAuthor = 4"

definition proof_kind_of_u8 :: "u8 \<Rightarrow> proof_kind result" where
  "proof_kind_of_u8 v =
     (if v = 1 then Ok Content else
      if v = 2 then Ok Countersignature else
      if v = 3 then Ok Finalization else
      if v = 4 then Ok CoAuthor else
      Err InvalidTrackedFile)"

record revision_proof =
  p_revision_id :: bytes
  p_kind :: proof_kind
  p_signer_identity :: bytes
  p_signer_label :: str
  p_author_signature_hash :: "bytes option"
  p_topology_generation :: u64
  p_policy_hash :: bytes
  p_signature :: bytes

definition proof_ok :: "revision_proof \<Rightarrow> bool" where
  "proof_ok p \<longleftrightarrow>
     length (p_revision_id p) = 32 \<and> length (p_signer_identity p) = 16 \<and> str_ok (p_signer_label p)
     \<and> opt_sized 32 (p_author_signature_hash p) \<and> length (p_policy_hash p) = 32
     \<and> length (p_signature p) = 64"

definition same_slot :: "revision_proof \<Rightarrow> revision_proof \<Rightarrow> bool" where
  "same_slot p q \<longleftrightarrow>
     p_revision_id p = p_revision_id q \<and> p_kind p = p_kind q \<and> p_signer_label p = p_signer_label q"

definition signature_hash :: "prims \<Rightarrow> revision_proof \<Rightarrow> bytes" where
  "signature_hash P p = sha256 P (p_signature p)"

definition proof_preimage :: "prims \<Rightarrow> revision_proof \<Rightarrow> file_revision \<Rightarrow> bytes result" where
  "proof_preimage P p revision =
     (case (p_kind p, p_author_signature_hash p, r_author_identity revision) of
        (Content, None, _) \<Rightarrow>
          Ok (file_revision_preimage P (r_file_id revision) (r_revision_id revision)
                (r_content_commitment revision) (p_signer_identity p) (p_topology_generation p)
                (p_policy_hash p))
      | (Countersignature, Some author_hash, Some author) \<Rightarrow>
          file_countersign_preimage P (r_file_id revision) (r_revision_id revision) author author_hash
            (p_signer_identity p) (p_signer_label p) (p_topology_generation p) (p_policy_hash p)
      | (CoAuthor, Some author_hash, Some author) \<Rightarrow>
          file_coauthor_preimage P (r_file_id revision) (r_revision_id revision) author author_hash
            (p_signer_identity p) (p_signer_label p) (p_topology_generation p) (p_policy_hash p)
      | (Finalization, None, _) \<Rightarrow>
          file_finalize_preimage P (r_file_id revision) (r_revision_id revision)
            (p_signer_identity p) (p_signer_label p) (p_topology_generation p) (p_policy_hash p)
      | _ \<Rightarrow> Err InvalidTrackedFile)"

definition encode_proof :: "revision_proof \<Rightarrow> bytes result" where
  "encode_proof p =
     and_then (push_str (p_signer_label p)) (\<lambda>label.
     Ok (p_revision_id p @ [proof_kind_code (p_kind p)] @ p_signer_identity p @ label
         @ push_opt_array (p_author_signature_hash p) @ push_u64 (p_topology_generation p)
         @ p_policy_hash p @ p_signature p))"

definition decode_proof :: "bytes \<Rightarrow> (revision_proof \<times> bytes) result" where
  "decode_proof data =
     and_then (take_fixed 32 data) (\<lambda>(revision_id, data).
     and_then (take_fixed 1 data) (\<lambda>(k, data).
     and_then (proof_kind_of_u8 (hd k)) (\<lambda>kind.
     and_then (take_fixed 16 data) (\<lambda>(signer_identity, data).
     and_then (take_str data) (\<lambda>(signer_label, data).
     and_then (take_opt_array 32 data) (\<lambda>(author_signature_hash, data).
     and_then (take_u64 data) (\<lambda>(topology_generation, data).
     and_then (take_fixed 32 data) (\<lambda>(policy_hash, data).
     and_then (take_fixed 64 data) (\<lambda>(signature, data).
     Ok (\<lparr>p_revision_id = revision_id, p_kind = kind, p_signer_identity = signer_identity,
          p_signer_label = signer_label, p_author_signature_hash = author_signature_hash,
          p_topology_generation = topology_generation, p_policy_hash = policy_hash,
          p_signature = signature\<rparr>, data))))))))))"

record event_proof =
  ep_sequence :: u64
  ep_signer_identity :: bytes
  ep_signer_label :: str
  ep_signature :: bytes

definition event_proof_ok :: "event_proof \<Rightarrow> bool" where
  "event_proof_ok p \<longleftrightarrow>
     length (ep_signer_identity p) = 16 \<and> str_ok (ep_signer_label p) \<and> length (ep_signature p) = 64"

definition encode_event_proof :: "event_proof \<Rightarrow> bytes result" where
  "encode_event_proof p =
     and_then (push_str (ep_signer_label p)) (\<lambda>label.
     Ok (push_u64 (ep_sequence p) @ ep_signer_identity p @ label @ ep_signature p))"

definition decode_event_proof :: "bytes \<Rightarrow> (event_proof \<times> bytes) result" where
  "decode_event_proof data =
     and_then (take_u64 data) (\<lambda>(sequence, data).
     and_then (take_fixed 16 data) (\<lambda>(signer_identity, data).
     and_then (take_str data) (\<lambda>(signer_label, data).
     and_then (take_fixed 64 data) (\<lambda>(signature, data).
     Ok (\<lparr>ep_sequence = sequence, ep_signer_identity = signer_identity,
          ep_signer_label = signer_label, ep_signature = signature\<rparr>, data)))))"

definition event_preimage :: "prims \<Rightarrow> bytes \<Rightarrow> history_event \<Rightarrow> bytes" where
  "event_preimage P file_id event =
     file_history_event_preimage P file_id (e_revision_id event) (e_sequence event)
       (e_previous_event_hash event) (e_event_hash event)"

section \<open>Codecs\<close>

lemma requirement_of_code [simp]: "requirement_of_u8 (requirement_code r) = Ok r"
  by (cases r) (simp_all add: requirement_of_u8_def)

lemma requirement_of_u8_OkD: "requirement_of_u8 v = Ok r \<Longrightarrow> v = requirement_code r"
  by (auto simp: requirement_of_u8_def split: if_splits)

lemma proof_kind_of_code [simp]: "proof_kind_of_u8 (proof_kind_code k) = Ok k"
  by (cases k) (simp_all add: proof_kind_of_u8_def)

lemma proof_kind_of_u8_OkD: "proof_kind_of_u8 v = Ok k \<Longrightarrow> v = proof_kind_code k"
  by (auto simp: proof_kind_of_u8_def split: if_splits)

lemma take_fixed_5 [codec_simps]:
  "take_fixed 5 (a # b # c # d # e # rest) = Ok ([a, b, c, d, e], rest)"
  using take_fixed_append [of "[a, b, c, d, e]" 5 rest] by simp

lemma length_5: "length xs = 5 \<Longrightarrow> xs = [xs ! 0, xs ! 1, xs ! 2, xs ! 3, xs ! 4]"
  by (cases xs; cases "tl xs"; cases "tl (tl xs)"; cases "tl (tl (tl xs))"; cases "tl (tl (tl (tl xs)))") auto

interpretation policy_codec: canonical_codec policy_bytes decode_policy policy_ok
proof unfold_locales
  fix p e rest
  assume "policy_ok p" and "policy_bytes p = Ok e"
  then obtain s where s: "push_str (fp_scope_root p) = Ok s" and ok: "str_ok (fp_scope_root p)"
    and e: "e = s @ [requirement_code (fp_scope_owner p), requirement_code (fp_descendants p),
           requirement_code (fp_ancestors p), requirement_code (fp_cross_branch p),
           (if fp_auto_merge p then 1 else 0)]"
    by (auto simp: policy_bytes_def policy_ok_def push_str_def)
  show "decode_policy (e @ rest) = Ok (p, rest)"
    by (simp add: e decode_policy_def take_str_push [OF s ok] codec_simps)
next
  fix data p rest
  assume "decode_policy data = Ok (p, rest)"
  then obtain s d b where s: "take_str data = Ok (s, d)" and b: "take_fixed 5 d = Ok (b, rest)"
    and root: "fp_scope_root p = s"
    and codes: "b ! 0 = requirement_code (fp_scope_owner p)" "b ! 1 = requirement_code (fp_descendants p)"
      "b ! 2 = requirement_code (fp_ancestors p)" "b ! 3 = requirement_code (fp_cross_branch p)"
      "b ! 4 = (if fp_auto_merge p then 1 else 0)"
    by (auto simp: decode_policy_def dest!: requirement_of_u8_OkD split: if_splits)
  from take_fixed_OkD [OF b] have d: "d = b @ rest" and "length b = 5" by auto
  with length_5 [of b] codes have "b = [requirement_code (fp_scope_owner p), requirement_code (fp_descendants p),
      requirement_code (fp_ancestors p), requirement_code (fp_cross_branch p),
      (if fp_auto_merge p then 1 else 0)]" by simp
  with take_str_OkD [OF s] d root show "\<exists>e. policy_bytes p = Ok e \<and> data = e @ rest \<and> policy_ok p"
    by (auto simp: policy_bytes_def policy_ok_def push_str_def)
qed

interpretation proof_codec: canonical_codec encode_proof decode_proof proof_ok
proof unfold_locales
  fix p e rest
  assume ok: "proof_ok p" and "encode_proof p = Ok e"
  then obtain l where l: "push_str (p_signer_label p) = Ok l"
    and e: "e = p_revision_id p @ [proof_kind_code (p_kind p)] @ p_signer_identity p @ l
         @ push_opt_array (p_author_signature_hash p) @ push_u64 (p_topology_generation p)
         @ p_policy_hash p @ p_signature p"
    by (auto simp: encode_proof_def)
  from ok show "decode_proof (e @ rest) = Ok (p, rest)"
    by (simp add: e decode_proof_def proof_ok_def take_str_push [OF l] codec_simps)
next
  fix data p rest
  assume "decode_proof data = Ok (p, rest)"
  then show "\<exists>e. encode_proof p = Ok e \<and> data = e @ rest \<and> proof_ok p"
    by (auto simp: decode_proof_def encode_proof_def proof_ok_def length_Suc_conv
        dest!: field_decoded proof_kind_of_u8_OkD)
qed

interpretation event_proof_codec: canonical_codec encode_event_proof decode_event_proof event_proof_ok
proof unfold_locales
  fix p e rest
  assume ok: "event_proof_ok p" and "encode_event_proof p = Ok e"
  then obtain l where l: "push_str (ep_signer_label p) = Ok l"
    and e: "e = push_u64 (ep_sequence p) @ ep_signer_identity p @ l @ ep_signature p"
    by (auto simp: encode_event_proof_def)
  from ok show "decode_event_proof (e @ rest) = Ok (p, rest)"
    by (simp add: e decode_event_proof_def event_proof_ok_def take_str_push [OF l] codec_simps)
next
  fix data p rest
  assume "decode_event_proof data = Ok (p, rest)"
  then show "\<exists>e. encode_event_proof p = Ok e \<and> data = e @ rest \<and> event_proof_ok p"
    by (auto simp: decode_event_proof_def encode_event_proof_def event_proof_ok_def dest!: field_decoded)
qed

end
