(* ===== verification/Container.thy ===== *)
theory Container
  imports FilePolicy
begin

text \<open>
  The tracked file, \<open>src/file_history/container.rs\<close>, with the structural verification of
  \<open>src/file_history/verify.rs\<close>: revisions, proofs, events and event proofs of one file, the
  operations that extend them, and the \<open>KQTF\<close> encoding. A method that changes the file
  returns its result and the file it leaves, also on an error.
\<close>

section \<open>Tracked files\<close>

record tracked_file =
  tf_file_id :: bytes
  tf_logical_name :: str
  tf_revisions :: graph
  tf_proofs :: "revision_proof list"
  tf_events :: "history_event list"
  tf_event_proofs :: "event_proof list"
  tf_policy :: "file_policy option"

definition new_file :: "bytes \<Rightarrow> str \<Rightarrow> tracked_file" where
  "new_file file_id logical_name =
     \<lparr>tf_file_id = file_id, tf_logical_name = logical_name, tf_revisions = [], tf_proofs = [],
      tf_events = [], tf_event_proofs = [], tf_policy = None\<rparr>"

definition with_policy :: "bytes \<Rightarrow> str \<Rightarrow> file_policy \<Rightarrow> tracked_file" where
  "with_policy file_id logical_name policy = (new_file file_id logical_name)\<lparr>tf_policy := Some policy\<rparr>"

text \<open>
  An event records this container's own destruction unless it names a \<open>gate\<close>, which is
  the purge of a linked file.
\<close>

definition destroys_this_content :: "history_event \<Rightarrow> bool" where
  "destroys_this_content event \<longleftrightarrow>
     e_event_type event = ContentDestroyed \<and> \<not> list_ex (\<lambda>(key, _). key = ''gate'') (e_details event)"

definition is_destroyed :: "tracked_file \<Rightarrow> bool" where
  "is_destroyed f = list_ex destroys_this_content (tf_events f)"

definition history_root :: "prims \<Rightarrow> tracked_file \<Rightarrow> bytes" where
  "history_root P f =
     (if tf_events f = [] then genesis_hash P (tf_file_id f) else e_event_hash (last (tf_events f)))"

definition passes_through :: "prims \<Rightarrow> tracked_file \<Rightarrow> bytes \<Rightarrow> bool" where
  "passes_through P f root \<longleftrightarrow>
     root = genesis_hash P (tf_file_id f) \<or> list_ex (\<lambda>e. e_event_hash e = root) (tf_events f)"

text \<open>No parent repeats an earlier one (the \<open>enumerate\<close> check of \<open>check_in\<close>).\<close>

fun no_repeat :: "bytes list \<Rightarrow> bytes list \<Rightarrow> bool" where
  "no_repeat earlier [] = True"
| "no_repeat earlier (p # ps) = (p \<notin> set earlier \<and> no_repeat (earlier @ [p]) ps)"

definition check_in :: "prims \<Rightarrow> new_revision \<Rightarrow> bytes \<Rightarrow> (tracked_file, bytes) op" where
  "check_in P new payload f =
     (let parents = nr_parent_revision_ids new; g = tf_revisions f in
      if is_destroyed f then (Err FileExpired, f)
      else if (parents = []) \<noteq> (g = []) \<or> \<not> list_all (\<lambda>p. get g p \<noteq> None) parents \<or> \<not> no_repeat [] parents
        then (Err InvalidTrackedFile, f)
      else case create_revision P (tf_file_id f) (tf_logical_name f) payload new of
        Inl e \<Rightarrow> (Err e, f)
      | Inr revision \<Rightarrow>
          if get g (r_revision_id revision) \<noteq> None then (Err InvalidTrackedFile, f)
          else (Ok (r_revision_id revision),
                f\<lparr>tf_revisions := g @ [\<lparr>s_revision = revision, s_payload = Some payload\<rparr>]\<rparr>))"

definition append_event :: "prims \<Rightarrow> new_event \<Rightarrow> (tracked_file, history_event) op" where
  "append_event P new f =
     (case verify_chain P (tf_file_id f) (tf_events f) of
        Inl e \<Rightarrow> (Err e, f)
      | Inr _ \<Rightarrow>
          if unsafe_key (n_details new) \<noteq> None then (Err InvalidTrackedFile, f)
          else if (case n_revision_id new of Some i \<Rightarrow> get (tf_revisions f) i = None | None \<Rightarrow> False)
            then (Err InvalidTrackedFile, f)
          else case seal_event P (fresh_id P (length (tf_events f))) (word_of_nat (length (tf_events f)))
                      (tf_file_id f) (history_root P f) new of
            Inl e \<Rightarrow> (Err e, f)
          | Inr event \<Rightarrow> (Ok event, f\<lparr>tf_events := tf_events f @ [event]\<rparr>))"

section \<open>Structural verification\<close>

text \<open>The first loop: \<open>seen\<close> holds the ids of the revisions before this one.\<close>

fun check_revisions :: "prims \<Rightarrow> bytes \<Rightarrow> bytes list \<Rightarrow> nat \<Rightarrow> graph \<Rightarrow> bytes list result" where
  "check_revisions P file_id seen index [] = Ok seen"
| "check_revisions P file_id seen index (stored # revisions) =
     (let revision = s_revision stored; parents = r_parent_revision_ids revision in
      if r_file_id revision \<noteq> file_id then Err InvalidTrackedFile
      else and_then (compute_id P revision) (\<lambda>i.
        if i = r_revision_id revision
           \<and> generated_label_is_consistent P revision
           \<and> r_revision_id revision \<notin> set seen
           \<and> list_all (\<lambda>p. p \<in> set seen) parents
           \<and> card (set parents) = length parents
           \<and> (index = 0) = (parents = [])
           \<and> (case s_payload stored of None \<Rightarrow> True
              | Some payload \<Rightarrow> r_content_commitment revision = content_commitment P file_id payload)
        then check_revisions P file_id (r_revision_id revision # seen) (Suc index) revisions
        else Err InvalidTrackedFile))"

definition proof_well_formed :: "file_revision \<Rightarrow> revision_proof \<Rightarrow> bool" where
  "proof_well_formed revision p =
     (case p_kind p of
        Content \<Rightarrow>
          p_author_signature_hash p = None \<and> p_signer_label p = r_author_hcp_label revision
          \<and> Some (p_signer_identity p) = r_author_identity revision
      | Countersignature \<Rightarrow> p_author_signature_hash p \<noteq> None
      | Finalization \<Rightarrow> p_author_signature_hash p = None
      | CoAuthor \<Rightarrow>
          p_author_signature_hash p \<noteq> None \<and> p_signer_label p \<noteq> r_author_hcp_label revision
          \<and> Some (p_signer_identity p) \<noteq> r_author_identity revision)"

definition slot_key :: "revision_proof \<Rightarrow> bytes \<times> u8 \<times> str" where
  "slot_key p = (p_revision_id p, proof_kind_code (p_kind p), p_signer_label p)"

text \<open>The second loop: \<open>slots\<close> maps a slot to the signatures already seen in it.\<close>

fun check_proofs :: "graph \<Rightarrow> (bytes \<times> u8 \<times> str \<Rightarrow> bytes list) \<Rightarrow> revision_proof list \<Rightarrow> unit result" where
  "check_proofs g slots [] = Ok ()"
| "check_proofs g slots (p # ps) =
     (case index_of g (p_revision_id p) of
        None \<Rightarrow> Err InvalidTrackedFile
      | Some position \<Rightarrow>
          let earlier = slots (slot_key p) in
          if \<not> proof_well_formed (s_revision (g ! position)) p
             \<or> p_signature p \<in> set earlier \<or> length earlier \<ge> MAX_PROOFS_PER_SLOT
          then Err InvalidTrackedFile
          else check_proofs g (slots(slot_key p := earlier @ [p_signature p])) ps)"

definition event_at :: "history_event list \<Rightarrow> u64 \<Rightarrow> history_event option" where
  "event_at events sequence =
     (if unat sequence < length events then Some (events ! unat sequence) else None)"

definition event_proof_by_actor :: "history_event list \<Rightarrow> event_proof \<Rightarrow> bool" where
  "event_proof_by_actor events p \<longleftrightarrow>
     (case event_at events (ep_sequence p) of
        None \<Rightarrow> False
      | Some event \<Rightarrow> e_actor_label event = Some (ep_signer_label p)
                    \<and> e_actor_identity event = Some (ep_signer_identity p))"

fun check_event_proofs :: "history_event list \<Rightarrow> (u64 \<times> str) list \<Rightarrow> event_proof list \<Rightarrow> unit result" where
  "check_event_proofs events already [] = Ok ()"
| "check_event_proofs events already (p # ps) =
     (if event_proof_by_actor events p \<and> (ep_sequence p, ep_signer_label p) \<notin> set already
      then check_event_proofs events ((ep_sequence p, ep_signer_label p) # already) ps
      else Err InvalidTrackedFile)"

definition verify_structure :: "prims \<Rightarrow> tracked_file \<Rightarrow> bytes result" where
  "verify_structure P f =
     and_then (check_revisions P (tf_file_id f) [] 0 (tf_revisions f)) (\<lambda>seen.
     and_then (check_proofs (tf_revisions f) (\<lambda>_. []) (tf_proofs f)) (\<lambda>_.
     let destroyed = list_ex destroys_this_content (tf_events f);
         any_payload = list_ex (\<lambda>s. s_payload s \<noteq> None) (tf_revisions f);
         all_payloads = list_all (\<lambda>s. s_payload s \<noteq> None) (tf_revisions f) in
     if (destroyed \<and> any_payload) \<or> (\<not> destroyed \<and> \<not> all_payloads) then Err InvalidTrackedFile
     else if list_ex (\<lambda>e. case e_revision_id e of Some i \<Rightarrow> i \<notin> set seen | None \<Rightarrow> False) (tf_events f)
     then Err InvalidTrackedFile
     else and_then (check_event_proofs (tf_events f) [] (tf_event_proofs f)) (\<lambda>_.
       verify_chain P (tf_file_id f) (tf_events f))))"

definition verify_tracked_file :: "prims \<Rightarrow> tracked_file \<Rightarrow> bytes result" where
  "verify_tracked_file P f = verify_structure P f"

section \<open>The container encoding\<close>

definition CONTAINER_MAGIC :: bytes where "CONTAINER_MAGIC = as_bytes ''KQTF''"
definition CONTAINER_VERSION :: u8 where "CONTAINER_VERSION = 8"

definition has_kind :: "proof_kind \<Rightarrow> revision_proof list \<Rightarrow> bool" where
  "has_kind k ps = list_ex (\<lambda>p. p_kind p = k) ps"

definition container_version :: "tracked_file \<Rightarrow> u8" where
  "container_version f =
     (if has_kind CoAuthor (tf_proofs f) then 8
      else if tf_event_proofs f \<noteq> [] then 7
      else if has_kind Finalization (tf_proofs f) then 6
      else 5)"

definition count_u32 :: "'a list \<Rightarrow> bytes result" where
  "count_u32 xs = (if length xs < 2 ^ 32 then Ok (to_be 4 (length xs)) else Err BundleFieldTooLarge)"

definition encode_unchecked :: "prims \<Rightarrow> tracked_file \<Rightarrow> bytes result" where
  "encode_unchecked P f =
     and_then (count_u32 (tf_events f)) (\<lambda>count.
     and_then (push_len_prefixed (as_bytes (tf_logical_name f))) (\<lambda>name.
     and_then (case tf_policy f of
         Some policy \<Rightarrow> and_then (policy_bytes policy) (\<lambda>b. Ok (1 # b)) | None \<Rightarrow> Ok [0]) (\<lambda>policy.
     and_then (count_u32 (tf_revisions f)) (\<lambda>revision_count.
     and_then (encode_all encode_stored (tf_revisions f)) (\<lambda>revisions.
     and_then (count_u32 (tf_proofs f)) (\<lambda>proof_count.
     and_then (encode_all encode_proof (tf_proofs f)) (\<lambda>proofs.
     and_then (encode_all encode_event (tf_events f)) (\<lambda>events.
     and_then
       (if container_version f \<ge> 7 then
          and_then (count_u32 (tf_event_proofs f)) (\<lambda>n.
          and_then (encode_all encode_event_proof (tf_event_proofs f)) (\<lambda>ps. Ok (n @ ps)))
        else Ok []) (\<lambda>event_proofs.
     Ok (CONTAINER_MAGIC @ [container_version f] @ tf_file_id f @ name @ history_root P f @ policy
         @ revision_count @ revisions @ proof_count @ proofs @ count @ events @ event_proofs))))))))))"

definition encode_file :: "prims \<Rightarrow> tracked_file \<Rightarrow> bytes result" where
  "encode_file P f = and_then (verify_structure P f) (\<lambda>_. encode_unchecked P f)"

definition take_count :: "bytes \<Rightarrow> (nat \<times> bytes) result" where
  "take_count data = bad (take_u32 data)"

definition decode_opt_policy :: "bytes \<Rightarrow> (file_policy option \<times> bytes) result" where
  "decode_opt_policy data =
     and_then (take_fixed 1 data) (\<lambda>(flag, data).
     if hd flag = 0 then Ok (None, data)
     else if hd flag = 1 then and_then (decode_policy data) (\<lambda>(p, data). Ok (Some p, data))
     else Err InvalidTrackedFile)"

definition decode_event_proofs :: "u8 \<Rightarrow> bytes \<Rightarrow> (event_proof list \<times> bytes) result" where
  "decode_event_proofs version data =
     (if version \<ge> 7 then
        and_then (take_count data) (\<lambda>(n, data).
        if n = 0 \<and> version = 7 then Err InvalidTrackedFile
        else decode_many decode_event_proof n data)
      else Ok ([], data))"

definition decode_file :: "prims \<Rightarrow> bytes \<Rightarrow> tracked_file result" where
  "decode_file P bs =
     and_then (take_fixed 4 bs) (\<lambda>(m, data).
     if m \<noteq> CONTAINER_MAGIC then Err InvalidTrackedFile else
     and_then (take_fixed 1 data) (\<lambda>(v, data).
     let version = hd v in
     if \<not> (4 \<le> version \<and> version \<le> CONTAINER_VERSION) then Err InvalidTrackedFile else
     and_then (take_fixed 16 data) (\<lambda>(file_id, data).
     and_then (take_str data) (\<lambda>(logical_name, data).
     and_then (take_fixed 32 data) (\<lambda>(stored_root, data).
     and_then (decode_opt_policy data) (\<lambda>(policy, data).
     and_then (take_count data) (\<lambda>(revision_count, data).
     and_then (decode_many (decode_stored version) revision_count data) (\<lambda>(revisions, data).
     and_then (take_count data) (\<lambda>(proof_count, data).
     and_then (decode_many decode_proof proof_count data) (\<lambda>(proofs, data).
     if version < 6 \<and> has_kind Finalization proofs then Err InvalidTrackedFile else
     if has_kind CoAuthor proofs \<noteq> (version = 8) then Err InvalidTrackedFile else
     and_then (take_count data) (\<lambda>(count, data).
     and_then (decode_many decode_event count data) (\<lambda>(events, data).
     and_then (decode_event_proofs version data) (\<lambda>(event_proofs, data).
     let file = \<lparr>tf_file_id = file_id, tf_logical_name = logical_name, tf_revisions = revisions,
           tf_proofs = proofs, tf_events = events, tf_event_proofs = event_proofs,
           tf_policy = policy\<rparr> in
     if data \<noteq> [] then Err InvalidTrackedFile else
     and_then (verify_structure P file) (\<lambda>root.
     if root \<noteq> stored_root then Err InvalidTrackedFile else Ok file))))))))))))))"

end
