(* ===== verification/ContainerFacts.thy ===== *)
theory ContainerFacts
  imports Container
begin

text \<open>
  What structural verification of a tracked file means, stated without the loops of
  \<open>src/file_history/verify.rs\<close>, and that appending an event and checking in a revision keep it.
\<close>

section \<open>What verification checks\<close>

text \<open>
  The loops of \<open>verify_structure\<close>, stated as properties of the whole lists. The lemma
  \<open>verify_structure_iff\<close> says that the loops check exactly these.
\<close>

definition revision_valid :: "prims \<Rightarrow> bytes \<Rightarrow> stored_revision \<Rightarrow> bool" where
  "revision_valid P file_id s \<longleftrightarrow>
     r_file_id (s_revision s) = file_id \<and> compute_id P (s_revision s) = Ok (rev_id s)
     \<and> generated_label_is_consistent P (s_revision s) \<and> distinct (rev_parents s)
     \<and> (case s_payload s of None \<Rightarrow> True
        | Some payload \<Rightarrow> r_content_commitment (s_revision s) = content_commitment P file_id payload)"

definition single_root :: "graph \<Rightarrow> bool" where
  "single_root g \<longleftrightarrow>
     (case g of [] \<Rightarrow> True | s # r \<Rightarrow> rev_parents s = [] \<and> list_all (\<lambda>s. rev_parents s \<noteq> []) r)"

definition revisions_ok :: "prims \<Rightarrow> bytes \<Rightarrow> graph \<Rightarrow> bool" where
  "revisions_ok P file_id g \<longleftrightarrow> dag_ok g \<and> single_root g \<and> list_all (revision_valid P file_id) g"

definition slot_signatures :: "bytes \<times> u8 \<times> str \<Rightarrow> revision_proof list \<Rightarrow> bytes list" where
  "slot_signatures k ps = map p_signature (filter (\<lambda>p. slot_key p = k) ps)"

definition proof_known :: "graph \<Rightarrow> revision_proof \<Rightarrow> bool" where
  "proof_known g p \<longleftrightarrow>
     (case get g (p_revision_id p) of None \<Rightarrow> False | Some s \<Rightarrow> proof_well_formed (s_revision s) p)"

definition proofs_ok :: "graph \<Rightarrow> revision_proof list \<Rightarrow> bool" where
  "proofs_ok g ps \<longleftrightarrow>
     list_all (proof_known g) ps
     \<and> (\<forall>k. distinct (slot_signatures k ps) \<and> length (slot_signatures k ps) \<le> MAX_PROOFS_PER_SLOT)"

definition payloads_ok :: "tracked_file \<Rightarrow> bool" where
  "payloads_ok f \<longleftrightarrow> list_all (\<lambda>s. (s_payload s = None) = is_destroyed f) (tf_revisions f)"

definition events_known :: "graph \<Rightarrow> history_event list \<Rightarrow> bool" where
  "events_known g es \<longleftrightarrow> list_all (\<lambda>e. case e_revision_id e of Some i \<Rightarrow> i \<in> ids g | None \<Rightarrow> True) es"

definition event_proofs_ok :: "history_event list \<Rightarrow> event_proof list \<Rightarrow> bool" where
  "event_proofs_ok es ps \<longleftrightarrow>
     list_all (event_proof_by_actor es) ps \<and> distinct (map (\<lambda>p. (ep_sequence p, ep_signer_label p)) ps)"

lemma card_set_length: "card (set xs) = length xs \<longleftrightarrow> distinct xs"
  by (auto simp: distinct_card dest: card_distinct)

lemma check_revisions_Suc:
  "check_revisions P file_id seen (Suc n) g = Ok s \<longleftrightarrow>
     parents_first seen g \<and> list_all (\<lambda>s. rev_parents s \<noteq> []) g \<and> list_all (revision_valid P file_id) g
     \<and> s = rev (map rev_id g) @ seen"
proof (induction g arbitrary: seen n)
  case (Cons st g)
  show ?case
  proof (cases "compute_id P (s_revision st)")
    case (Inl e)
    then show ?thesis by (simp add: Let_def revision_valid_def)
  next
    case (Inr i)
    then show ?thesis
      by (auto simp: Let_def Cons.IH revision_valid_def card_set_length)
  qed
qed auto

lemma check_revisions_iff:
  "check_revisions P file_id [] 0 g = Ok s \<longleftrightarrow> revisions_ok P file_id g \<and> s = rev (map rev_id g)"
proof (cases g)
  case (Cons st r)
  show ?thesis
  proof (cases "compute_id P (s_revision st)")
    case (Inl e)
    then show ?thesis by (simp add: Cons Let_def revisions_ok_def revision_valid_def)
  next
    case (Inr i)
    then show ?thesis
      by (auto simp: Cons Let_def check_revisions_Suc revisions_ok_def dag_ok_def single_root_def
          revision_valid_def card_set_length)
  qed
qed (auto simp: revisions_ok_def dag_ok_def single_root_def)

lemma proof_known_index:
  assumes "distinct (map rev_id g)"
  shows "proof_known g p \<longleftrightarrow>
    (\<exists>i. index_of g (p_revision_id p) = Some i \<and> proof_well_formed (s_revision (g ! i)) p)"
proof (cases "index_of g (p_revision_id p)")
  case None
  then have "get g (p_revision_id p) = None" by (simp add: get_None_iff flip: index_of_None_iff)
  with None show ?thesis by (simp add: proof_known_def)
next
  case (Some i)
  then have "get g (p_revision_id p) = Some (g ! i)"
    using assms by (auto simp: get_Some_iff dest: index_of_SomeD)
  with Some show ?thesis by (simp add: proof_known_def)
qed

lemma slot_signatures_Cons:
  "slot_signatures k (p # ps) = (if slot_key p = k then [p_signature p] else []) @ slot_signatures k ps"
  by (simp add: slot_signatures_def)

lemma check_proofs_iff:
  assumes "distinct (map rev_id g)"
  shows "\<forall>k. distinct (slots k) \<and> length (slots k) \<le> MAX_PROOFS_PER_SLOT \<Longrightarrow>
    check_proofs g slots ps = Ok () \<longleftrightarrow>
      list_all (proof_known g) ps
      \<and> (\<forall>k. distinct (slots k @ slot_signatures k ps)
            \<and> length (slots k @ slot_signatures k ps) \<le> MAX_PROOFS_PER_SLOT)"
proof (induction ps arbitrary: slots)
  case Nil
  then show ?case by (simp add: slot_signatures_def)
next
  case (Cons p ps)
  let ?k = "slot_key p"
  let ?s = "slots(?k := slots ?k @ [p_signature p])"
  let ?ok = "\<lambda>sl qs. \<forall>k. distinct (sl k @ slot_signatures k qs)
     \<and> length (sl k @ slot_signatures k qs) \<le> MAX_PROOFS_PER_SLOT"
  let ?free = "p_signature p \<notin> set (slots ?k) \<and> length (slots ?k) < MAX_PROOFS_PER_SLOT"
  have "?s k @ slot_signatures k ps = slots k @ slot_signatures k (p # ps)" for k
    by (simp add: slot_signatures_Cons)
  then have same: "?ok ?s ps \<longleftrightarrow> ?ok slots (p # ps)" by simp
  have free: "?free" if "?ok slots (p # ps)"
    using spec [OF that, of ?k] by (simp add: slot_signatures_Cons)
  have step: "check_proofs g slots (p # ps) = Ok () \<longleftrightarrow>
      proof_known g p \<and> ?free \<and> check_proofs g ?s ps = Ok ()"
    by (cases "index_of g (p_revision_id p)")
       (auto simp: proof_known_index [OF assms] Let_def not_le)
  show ?case
  proof (cases ?free)
    case True
    have "distinct (?s k) \<and> length (?s k) \<le> MAX_PROOFS_PER_SLOT" for k
      using spec [OF Cons.prems, of k] True by (cases "k = ?k") auto
    then have "\<forall>k. distinct (?s k) \<and> length (?s k) \<le> MAX_PROOFS_PER_SLOT" by blast
    note ih = Cons.IH [OF this]
    show ?thesis unfolding step ih same list.pred_inject using True by blast
  next
    case False
    with free show ?thesis unfolding step by blast
  qed
qed

lemma check_event_proofs_iff:
  "check_event_proofs es al ps = Ok () \<longleftrightarrow>
     list_all (event_proof_by_actor es) ps
     \<and> distinct (map (\<lambda>p. (ep_sequence p, ep_signer_label p)) ps)
     \<and> (\<forall>p \<in> set ps. (ep_sequence p, ep_signer_label p) \<notin> set al)"
  by (induction ps arbitrary: al) (auto simp: image_iff)

lemma payloads_iff:
  "payloads_ok f \<longleftrightarrow>
     \<not> ((is_destroyed f \<and> list_ex (\<lambda>s. s_payload s \<noteq> None) (tf_revisions f))
        \<or> (\<not> is_destroyed f \<and> \<not> list_all (\<lambda>s. s_payload s \<noteq> None) (tf_revisions f)))"
  by (auto simp: payloads_ok_def list_all_iff list_ex_iff)

lemma events_known_iff:
  "set seen = ids g \<Longrightarrow> events_known g es \<longleftrightarrow>
     \<not> list_ex (\<lambda>e. case e_revision_id e of Some i \<Rightarrow> i \<notin> set seen | None \<Rightarrow> False) es"
  by (auto simp: events_known_def list_all_iff list_ex_iff split: option.splits)

lemma verify_structure_iff:
  "verify_structure P f = Ok root \<longleftrightarrow>
     revisions_ok P (tf_file_id f) (tf_revisions f) \<and> proofs_ok (tf_revisions f) (tf_proofs f)
     \<and> payloads_ok f \<and> events_known (tf_revisions f) (tf_events f)
     \<and> event_proofs_ok (tf_events f) (tf_event_proofs f)
     \<and> verify_chain P (tf_file_id f) (tf_events f) = Ok root"
proof (cases "revisions_ok P (tf_file_id f) (tf_revisions f)")
  case False
  then have "\<forall>s. check_revisions P (tf_file_id f) [] 0 (tf_revisions f) \<noteq> Ok s"
    by (simp add: check_revisions_iff)
  with False show ?thesis by (auto simp: verify_structure_def)
next
  case True
  then have seen: "check_revisions P (tf_file_id f) [] 0 (tf_revisions f) = Ok (rev (map rev_id (tf_revisions f)))"
    by (simp add: check_revisions_iff)
  have d: "distinct (map rev_id (tf_revisions f))" using True by (simp add: revisions_ok_def dag_ok_distinct)
  have proofs: "check_proofs (tf_revisions f) (\<lambda>_. []) (tf_proofs f) = Ok () \<longleftrightarrow>
      proofs_ok (tf_revisions f) (tf_proofs f)"
    using check_proofs_iff [OF d, of "\<lambda>_. []"] by (simp add: proofs_ok_def)
  have eps: "check_event_proofs (tf_events f) [] (tf_event_proofs f) = Ok () \<longleftrightarrow>
      event_proofs_ok (tf_events f) (tf_event_proofs f)"
    by (simp add: check_event_proofs_iff event_proofs_ok_def)
  have known: "events_known (tf_revisions f) (tf_events f) \<longleftrightarrow>
      \<not> list_ex (\<lambda>e. case e_revision_id e of Some i \<Rightarrow> i \<notin> set (rev (map rev_id (tf_revisions f))) | None \<Rightarrow> False)
          (tf_events f)"
    by (rule events_known_iff) (simp add: ids_def)
  show ?thesis
    unfolding verify_structure_def seen and_then_simps Let_def payloads_iff known is_destroyed_def [symmetric]
    by (simp add: True and_then_Ok_iff proofs eps)
qed

section \<open>Type invariant\<close>

definition file_ok :: "tracked_file \<Rightarrow> bool" where
  "file_ok f \<longleftrightarrow>
     length (tf_file_id f) = 16 \<and> str_ok (tf_logical_name f) \<and> list_all stored_ok (tf_revisions f)
     \<and> list_all proof_ok (tf_proofs f) \<and> list_all event_ok (tf_events f)
     \<and> list_all event_proof_ok (tf_event_proofs f)
     \<and> (case tf_policy f of None \<Rightarrow> True | Some p \<Rightarrow> policy_ok p)"

section \<open>Appending events\<close>

lemma append_event_Ok:
  assumes "append_event P n f = (Inr e, f')"
  shows "f' = f\<lparr>tf_events := tf_events f @ [e]\<rparr>"
    and "seal_event P (fresh_id P (length (tf_events f))) (word_of_nat (length (tf_events f)))
           (tf_file_id f) (history_root P f) n = Ok e"
    and "\<exists>r. verify_chain P (tf_file_id f) (tf_events f) = Ok r"
    and "unsafe_key (n_details n) = None"
    and "\<forall>i. n_revision_id n = Some i \<longrightarrow> i \<in> ids (tf_revisions f)"
  using assms
  by (auto simp: append_event_def get_None_iff split: sum.splits if_splits option.splits)

lemma append_event_Err: "append_event P n f = (Inl x, f') \<Longrightarrow> f' = f"
  by (auto simp: append_event_def split: sum.splits if_splits)

lemma chain_root_history_root:
  "verify_chain P (tf_file_id f) (tf_events f) = Ok r \<Longrightarrow> r = history_root P f"
  by (drule verify_chain_root) (simp add: history_root_def)

lemma event_proof_by_actor_append:
  "event_proof_by_actor es p \<Longrightarrow> event_proof_by_actor (es @ fs) p"
  by (auto simp: event_proof_by_actor_def event_at_def nth_append split: if_splits)

lemma event_proofs_ok_append: "event_proofs_ok es ps \<Longrightarrow> event_proofs_ok (es @ fs) ps"
  by (auto simp: event_proofs_ok_def list_all_iff event_proof_by_actor_append)

lemma is_destroyed_append:
  "is_destroyed (f\<lparr>tf_events := tf_events f @ [e]\<rparr>) \<longleftrightarrow> is_destroyed f \<or> destroys_this_content e"
  by (simp add: is_destroyed_def)

lemma append_event_chain:
  assumes "append_event P n f = (Inr e, f')"
  shows "verify_chain P (tf_file_id f) (tf_events f @ [e]) = Ok (e_event_hash e)"
proof -
  note a = append_event_Ok [OF assms]
  note s = seal_event_facts [OF a(2)]
  from a(3) chain_root_history_root [of P f] show ?thesis by (auto simp: verify_chain_snoc s)
qed

lemma append_event_structure:
  assumes "verify_structure P f = Ok r" "append_event P n f = (Inr e, f')" "payloads_ok f'"
  shows "verify_structure P f' = Ok (e_event_hash e)"
proof -
  note a = append_event_Ok [OF assms(2)]
  note s = seal_event_facts [OF a(2)]
  from assms(1) have f: "revisions_ok P (tf_file_id f) (tf_revisions f)" "proofs_ok (tf_revisions f) (tf_proofs f)"
    "events_known (tf_revisions f) (tf_events f)" "event_proofs_ok (tf_events f) (tf_event_proofs f)"
    by (simp_all add: verify_structure_iff)
  have "events_known (tf_revisions f) (tf_events f @ [e])"
    using f(3) a(5) by (auto simp: events_known_def s split: option.splits)
  with f assms(3) append_event_chain [OF assms(2)] event_proofs_ok_append [OF f(4)] show ?thesis
    by (simp add: verify_structure_iff a(1))
qed

lemma append_event_keeps_structure:
  assumes "verify_structure P f = Ok r" "append_event P n f = (Inr e, f')" "\<not> destroys_this_content e"
  shows "verify_structure P f' = Ok (e_event_hash e)"
proof (rule append_event_structure [OF assms(1,2)])
  from assms show "payloads_ok f'"
    by (simp add: append_event_Ok(1) [OF assms(2)] verify_structure_iff payloads_ok_def is_destroyed_append)
qed

lemma history_root_length: "file_ok f \<Longrightarrow> sized_prims P \<Longrightarrow> length (history_root P f) = 32"
  by (cases "tf_events f" rule: rev_cases) (auto simp: history_root_def genesis_hash_def file_ok_def event_ok_def)

lemma append_event_file_ok:
  assumes "append_event P n f = (Inr e, f')" "file_ok f" "new_event_ok n" "sized_prims P"
  shows "file_ok f'" and "event_ok e"
proof -
  note a = append_event_Ok [OF assms(1)]
  show "event_ok e"
    by (rule seal_event_ok [OF a(2) assms(3,4)])
       (use assms history_root_length in \<open>simp_all add: file_ok_def\<close>)
  with assms(2) show "file_ok f'" by (simp add: a(1) file_ok_def)
qed

section \<open>Checking in revisions\<close>

lemma no_repeat_distinct: "no_repeat earlier ps \<longleftrightarrow> distinct ps \<and> set earlier \<inter> set ps = {}"
  by (induction ps arbitrary: earlier) auto

lemma check_in_Ok:
  assumes "check_in P n payload f = (Inr i, f')"
  obtains r where "create_revision P (tf_file_id f) (tf_logical_name f) payload n = Ok r"
    and "i = r_revision_id r" and "i \<notin> ids (tf_revisions f)" and "\<not> is_destroyed f"
    and "f' = f\<lparr>tf_revisions := tf_revisions f @ [\<lparr>s_revision = r, s_payload = Some payload\<rparr>]\<rparr>"
    and "(nr_parent_revision_ids n = []) = (tf_revisions f = [])"
    and "set (nr_parent_revision_ids n) \<subseteq> ids (tf_revisions f)" and "distinct (nr_parent_revision_ids n)"
  using assms
  by (auto simp: check_in_def Let_def get_None_iff list_all_iff no_repeat_distinct
      split: sum.splits if_splits)

lemma check_in_Err: "check_in P n payload f = (Inl x, f') \<Longrightarrow> f' = f"
  by (auto simp: check_in_def Let_def split: sum.splits if_splits)

lemma parents_first_snoc:
  "parents_first seen (g @ [s]) \<longleftrightarrow>
     parents_first seen g \<and> rev_id s \<notin> set seen \<union> ids g \<and> set (rev_parents s) \<subseteq> set seen \<union> ids g"
  by (induction g arbitrary: seen) (auto simp: list_all_iff ids_def)

lemma dag_ok_snoc:
  "dag_ok (g @ [s]) \<longleftrightarrow> dag_ok g \<and> rev_id s \<notin> ids g \<and> set (rev_parents s) \<subseteq> ids g"
  by (simp add: dag_ok_def parents_first_snoc)

lemma single_root_snoc:
  "single_root (g @ [s]) \<longleftrightarrow> single_root g \<and> (rev_parents s = []) = (g = [])"
  by (cases g) (auto simp: single_root_def)

lemma ids_append [simp]: "ids (g @ h) = ids g \<union> ids h"
  by (auto simp: ids_def)

lemma get_append_Some: "get g x = Some s \<Longrightarrow> get (g @ h) x = Some s"
  by (induction g) (auto simp: get_def split: if_splits)

lemma proofs_ok_append: "proofs_ok g ps \<Longrightarrow> proofs_ok (g @ h) ps"
  by (auto simp: proofs_ok_def list_all_iff proof_known_def get_append_Some split: option.splits)

lemma events_known_append: "events_known g es \<Longrightarrow> events_known (g @ h) es"
  by (auto simp: events_known_def list_all_iff split: option.splits)

lemma check_in_keeps_structure:
  assumes "verify_structure P f = Ok r" "check_in P n payload f = (Inr i, f')"
    "unicode_law P" "str_ok (tf_logical_name f)"
  shows "verify_structure P f' = Ok r"
  using assms(2)
proof (rule check_in_Ok)
  fix v
  assume v: "create_revision P (tf_file_id f) (tf_logical_name f) payload n = Ok v"
    and i: "i = r_revision_id v" "i \<notin> ids (tf_revisions f)" and nd: "\<not> is_destroyed f"
    and f': "f' = f\<lparr>tf_revisions := tf_revisions f @ [\<lparr>s_revision = v, s_payload = Some payload\<rparr>]\<rparr>"
    and ps: "(nr_parent_revision_ids n = []) = (tf_revisions f = [])"
      "set (nr_parent_revision_ids n) \<subseteq> ids (tf_revisions f)" "distinct (nr_parent_revision_ids n)"
  note facts = create_revision_facts [OF v]
  from assms(1) have f: "revisions_ok P (tf_file_id f) (tf_revisions f)" "proofs_ok (tf_revisions f) (tf_proofs f)"
    "events_known (tf_revisions f) (tf_events f)" "event_proofs_ok (tf_events f) (tf_event_proofs f)"
    "payloads_ok f" "verify_chain P (tf_file_id f) (tf_events f) = Ok r"
    by (simp_all add: verify_structure_iff)
  have "revision_valid P (tf_file_id f) \<lparr>s_revision = v, s_payload = Some payload\<rparr>"
    using create_revision_consistent [OF v assms(3,4)] ps(3) by (simp add: revision_valid_def facts)
  with f(1) i ps(1,2) have "revisions_ok P (tf_file_id f) (tf_revisions f')"
    by (simp add: revisions_ok_def f' dag_ok_snoc single_root_snoc facts)
  moreover have "payloads_ok f'" using f(5) nd by (simp add: payloads_ok_def f' is_destroyed_def)
  ultimately show ?thesis
    using f by (simp add: verify_structure_iff f' proofs_ok_append events_known_append)
qed

lemma check_in_file_ok:
  assumes "check_in P n payload f = (Inr i, f')" "file_ok f" "new_revision_ok n" "sized_prims P" "unicode_law P"
  shows "file_ok f'"
  using assms(1)
proof (rule check_in_Ok)
  fix v
  assume v: "create_revision P (tf_file_id f) (tf_logical_name f) payload n = Ok v"
    and f': "f' = f\<lparr>tf_revisions := tf_revisions f @ [\<lparr>s_revision = v, s_payload = Some payload\<rparr>]\<rparr>"
  from create_revision_ok [OF v assms(3,4,5)] assms(2) show ?thesis
    by (simp add: file_ok_def f' stored_ok_def)
qed

section \<open>A sample file\<close>

definition sample_new_revision :: new_revision where
  "sample_new_revision =
     \<lparr>nr_parent_revision_ids = [], nr_user_label = Some ''draft'', nr_author_identity = Some (replicate 16 2),
      nr_author_hcp_label = ''A.1'', nr_created_at_utc = ''2026-01-01T00:00:00Z'',
      nr_topology_generation = 3, nr_policy_hash = replicate 32 0\<rparr>"

definition sample_start :: tracked_file where
  "sample_start = new_file (replicate 16 1) ''report.txt''"

definition sample_file :: tracked_file where
  "sample_file = snd (check_in toy_prims sample_new_revision [7, 8] sample_start)"

lemma sample_compact_utc: "compact_utc ''2026-01-01T00:00:00Z'' = Ok ''20260101T000000Z''"
  by (simp add: compact_utc_def split_once_def strip_suffix_def strip_prefix_def digits_def number_def parse_u32_def
      is_ascii_digit_def digit_val_def month_days_def Let_def)

lemma sample_label:
  "generated_label toy_prims ''report.txt'' ''2026-01-01T00:00:00Z'' ''A.1'' = Ok ''Rreport-20260101T000000Z-A.1''"
  by (simp add: generated_label_def sample_compact_utc normalize_name_def stem_def rsplit_once_def split_once_def
   trim_matches_def cont_char_def toy_prims_def ascii_alnum_def)

lemma sample_check_in:
  "\<exists>i. check_in toy_prims sample_new_revision [7, 8] sample_start = (Ok i, sample_file)"
  by (simp add: sample_file_def check_in_def sample_start_def new_file_def sample_new_revision_def Let_def
      is_destroyed_def get_def create_revision_def sample_label compute_id_def revision_body_def eval_simps)

lemma sample_start_structure: "verify_structure toy_prims sample_start = Ok (genesis_hash toy_prims (replicate 16 1))"
  by (simp add: verify_structure_def sample_start_def new_file_def verify_chain_def)

lemma sample_start_ok: "file_ok sample_start"
  by (simp add: file_ok_def sample_start_def new_file_def str_ok_def eval_simps)

lemma sample_new_revision_ok: "new_revision_ok sample_new_revision"
  by (simp add: new_revision_ok_def sample_new_revision_def str_ok_def eval_simps)

lemma sample_file_ok: "file_ok sample_file"
  using sample_check_in check_in_file_ok [OF _ sample_start_ok sample_new_revision_ok] by auto

lemma sample_file_structure: "\<exists>r. verify_structure toy_prims sample_file = Ok r"
  using sample_check_in check_in_keeps_structure [OF sample_start_structure] sample_start_ok
  by (auto simp: file_ok_def)

end
