(* ===== verification/ContainerCodec.thy ===== *)
theory ContainerCodec
  imports ContainerFacts
begin

text \<open>
  The \<open>KQTF\<close> container encoding of \<open>src/file_history/container.rs\<close>: decoding inverts encoding,
  what decodes is well formed and verified, and which second encodings the decoder accepts.
\<close>

section \<open>The container codec\<close>

text \<open>
  The encoding with a given version byte. \<open>encode_unchecked\<close> chooses the version; the
  decoder accepts every version that fits the contents.
\<close>

definition encode_opt_policy :: "file_policy option \<Rightarrow> bytes result" where
  "encode_opt_policy p =
     (case p of Some policy \<Rightarrow> and_then (policy_bytes policy) (\<lambda>b. Ok (1 # b)) | None \<Rightarrow> Ok [0])"

definition encode_counted :: "('a \<Rightarrow> bytes result) \<Rightarrow> 'a list \<Rightarrow> bytes result" where
  "encode_counted enc xs = and_then (count_u32 xs) (\<lambda>n. and_then (encode_all enc xs) (\<lambda>b. Ok (n @ b)))"

definition encode_as :: "prims \<Rightarrow> u8 \<Rightarrow> tracked_file \<Rightarrow> bytes result" where
  "encode_as P v f =
     and_then (push_str (tf_logical_name f)) (\<lambda>name.
     and_then (encode_opt_policy (tf_policy f)) (\<lambda>policy.
     and_then (encode_counted encode_stored (tf_revisions f)) (\<lambda>revisions.
     and_then (encode_counted encode_proof (tf_proofs f)) (\<lambda>proofs.
     and_then (encode_counted encode_event (tf_events f)) (\<lambda>events.
     and_then (if v \<ge> 7 then encode_counted encode_event_proof (tf_event_proofs f) else Ok []) (\<lambda>event_proofs.
     Ok (CONTAINER_MAGIC @ [v] @ tf_file_id f @ name @ history_root P f @ policy
         @ revisions @ proofs @ events @ event_proofs)))))))"

definition version_fits :: "u8 \<Rightarrow> tracked_file \<Rightarrow> bool" where
  "version_fits v f \<longleftrightarrow>
     5 \<le> v \<and> v \<le> 8 \<and> (v < 6 \<longrightarrow> \<not> has_kind Finalization (tf_proofs f))
     \<and> (has_kind CoAuthor (tf_proofs f) \<longleftrightarrow> v = 8)
     \<and> (v = 7 \<longrightarrow> tf_event_proofs f \<noteq> []) \<and> (v < 7 \<longrightarrow> tf_event_proofs f = [])"

lemma container_version_fits: "version_fits (container_version f) f"
  by (auto simp: version_fits_def container_version_def)

lemma encode_unchecked_Ok_iff:
  "encode_unchecked P f = Ok b \<longleftrightarrow> encode_as P (container_version f) f = Ok b"
  by (auto simp: encode_unchecked_def encode_as_def encode_counted_def encode_opt_policy_def push_str_def
      and_then_Ok_iff)

lemma take_count_append: "count_u32 xs = Ok c \<Longrightarrow> take_count (c @ rest) = Ok (length xs, rest)"
  by (auto simp: count_u32_def take_count_def take_u32_append split: if_splits)

lemma encode_counted_Ok:
  "encode_counted enc xs = Ok b \<longleftrightarrow> (\<exists>e. length xs < 2 ^ 32 \<and> encode_all enc xs = Ok e \<and> b = to_be 4 (length xs) @ e)"
  by (auto simp: encode_counted_def count_u32_def)

lemma take_count_counted:
  "encode_counted enc xs = Ok b \<Longrightarrow> \<exists>e. encode_all enc xs = Ok e \<and> (\<forall>rest. take_count (b @ rest) = Ok (length xs, e @ rest))"
  by (auto simp: encode_counted_Ok take_count_def take_u32_append)

lemma take_count_OkD:
  "take_count data = Ok (n, rest) \<Longrightarrow> n < 2 ^ 32 \<and> data = to_be 4 n @ rest"
proof -
  assume "take_count data = Ok (n, rest)"
  then obtain b where "data = b @ rest" "length b = 4" "n = from_be b"
    by (auto simp: take_count_def take_u32_def dest!: take_array_OkD)
  with from_be_bound [of b] to_be_from_be [of b] show ?thesis by simp
qed

lemma decode_opt_policy_encode:
  assumes "encode_opt_policy p = Ok b" "case p of None \<Rightarrow> True | Some q \<Rightarrow> policy_ok q"
  shows "decode_opt_policy (b @ rest) = Ok (p, rest)"
  using assms
  by (cases p) (auto simp: encode_opt_policy_def decode_opt_policy_def take_fixed_1 policy_codec.dec_enc)

lemma decode_opt_policy_OkD:
  assumes "decode_opt_policy data = Ok (p, rest)"
  shows "\<exists>b. encode_opt_policy p = Ok b \<and> data = b @ rest \<and> (case p of None \<Rightarrow> True | Some q \<Rightarrow> policy_ok q)"
  using assms
  by (auto simp: encode_opt_policy_def decode_opt_policy_def length_Suc_conv
      dest!: take_fixed_OkD policy_codec.enc_dec split: if_splits)

lemma decode_event_proofs_encode:
  assumes "(if v \<ge> 7 then encode_counted encode_event_proof ps else Ok []) = Ok b"
    and "list_all event_proof_ok ps" "v = 7 \<longrightarrow> ps \<noteq> []" "v < 7 \<longrightarrow> ps = []"
  shows "decode_event_proofs v (b @ rest) = Ok (ps, rest)"
proof (cases "v \<ge> 7")
  case True
  with assms(1) take_count_counted [of encode_event_proof ps b] obtain e where
    e: "encode_all encode_event_proof ps = Ok e" "take_count (b @ rest) = Ok (length ps, e @ rest)" by auto
  have "decode_many decode_event_proof (length ps) (e @ rest) = Ok (ps, rest)"
    by (rule event_proof_codec.decode_all [OF _ e(1)]) (use assms(2) in \<open>simp add: list_all_iff\<close>)
  with True e(2) assms(3) show ?thesis by (auto simp: decode_event_proofs_def)
next
  case False
  with assms(1,4) show ?thesis by (auto simp: decode_event_proofs_def dest: leD)
qed

lemma CONTAINER_MAGIC_length: "length CONTAINER_MAGIC = 4"
  by (simp add: CONTAINER_MAGIC_def)

lemma tracked_file_eta:
  "\<lparr>tf_file_id = tf_file_id f, tf_logical_name = tf_logical_name f, tf_revisions = tf_revisions f,
     tf_proofs = tf_proofs f, tf_events = tf_events f, tf_event_proofs = tf_event_proofs f,
     tf_policy = tf_policy f\<rparr> = f"
  by simp

lemma decode_file_encode_as:
  assumes "file_ok f" "verify_structure P f = Ok r" "encode_as P v f = Ok b" "version_fits v f" "sized_prims P"
  shows "decode_file P b = Ok f"
proof -
  from assms(3) obtain name policy revs prfs evs eps where
    name: "push_str (tf_logical_name f) = Ok name" and policy: "encode_opt_policy (tf_policy f) = Ok policy"
    and lists: "encode_counted encode_stored (tf_revisions f) = Ok revs"
      "encode_counted encode_proof (tf_proofs f) = Ok prfs" "encode_counted encode_event (tf_events f) = Ok evs"
    and eps: "(if v \<ge> 7 then encode_counted encode_event_proof (tf_event_proofs f) else Ok []) = Ok eps"
    and b: "b = CONTAINER_MAGIC @ [v] @ tf_file_id f @ name @ history_root P f @ policy
         @ revs @ prfs @ evs @ eps"
    by (auto simp: encode_as_def)
  obtain re pe ee where
    re: "encode_all encode_stored (tf_revisions f) = Ok re" "\<And>d. take_count (revs @ d) = Ok (length (tf_revisions f), re @ d)"
    and pe: "encode_all encode_proof (tf_proofs f) = Ok pe" "\<And>d. take_count (prfs @ d) = Ok (length (tf_proofs f), pe @ d)"
    and ee: "encode_all encode_event (tf_events f) = Ok ee" "\<And>d. take_count (evs @ d) = Ok (length (tf_events f), ee @ d)"
    using lists [THEN take_count_counted] by blast
  have v: "\<not> v < 5" "4 \<le> v" "v \<le> 8" using assms(4) order_trans [of 4 5 v] by (auto simp: version_fits_def not_less)
  have kinds: "\<not> (v < 6 \<and> has_kind Finalization (tf_proofs f))" "has_kind CoAuthor (tf_proofs f) = (v = 8)"
    using assms(4) by (auto simp: version_fits_def)
  have ok: "\<forall>x \<in> set (tf_revisions f). stored_ok x" "\<forall>x \<in> set (tf_proofs f). proof_ok x"
    "\<forall>x \<in> set (tf_events f). event_ok x" "list_all event_proof_ok (tf_event_proofs f)"
    using assms(1) by (simp_all add: file_ok_def list_all_iff)
  note lists' = stored_codec.decode_all [OF ok(1) re(1)] proof_codec.decode_all [OF ok(2) pe(1)]
    event_codec.decode_all [OF ok(3) ee(1)]
  have eps': "decode_event_proofs v eps = Ok (tf_event_proofs f, [])"
    using decode_event_proofs_encode [OF eps ok(4), of "[]"] assms(4) by (simp add: version_fits_def)
  have root: "verify_structure P f = Ok (history_root P f)"
    using assms(2) chain_root_history_root [of P f] by (auto simp: verify_structure_iff)
  note CONTAINER_MAGIC_length
  moreover have "length (tf_file_id f) = 16" "str_ok (tf_logical_name f)" using assms(1) by (simp_all add: file_ok_def)
  moreover have "decode_opt_policy (policy @ d) = Ok (tf_policy f, d)" for d
    by (rule decode_opt_policy_encode [OF policy]) (use assms(1) in \<open>simp add: file_ok_def\<close>)
  ultimately show ?thesis
    using v history_root_length [OF assms(1,5)] kinds
    by (simp add: b decode_file_def take_fixed_append take_fixed_1 take_str_push [OF name] Let_def
        CONTAINER_VERSION_def re(2) pe(2) ee(2) decode_stored_version [OF v(1)] lists' eps' tracked_file_eta root)
qed


text \<open>Everything the decoder accepts is a well-formed, verified file that can be encoded again.\<close>

lemma decode_counted_OkD:
  assumes "canonical_codec enc dec ok" "take_count data = Ok (n, d)" "decode_many dec n d = Ok (xs, rest)"
  shows "\<exists>b. encode_counted enc xs = Ok b \<and> data = b @ rest \<and> list_all ok xs"
proof -
  from canonical_codec.decode_many_canonical [OF assms(1,3)] obtain e where
    "encode_all enc xs = Ok e" "d = e @ rest" "length xs = n" "\<forall>x \<in> set xs. ok x" by auto
  with assms(2) show ?thesis
    by (auto simp: encode_counted_Ok list_all_iff dest!: take_count_OkD)
qed


lemma decode_stored_OkD:
  "decode_stored v data = Ok (s, rest) \<Longrightarrow> stored_ok s \<and> (\<exists>e. encode_stored s = Ok e)"
  by (auto simp: decode_stored_def encode_stored_revision stored_ok_def push_len_prefixed_u32_def
      dest!: revision_codec.enc_dec take_len_prefixed_u32_OkD split: if_splits)

lemma decode_many_stored_OkD:
  "decode_many (decode_stored v) n data = Ok (xs, rest)
    \<Longrightarrow> length xs = n \<and> list_all stored_ok xs \<and> (\<exists>e. encode_all encode_stored xs = Ok e)"
proof (induction n arbitrary: data xs)
  case 0
  then show ?case by auto
next
  case (Suc n)
  then obtain x d ys where x: "decode_stored v data = Ok (x, d)"
    and ys: "decode_many (decode_stored v) n d = Ok (ys, rest)" and xs: "xs = x # ys" by auto
  from Suc.IH [OF ys] decode_stored_OkD [OF x] xs show ?case by (auto simp: encode_all_Cons)
qed

lemma decode_revisions_OkD:
  assumes "take_count data = Ok (n, d)" "decode_many (decode_stored v) n d = Ok (xs, rest)"
  shows "\<exists>b. encode_counted encode_stored xs = Ok b \<and> (5 \<le> v \<longrightarrow> data = b @ rest) \<and> list_all stored_ok xs"
proof (cases "v < 5")
  case True
  with decode_many_stored_OkD [OF assms(2)] assms(1) show ?thesis
    by (auto simp: encode_counted_Ok dest!: take_count_OkD)
next
  case False
  with decode_counted_OkD [OF stored_codec.canonical_codec_axioms assms(1)] assms(2) show ?thesis
    by (auto simp: decode_stored_version [OF False])
qed

lemma decode_event_proofs_OkD:
  assumes "decode_event_proofs v data = Ok (ps, rest)"
  shows "\<exists>b. (if v \<ge> 7 then encode_counted encode_event_proof ps else Ok []) = Ok b \<and> data = b @ rest
    \<and> list_all event_proof_ok ps \<and> (v = 7 \<longrightarrow> ps \<noteq> []) \<and> (v < 7 \<longrightarrow> ps = [])
    \<and> (\<exists>c. encode_counted encode_event_proof ps = Ok c)"
proof (cases "v \<ge> 7")
  case True
  with assms obtain n d where n: "take_count data = Ok (n, d)" "decode_many decode_event_proof n d = Ok (ps, rest)"
    "\<not> (v = 7 \<and> n = 0)"
    by (auto simp: decode_event_proofs_def split: if_splits)
  from decode_counted_OkD [OF event_proof_codec.canonical_codec_axioms n(1,2)]
    event_proof_codec.decode_many_canonical [OF n(2)] n(3) True
  show ?thesis by (auto dest: leD)
next
  case False
  with assms show ?thesis
    by (auto simp: decode_event_proofs_def encode_counted_Ok encode_all_def split: if_splits dest: leD)
qed


lemma decode_file_OkD:
  assumes "decode_file P bs = Ok f"
  shows "file_ok f \<and> verify_structure P f = Ok (history_root P f) \<and> (\<exists>b. encode_unchecked P f = Ok b)
    \<and> (\<exists>v. version_fits v f \<and> encode_as P v f = Ok bs \<or> v = 4 \<and> bs ! 4 = 4)"
proof -
  from assms obtain v file_id d1 name d2 r d3 policy d4 rn d5 revs d6 pn d7 prfs d8 en d9 evs d10 eps where
    bs: "bs = CONTAINER_MAGIC @ [v] @ file_id @ d1" "length file_id = 16"
    and v: "4 \<le> v" "v \<le> 8"
    and name: "take_str d1 = Ok (name, d2)" and root: "d2 = r @ d3" "length r = 32"
    and policy: "decode_opt_policy d3 = Ok (policy, d4)"
    and revs: "take_count d4 = Ok (rn, d5)" "decode_many (decode_stored v) rn d5 = Ok (revs, d6)"
    and prfs: "take_count d6 = Ok (pn, d7)" "decode_many decode_proof pn d7 = Ok (prfs, d8)"
    and evs: "take_count d8 = Ok (en, d9)" "decode_many decode_event en d9 = Ok (evs, d10)"
    and kinds: "\<not> (v < 6 \<and> has_kind Finalization prfs)" "has_kind CoAuthor prfs = (v = 8)"
    and eps: "decode_event_proofs v d10 = Ok (eps, [])"
    and vs: "verify_structure P f = Ok r"
    and f: "f = \<lparr>tf_file_id = file_id, tf_logical_name = name, tf_revisions = revs, tf_proofs = prfs,
           tf_events = evs, tf_event_proofs = eps, tf_policy = policy\<rparr>"
    by (auto simp: decode_file_def CONTAINER_VERSION_def Let_def length_Suc_conv
        dest!: take_fixed_OkD split: if_splits)
  from take_str_OkD [OF name] obtain nb where nb: "push_str name = Ok nb" "d1 = nb @ d2" "str_ok name" by blast
  from decode_opt_policy_OkD [OF policy] obtain pb where
    pb: "encode_opt_policy policy = Ok pb" "d3 = pb @ d4" "case policy of None \<Rightarrow> True | Some q \<Rightarrow> policy_ok q" by blast
  from decode_revisions_OkD [OF revs] obtain rb where
    rb: "encode_counted encode_stored revs = Ok rb" "5 \<le> v \<longrightarrow> d4 = rb @ d6" "list_all stored_ok revs" by blast
  from decode_counted_OkD [OF proof_codec.canonical_codec_axioms prfs] obtain qb where
    qb: "encode_counted encode_proof prfs = Ok qb" "d6 = qb @ d8" "list_all proof_ok prfs" by blast
  from decode_counted_OkD [OF event_codec.canonical_codec_axioms evs] obtain eb where
    eb: "encode_counted encode_event evs = Ok eb" "d8 = eb @ d10" "list_all event_ok evs" by blast
  from decode_event_proofs_OkD [OF eps] obtain epb epc where
    epb: "(if v \<ge> 7 then encode_counted encode_event_proof eps else Ok []) = Ok epb" "d10 = epb"
      "list_all event_proof_ok eps" "v = 7 \<longrightarrow> eps \<noteq> []" "v < 7 \<longrightarrow> eps = []"
      "encode_counted encode_event_proof eps = Ok epc" by auto
  have ok: "file_ok f" using bs(2) nb(3) pb(3) rb(3) qb(3) eb(3) epb(3) by (simp add: file_ok_def f)
  have r: "r = history_root P f" "verify_structure P f = Ok (history_root P f)"
    using vs chain_root_history_root [of P f] by (auto simp: verify_structure_iff)
  have "\<exists>b. encode_unchecked P f = Ok b"
    using nb(1) pb(1) rb(1) qb(1) eb(1) epb(6) by (auto simp: encode_unchecked_Ok_iff encode_as_def f)
  moreover have "version_fits v f \<and> encode_as P v f = Ok bs" if "5 \<le> v"
    using that v(2) kinds epb(1,2,4,5) bs(1) r(1) nb(1,2) pb(1,2) rb(1,2) qb(1,2) eb(1,2) root(1)
    by (cases "7 \<le> v") (auto simp: version_fits_def encode_as_def f)
  moreover have "bs ! 4 = 4" if "\<not> 5 \<le> v"
  proof -
    have "v = 4" using that v(1) by unat_arith
    then show ?thesis by (simp add: bs nth_append CONTAINER_MAGIC_length)
  qed
  ultimately show ?thesis using ok r(2) by blast
qed


lemma encode_file_Ok_iff:
  "encode_file P f = Ok b \<longleftrightarrow>
     verify_structure P f = Ok (history_root P f) \<and> encode_as P (container_version f) f = Ok b"
proof -
  have "r = history_root P f" if "verify_structure P f = Ok r" for r
    using that chain_root_history_root [of P f] by (auto simp: verify_structure_iff)
  then show ?thesis by (auto simp: encode_file_def encode_unchecked_Ok_iff)
qed

lemma encode_as_version: "encode_as P v f = Ok b \<Longrightarrow> b ! 4 = v"
  by (auto simp: encode_as_def nth_append CONTAINER_MAGIC_length)

lemma encode_as_reversion:
  "encode_as P v f = Ok b \<Longrightarrow> (7 \<le> v) = (7 \<le> w) \<Longrightarrow> encode_as P w f = Ok (b[4 := w])"
  by (auto simp: encode_as_def list_update_append CONTAINER_MAGIC_length)

lemma container_version_ge: "5 \<le> container_version f"
  using container_version_fits [of f] by (simp add: version_fits_def)

text \<open>
  C15. A tracked file that encodes decodes again to the same file.
\<close>

theorem container_round_trip:
  assumes "file_ok f" "sized_prims P" "encode_file P f = Ok b"
  shows "decode_file P b = Ok f"
  using assms by (auto simp: encode_file_Ok_iff intro: decode_file_encode_as container_version_fits)


text \<open>
  The version byte is not canonical: the encoding of a file that needs only version 5 still
  decodes to that file when its version byte is 6.
\<close>

lemma container_second_encoding:
  assumes "file_ok f" "sized_prims P" "encode_file P f = Ok b" "container_version f = 5"
  shows "decode_file P (b[4 := 6]) = Ok f"
proof (rule decode_file_encode_as [where v = 6])
  show "version_fits 6 f" using container_version_fits [of f] assms(4) by (simp add: version_fits_def)
  show "encode_as P 6 f = Ok (b[4 := 6])"
    using encode_as_reversion [of P 5 f b 6] assms(3,4) by (simp add: encode_file_Ok_iff)
qed (use assms(1,2,3) in \<open>auto simp: encode_file_Ok_iff\<close>)

lemma sample_encodes: "\<exists>b. encode_file toy_prims sample_file = Ok b"
proof -
  obtain i where "check_in toy_prims sample_new_revision [7, 8] sample_start = (Ok i, sample_file)"
    using sample_check_in by blast
  then show ?thesis
  proof (rule check_in_Ok)
    fix r
    assume r: "create_revision toy_prims (tf_file_id sample_start) (tf_logical_name sample_start) [7, 8]
        sample_new_revision = Ok r"
      and f: "sample_file = sample_start
          \<lparr>tf_revisions := tf_revisions sample_start @ [\<lparr>s_revision = r, s_payload = Some [7, 8]\<rparr>]\<rparr>"
    from create_revision_facts(11) [OF r] obtain b where "revision_body r = Ok b"
      by (auto simp: compute_id_def)
    then have "\<exists>c. encode_counted encode_stored (tf_revisions sample_file) = Ok c"
      by (simp add: f sample_start_def new_file_def encode_counted_Ok encode_stored_def
          push_len_prefixed_u32_def eval_simps)
    moreover have "tf_policy sample_file = None" "tf_proofs sample_file = []" "tf_events sample_file = []"
      "tf_event_proofs sample_file = []" "tf_logical_name sample_file = ''report.txt''"
      by (simp_all add: f sample_start_def new_file_def)
    ultimately show ?thesis using sample_file_structure
      by (auto simp: encode_file_def encode_unchecked_Ok_iff encode_as_def encode_opt_policy_def
          encode_counted_def count_u32_def eval_simps)
  qed
qed

lemma sample_version: "container_version sample_file = 5"
  by (simp add: container_version_def has_kind_def sample_file_def check_in_def sample_start_def new_file_def
      Let_def split: sum.splits)

theorem container_round_trip_witness:
  "\<exists>b. encode_file toy_prims sample_file = Ok b \<and> decode_file toy_prims b = Ok sample_file"
  using sample_encodes container_round_trip [OF sample_file_ok toy_sized] by blast


end
