(* ===== verification/Diff.thy ===== *)
theory Diff
  imports RustStr "HOL-Library.Product_Lexorder" "HOL-Library.Sublist"
begin

text \<open>
  Line differences and the three-way text merge, the first half of
  \<open>src/file_history/merge.rs\<close>. Texts are split into lines that keep their terminators. Slicing
  and indexing out of range are panics, errors of the model.
\<close>

section \<open>Matching lines\<close>

definition MAX_DIFF_CELLS :: nat where "MAX_DIFF_CELLS = 4000000"

record hunk =
  h_start :: nat
  h_end :: nat
  h_lines :: "str list"

definition is_insertion :: "hunk \<Rightarrow> bool" where
  "is_insertion h \<longleftrightarrow> h_start h = h_end h"

text \<open>\<open>a.iter().zip(b).take_while(|(x, y)| x == y).count()\<close>\<close>

definition common_prefix :: "str list \<Rightarrow> str list \<Rightarrow> nat" where
  "common_prefix a b = length (takeWhile (\<lambda>(x, y). x = y) (zip a b))"

text \<open>
  The table of \<open>matches\<close> as a list of rows. The outer loop runs \<open>i\<close> downwards, so the row for a
  line is computed from the row below it; the inner loop runs \<open>j\<close> downwards. The last row and
  the last column keep the initial zero.
\<close>

fun lcs_row :: "str \<Rightarrow> str list \<Rightarrow> nat list \<Rightarrow> nat list" where
  "lcs_row x [] below = [0]"
| "lcs_row x (y # ys) below =
     (let row = lcs_row x ys (tl below) in
      (if x = y then hd (tl below) + 1 else max (hd below) (hd row)) # row)"

fun lcs_table :: "str list \<Rightarrow> str list \<Rightarrow> nat list list" where
  "lcs_table [] mb = [replicate (length mb + 1) 0]"
| "lcs_table (x # xs) mb = (let below = lcs_table xs mb in lcs_row x mb (hd below) # below)"

text \<open>The \<open>while\<close> loop that reads the pairs off the table.\<close>

function walk :: "str list \<Rightarrow> str list \<Rightarrow> nat list list \<Rightarrow> nat \<Rightarrow> nat \<Rightarrow> nat \<Rightarrow> (nat \<times> nat) list" where
  "walk ma mb table pre i j =
     (if i < length ma \<and> j < length mb then
        if ma ! i = mb ! j then (pre + i, pre + j) # walk ma mb table pre (i + 1) (j + 1)
        else if table ! (i + 1) ! j \<ge> table ! i ! (j + 1) then walk ma mb table pre (i + 1) j
        else walk ma mb table pre i (j + 1)
      else [])"
  by pat_completeness auto
termination
  by (relation "measure (\<lambda>(ma, mb, _, _, i, j). (length ma - i) + (length mb - j))") auto

definition matches :: "str list \<Rightarrow> str list \<Rightarrow> (nat \<times> nat) list option" where
  "matches a b =
     (let pre = common_prefix a b;
          suf = common_prefix (rev (drop pre a)) (rev (drop pre b));
          ma = take (length a - suf - pre) (drop pre a);
          mb = take (length b - suf - pre) (drop pre b) in
      if (length ma + 1) * (length mb + 1) > MAX_DIFF_CELLS then None
      else Some (map (\<lambda>i. (i, i)) [0..<pre]
                 @ walk ma mb (lcs_table ma mb) pre 0 0
                 @ map (\<lambda>k. (length a - suf + k, length b - suf + k)) [0..<suf]))"

section \<open>Hunks\<close>

definition slice :: "'a list \<Rightarrow> nat \<Rightarrow> nat \<Rightarrow> 'a list result" where
  "slice xs lo hi =
     (if lo \<le> hi \<and> hi \<le> length xs then Ok (take (hi - lo) (drop lo xs)) else Err Panic)"

fun hunk_loop :: "str list \<Rightarrow> nat \<Rightarrow> nat \<Rightarrow> (nat \<times> nat) list \<Rightarrow> hunk list result" where
  "hunk_loop other bi oi [] = Ok []"
| "hunk_loop other bi oi ((mb, mo) # rest) =
     (if mb > bi \<or> mo > oi then
        and_then (slice other oi mo) (\<lambda>lines.
        and_then (hunk_loop other (mb + 1) (mo + 1) rest) (\<lambda>hs.
        Ok (\<lparr>h_start = bi, h_end = mb, h_lines = lines\<rparr> # hs)))
      else hunk_loop other (mb + 1) (mo + 1) rest)"

definition hunks :: "str list \<Rightarrow> str list \<Rightarrow> hunk list option result" where
  "hunks base other =
     (case matches base other of
        None \<Rightarrow> Ok None
      | Some found \<Rightarrow>
          and_then (hunk_loop other 0 0 (found @ [(length base, length other)])) (\<lambda>hs. Ok (Some hs)))"

definition overlaps :: "hunk \<Rightarrow> hunk \<Rightarrow> bool" where
  "overlaps a b \<longleftrightarrow>
     (h_start a < h_end b \<and> h_start b < h_end a)
     \<or> (is_insertion a \<and> is_insertion b \<and> h_start a = h_start b)"

section \<open>Differences of texts\<close>

abbreviation lines_of :: "str \<Rightarrow> str list" where
  "lines_of s \<equiv> split_inclusive CHR 0x0A s"

text \<open>\<open>DiffHunk\<close> owns its lines; otherwise it is a \<open>Hunk\<close>.\<close>

type_synonym diff_hunk = hunk

definition diff_hunks :: "str \<Rightarrow> str \<Rightarrow> diff_hunk list option result" where
  "diff_hunks old new = hunks (lines_of old) (lines_of new)"

fun apply_loop :: "str list \<Rightarrow> str \<Rightarrow> nat \<Rightarrow> diff_hunk option \<Rightarrow> diff_hunk list \<Rightarrow> str option result" where
  "apply_loop base_lines out at previous [] =
     and_then (slice base_lines at (length base_lines)) (\<lambda>rest. Ok (Some (out @ concat rest)))"
| "apply_loop base_lines out at previous (h # hs) =
     (if (case previous of
            Some prior \<Rightarrow> h_start h < h_end prior
              \<or> (h_start prior = h_end prior \<and> h_start h = h_end h \<and> h_start h = h_start prior)
          | None \<Rightarrow> False) then Ok None
      else if h_end h > length base_lines \<or> h_start h < at then Ok None
      else and_then (slice base_lines at (h_start h)) (\<lambda>kept.
           apply_loop base_lines (out @ concat kept @ concat (h_lines h)) (h_end h) (Some h) hs))"

definition apply_hunks :: "str \<Rightarrow> diff_hunk list \<Rightarrow> str option result" where
  "apply_hunks base chosen =
     apply_loop (lines_of base) [] 0 None (sort_key (\<lambda>h. (h_start h, h_end h)) chosen)"

datatype change_kind = Removed | Added

record line_change =
  lc_kind :: change_kind
  lc_line :: nat
  lc_text :: str
  lc_hunk :: nat

text \<open>The lines of one hunk, numbered from \<open>first\<close> (0-based) on.\<close>

definition numbered :: "change_kind \<Rightarrow> nat \<Rightarrow> nat \<Rightarrow> str list \<Rightarrow> line_change list" where
  "numbered k first index texts =
     map (\<lambda>(offset, line). \<lparr>lc_kind = k, lc_line = first + offset + 1, lc_text = line, lc_hunk = index\<rparr>)
       (List.enumerate 0 texts)"

text \<open>\<open>as usize\<close> of a signed sum wraps.\<close>

fun diff_loop :: "str list \<Rightarrow> nat \<Rightarrow> int \<Rightarrow> diff_hunk list \<Rightarrow> line_change list result" where
  "diff_loop old_lines index shift [] = Ok []"
| "diff_loop old_lines index shift (h # hs) =
     and_then (slice old_lines (h_start h) (h_end h)) (\<lambda>removed.
     let new_start = nat ((int (h_start h) + shift) mod 2 ^ 64) in
     and_then (diff_loop old_lines (index + 1)
         (shift + int (length (h_lines h)) - int (h_end h - h_start h)) hs) (\<lambda>rest.
     Ok (numbered Removed (h_start h) index removed @ numbered Added new_start index (h_lines h) @ rest)))"

definition diff_text :: "str \<Rightarrow> str \<Rightarrow> line_change list option result" where
  "diff_text old new =
     and_then (diff_hunks old new) (\<lambda>found.
     case found of
       None \<Rightarrow> Ok None
     | Some hs \<Rightarrow> and_then (diff_loop (lines_of old) 0 0 hs) (\<lambda>changes. Ok (Some changes)))"

section \<open>Three-way merge\<close>

datatype text_merge = Clean str | Conflict | TooLarge

fun merge_loop :: "str list \<Rightarrow> str \<Rightarrow> nat \<Rightarrow> hunk option \<Rightarrow> hunk list \<Rightarrow> text_merge result" where
  "merge_loop b out position prior [] =
     and_then (slice b position (length b)) (\<lambda>rest. Ok (Clean (out @ concat rest)))"
| "merge_loop b out position prior (h # hs) =
     (if prior = Some h then merge_loop b out position prior hs
      else if (case prior of Some previous \<Rightarrow> overlaps previous h | None \<Rightarrow> False) then Ok Conflict
      else and_then (slice b position (h_start h)) (\<lambda>kept.
           merge_loop b (out @ concat kept @ concat (h_lines h)) (h_end h) (Some h) hs))"

definition merge_text :: "str \<Rightarrow> str \<Rightarrow> str \<Rightarrow> text_merge result" where
  "merge_text base left right =
     (let b = lines_of base in
      and_then (hunks b (lines_of left)) (\<lambda>left_hunks.
      and_then (hunks b (lines_of right)) (\<lambda>right_hunks.
      case (left_hunks, right_hunks) of
        (Some ls, Some rs) \<Rightarrow>
          merge_loop b [] 0 None
            (map fst (sort_key (\<lambda>(h, is_left). (h_start h, h_end h, \<not> is_left))
               (map (\<lambda>h. (h, True)) ls @ map (\<lambda>h. (h, False)) rs)))
      | _ \<Rightarrow> Ok TooLarge)))"

end
