(* ===== verification/DiffFacts.thy ===== *)
theory DiffFacts
  imports Diff
begin

text \<open>
  Line differences are right: the matches are a longest common subsequence, the hunks rebuild the
  new text from the old one, and the reported line numbers name the lines they show.
\<close>

section \<open>Matches are increasing pairs of equal lines\<close>

fun pairs_ok :: "str list \<Rightarrow> str list \<Rightarrow> nat \<Rightarrow> nat \<Rightarrow> (nat \<times> nat) list \<Rightarrow> bool" where
  "pairs_ok a b i j [] = True"
| "pairs_ok a b i j ((x, y) # ps) =
     (i \<le> x \<and> j \<le> y \<and> x < length a \<and> y < length b \<and> a ! x = b ! y \<and> pairs_ok a b (x + 1) (y + 1) ps)"

lemma pairs_ok_mono: "pairs_ok a b i j ps \<Longrightarrow> i' \<le> i \<Longrightarrow> j' \<le> j \<Longrightarrow> pairs_ok a b i' j' ps"
  by (cases ps) auto

lemma pairs_ok_append:
  "pairs_ok a b i j ps \<Longrightarrow> pairs_ok a b i' j' qs \<Longrightarrow> i \<le> i' \<Longrightarrow> j \<le> j'
    \<Longrightarrow> (\<And>x y. (x, y) \<in> set ps \<Longrightarrow> x < i' \<and> y < j') \<Longrightarrow> pairs_ok a b i j (ps @ qs)"
proof (induction ps arbitrary: i j)
  case Nil
  then show ?case using pairs_ok_mono by simp
next
  case (Cons p ps)
  obtain x y where p: "p = (x, y)" by (cases p)
  have "x < i' \<and> y < j'" by (rule Cons.prems(5)) (simp add: p)
  then have "pairs_ok a b (x + 1) (y + 1) (ps @ qs)"
    using Cons.IH [of "x + 1" "y + 1"] Cons.prems p by auto
  with Cons.prems(1) p show ?case by simp
qed

lemma common_prefix_nth:
  assumes "k < common_prefix a b"
  shows "k < length a" "k < length b" "a ! k = b ! k"
proof -
  let ?t = "takeWhile (\<lambda>(x, y). x = y) (zip a b)"
  have len: "length ?t \<le> length (zip a b)" by (rule length_takeWhile_le)
  with assms show "k < length a" "k < length b" by (auto simp: common_prefix_def)
  have "?t ! k = zip a b ! k" using assms by (simp add: common_prefix_def takeWhile_nth)
  moreover have "case ?t ! k of (x, y) \<Rightarrow> x = y"
    using set_takeWhileD [OF nth_mem [OF assms [unfolded common_prefix_def]]] by simp
  ultimately show "a ! k = b ! k" using \<open>k < length a\<close> \<open>k < length b\<close> by simp
qed

lemma common_prefix_le: "common_prefix a b \<le> length a" "common_prefix a b \<le> length b"
  using length_takeWhile_le [of "\<lambda>(x, y). x = y" "zip a b"] by (auto simp: common_prefix_def)

declare walk.simps [simp del]

lemma walk_pairs:
  assumes "\<And>x. x < length ma \<Longrightarrow> p + x < length a \<and> ma ! x = a ! (p + x)"
    and "\<And>y. y < length mb \<Longrightarrow> p + y < length b \<and> mb ! y = b ! (p + y)"
  shows "pairs_ok a b (p + i) (p + j) (walk ma mb t p i j)
    \<and> (\<forall>(x, y) \<in> set (walk ma mb t p i j). x < p + length ma \<and> y < p + length mb)"
  using assms
proof (induction ma mb t p i j rule: walk.induct)
  case (1 ma mb t p i j)
  consider "i < length ma \<and> j < length mb \<and> ma ! i = mb ! j"
    | "i < length ma \<and> j < length mb \<and> ma ! i \<noteq> mb ! j \<and> t ! (i + 1) ! j \<ge> t ! i ! (j + 1)"
    | "i < length ma \<and> j < length mb \<and> ma ! i \<noteq> mb ! j \<and> \<not> t ! (i + 1) ! j \<ge> t ! i ! (j + 1)"
    | "\<not> (i < length ma \<and> j < length mb)" by blast
  then show ?case
  proof cases
    case 1
    then have "a ! (p + i) = b ! (p + j)" using "1.prems"(1) [of i] "1.prems"(2) [of j] by simp
    with 1 "1.IH"(1) "1.prems" show ?thesis by (simp add: walk.simps [of ma mb t p i j])
  next
    case 2
    with "1.IH"(2) "1.prems" show ?thesis
      using pairs_ok_mono [of a b "p + (i + 1)" "p + j" _ "p + i" "p + j"] by (auto simp: walk.simps [of ma mb t p i j])
  next
    case 3
    with "1.IH"(3) "1.prems" show ?thesis
      using pairs_ok_mono [of a b "p + i" "p + (j + 1)" _ "p + i" "p + j"] by (auto simp: walk.simps [of ma mb t p i j])
  next
    case 4
    then have "walk ma mb t p i j = []" by (subst walk.simps) (simp only: if_False)
    then show ?thesis by simp
  qed
qed


text \<open>The parts \<open>matches\<close> works on.\<close>

definition same_suffix :: "str list \<Rightarrow> str list \<Rightarrow> nat" where
  "same_suffix a b = common_prefix (rev (drop (common_prefix a b) a)) (rev (drop (common_prefix a b) b))"

lemma same_suffix_le:
  "common_prefix a b + same_suffix a b \<le> length a" "common_prefix a b + same_suffix a b \<le> length b"
  using common_prefix_le [of "rev (drop (common_prefix a b) a)" "rev (drop (common_prefix a b) b)"]
    common_prefix_le [of a b] by (auto simp: same_suffix_def)

lemma same_suffix_nth:
  assumes "k < same_suffix a b"
  shows "a ! (length a - same_suffix a b + k) = b ! (length b - same_suffix a b + k)"
proof -
  let ?p = "common_prefix a b" and ?s = "same_suffix a b"
  note le = same_suffix_le [of a b]
  from assms have "rev (drop ?p a) ! (?s - 1 - k) = rev (drop ?p b) ! (?s - 1 - k)"
    by (intro common_prefix_nth(3)) (simp add: same_suffix_def)
  moreover have "rev (drop ?p a) ! (?s - 1 - k) = a ! (length a - ?s + k)"
    using assms le by (subst rev_nth) (auto intro!: arg_cong [of _ _ "(!) a"])
  moreover have "rev (drop ?p b) ! (?s - 1 - k) = b ! (length b - ?s + k)"
    using assms le by (subst rev_nth) (auto intro!: arg_cong [of _ _ "(!) b"])
  ultimately show ?thesis by simp
qed

definition middle :: "str list \<Rightarrow> str list \<Rightarrow> str list \<Rightarrow> str list" where
  "middle a b c = take (length c - same_suffix a b - common_prefix a b) (drop (common_prefix a b) c)"

lemma matches_eq:
  "matches a b =
     (if (length (middle a b a) + 1) * (length (middle a b b) + 1) > MAX_DIFF_CELLS then None
      else Some (map (\<lambda>i. (i, i)) [0..<common_prefix a b]
        @ walk (middle a b a) (middle a b b) (lcs_table (middle a b a) (middle a b b)) (common_prefix a b) 0 0
        @ map (\<lambda>k. (length a - same_suffix a b + k, length b - same_suffix a b + k)) [0..<same_suffix a b]))"
  by (simp add: matches_def middle_def same_suffix_def Let_def)

lemma pairs_ok_map:
  "(\<And>k. m \<le> k \<Longrightarrow> k < n \<Longrightarrow> c + k < length a \<and> d + k < length b \<and> a ! (c + k) = b ! (d + k))
    \<Longrightarrow> pairs_ok a b (c + m) (d + m) (map (\<lambda>k. (c + k, d + k)) [m..<n])"
proof (induction "n - m" arbitrary: m)
  case (Suc x)
  then have "m < n" by simp
  then show ?case using Suc.hyps(1) [of "Suc m"] Suc.hyps(2) Suc.prems by (simp add: upt_conv_Cons)
qed simp

lemma matches_pairs:
  assumes "matches a b = Some ps"
  shows "pairs_ok a b 0 0 ps"
proof -
  let ?p = "common_prefix a b" and ?s = "same_suffix a b" and ?ma = "middle a b a" and ?mb = "middle a b b"
  note le = same_suffix_le [of a b]
  have "pairs_ok a b 0 0 (map (\<lambda>i. (i, i)) [0..<?p])"
    using pairs_ok_map [of 0 ?p 0 a 0 b] common_prefix_nth [of _ a b] by simp
  moreover have w: "pairs_ok a b ?p ?p (walk ?ma ?mb (lcs_table ?ma ?mb) ?p 0 0)
      \<and> (\<forall>(x, y) \<in> set (walk ?ma ?mb (lcs_table ?ma ?mb) ?p 0 0). x < ?p + length ?ma \<and> y < ?p + length ?mb)"
    using walk_pairs [of ?ma ?p a ?mb b 0 0] by (simp add: middle_def)
  moreover have "pairs_ok a b (length a - ?s) (length b - ?s)
      (map (\<lambda>k. (length a - ?s + k, length b - ?s + k)) [0..<?s])"
  proof -
    have "length a - ?s + k < length a \<and> length b - ?s + k < length b" if "k < ?s" for k
      using that le by linarith
    then show ?thesis
      using pairs_ok_map [of 0 ?s "length a - ?s" a "length b - ?s" b, unfolded add_0_right] same_suffix_nth [of _ a b]
      by blast
  qed
  ultimately have "pairs_ok a b 0 0 (map (\<lambda>i. (i, i)) [0..<?p] @ walk ?ma ?mb (lcs_table ?ma ?mb) ?p 0 0
      @ map (\<lambda>k. (length a - ?s + k, length b - ?s + k)) [0..<?s])"
    using le by (intro pairs_ok_append [of a b 0 0 _ ?p ?p]
        pairs_ok_append [of a b ?p ?p _ "length a - ?s" "length b - ?s"]) (auto simp: middle_def)
  then show ?thesis using assms by (auto simp: matches_eq split: if_splits)
qed

section \<open>Hunks turn the base into the other text\<close>

text \<open>Applying hunks in order to the lines from \<open>at\<close> on, the meaning of a hunk list.\<close>

fun patch :: "str list \<Rightarrow> nat \<Rightarrow> hunk list \<Rightarrow> str list" where
  "patch b at [] = drop at b"
| "patch b at (h # hs) = take (h_start h - at) (drop at b) @ h_lines h @ patch b (h_end h) hs"

text \<open>The shape \<open>hunks\<close> produces: in range, and with an unchanged line between two hunks.\<close>

fun hunks_ok :: "nat \<Rightarrow> nat \<Rightarrow> hunk list \<Rightarrow> bool" where
  "hunks_ok n at [] = True"
| "hunks_ok n at (h # hs) =
     (at \<le> h_start h \<and> h_start h \<le> h_end h \<and> h_end h \<le> n \<and> hunks_ok n (h_end h + 1) hs)"

lemma slice_Ok [simp]: "lo \<le> hi \<Longrightarrow> hi \<le> length xs \<Longrightarrow> slice xs lo hi = Ok (take (hi - lo) (drop lo xs))"
  by (simp add: slice_def)

lemma take_drop_Suc: "i < length xs \<Longrightarrow> drop i xs = xs ! i # drop (Suc i) xs"
  by (rule Cons_nth_drop_Suc [symmetric])

lemma patch_step:
  assumes "at \<le> i" "i < length b" "hunks_ok n (i + 1) hs"
  shows "patch b at hs = take (i - at) (drop at b) @ b ! i # patch b (i + 1) hs"
proof (cases hs)
  case Nil
  have "drop at b = take (i - at) (drop at b) @ drop i b"
    using assms(1) append_take_drop_id [of "i - at" "drop at b"] by simp
  with Nil take_drop_Suc [OF assms(2)] show ?thesis by simp
next
  case (Cons h hs')
  with assms have le: "i + 1 \<le> h_start h" by simp
  have "take (h_start h - at) (drop at b) = take (i - at) (drop at b) @ take (h_start h - i) (drop i b)"
    using assms(1) le take_add [of "i - at" "h_start h - i" "drop at b"] by simp
  moreover have "take (h_start h - i) (drop i b) = b ! i # take (h_start h - (i + 1)) (drop (i + 1) b)"
    using le by (simp add: take_drop_Suc [OF assms(2)] take_Suc_conv_app_nth take_Cons')
  ultimately show ?thesis using Cons by simp
qed

lemma hunk_loop_patch:
  assumes "pairs_ok base other bi oi ps" "bi \<le> length base" "oi \<le> length other"
  shows "\<exists>hs. hunk_loop other bi oi (ps @ [(length base, length other)]) = Ok hs
    \<and> hunks_ok (length base) bi hs \<and> patch base bi hs = drop oi other"
  using assms
proof (induction ps arbitrary: bi oi)
  case Nil
  then show ?case by auto
next
  case (Cons p ps)
  obtain x y where p: "p = (x, y)" by (cases p)
  with Cons.prems have xy: "bi \<le> x" "oi \<le> y" "x < length base" "y < length other" "base ! x = other ! y"
    "pairs_ok base other (x + 1) (y + 1) ps" by auto
  with Cons.IH obtain hs where
    hs: "hunk_loop other (x + 1) (y + 1) (ps @ [(length base, length other)]) = Ok hs"
      "hunks_ok (length base) (x + 1) hs" "patch base (x + 1) hs = drop (y + 1) other"
    by fastforce
  have step: "patch base x hs = drop y other"
    using patch_step [of x x base _ hs] xy hs by (simp add: take_drop_Suc)
  show ?case
  proof (cases "x > bi \<or> y > oi")
    case True
    let ?h = "\<lparr>h_start = bi, h_end = x, h_lines = take (y - oi) (drop oi other)\<rparr>"
    have "take (y - oi) (drop oi other) @ drop y other = drop oi other"
      using xy(2) append_take_drop_id [of "y - oi" "drop oi other"] by simp
    with True p hs xy step show ?thesis by (intro exI [of _ "?h # hs"]) simp
  next
    case False
    with xy have "x = bi" "y = oi" by auto
    moreover have "hunks_ok (length base) bi hs" using hs(2) \<open>x = bi\<close> by (cases hs) auto
    ultimately show ?thesis using p hs step by (intro exI [of _ hs]) simp
  qed
qed

lemma hunks_cases:
  "hunks base other = Ok None
   \<or> (\<exists>hs. hunks base other = Ok (Some hs) \<and> hunks_ok (length base) 0 hs \<and> patch base 0 hs = other)"
proof (cases "matches base other")
  case None
  then show ?thesis by (simp add: hunks_def)
next
  case (Some ps)
  from hunk_loop_patch [OF matches_pairs [OF Some]] show ?thesis by (auto simp: hunks_def Some)
qed

lemma hunks_Some:
  "hunks base other = Ok (Some hs) \<Longrightarrow> hunks_ok (length base) 0 hs \<and> patch base 0 hs = other"
  using hunks_cases [of base other] by auto

section \<open>Applying a difference\<close>

definition span :: "hunk \<Rightarrow> nat \<times> nat" where
  "span h = (h_start h, h_end h)"

lemma hunks_ok_starts: "hunks_ok n at hs \<Longrightarrow> h \<in> set hs \<Longrightarrow> at \<le> h_start h \<and> h_start h \<le> h_end h \<and> h_end h \<le> n"
  by (induction hs arbitrary: at) fastforce+

lemma hunks_ok_sorted: "hunks_ok n at hs \<Longrightarrow> sorted_wrt (\<lambda>g h. h_end g < h_start h) hs"
  by (induction hs arbitrary: at) (auto dest: hunks_ok_starts)

lemma sort_hunks: "hunks_ok n at hs \<Longrightarrow> sort_key span hs = hs"
proof (rule sort_key_id_if_sorted)
  assume ok: "hunks_ok n at hs"
  have "sorted_wrt (\<lambda>g h. span g \<le> span h) hs"
    by (rule sorted_wrt_mono_rel [OF _ hunks_ok_sorted [OF ok]])
       (use hunks_ok_starts [OF ok] in \<open>fastforce simp: span_def\<close>)
  then show "sorted (map span hs)" by (simp add: sorted_map)
qed

lemma apply_loop_patch:
  assumes "hunks_ok (length b) from hs" "at \<le> from" "at \<le> length b"
    "case previous of None \<Rightarrow> True | Some g \<Rightarrow> h_start g \<le> h_end g \<and> h_end g < from"
  shows "apply_loop b out at previous hs = Ok (Some (out @ concat (patch b at hs)))"
  using assms
proof (induction hs arbitrary: out "from" at previous)
  case Nil
  then show ?case by simp
next
  case (Cons h hs)
  from Cons.prems have "apply_loop b out' (h_end h) (Some h) hs = Ok (Some (out' @ concat (patch b (h_end h) hs)))" for out'
    by (intro Cons.IH [of "h_end h + 1"]) auto
  with Cons.prems show ?case by (auto split: option.splits)
qed

lemma apply_hunks_patch:
  assumes "hunks_ok (length (lines_of old)) 0 hs"
  shows "apply_hunks old hs = Ok (Some (concat (patch (lines_of old) 0 hs)))"
  using assms apply_loop_patch [OF assms, of 0 None "[]"] sort_hunks [OF assms]
  by (simp add: apply_hunks_def span_def [abs_def])

lemma matches_None: "matches a b = None \<Longrightarrow> (length a + 1) * (length b + 1) > MAX_DIFF_CELLS"
proof -
  assume "matches a b = None"
  then have "MAX_DIFF_CELLS < (length (middle a b a) + 1) * (length (middle a b b) + 1)"
    by (simp add: matches_eq split: if_splits)
  also have "\<dots> \<le> (length a + 1) * (length b + 1)" by (intro mult_le_mono) (simp_all add: middle_def)
  finally show ?thesis .
qed

lemma hunks_None: "hunks a b = Ok None \<Longrightarrow> (length a + 1) * (length b + 1) > MAX_DIFF_CELLS"
  by (rule matches_None) (auto simp: hunks_def split: option.splits)

text \<open>
  C30. Comparing two texts never panics, and gives up only on texts too large for the table;
  applying the differences it finds to the old text gives the new one.
\<close>

theorem diff_apply_round_trip:
  "\<exists>found. diff_hunks old new = Ok found
     \<and> (case found of
          None \<Rightarrow> (length (lines_of old) + 1) * (length (lines_of new) + 1) > MAX_DIFF_CELLS
        | Some hs \<Rightarrow> apply_hunks old hs = Ok (Some new))"
proof -
  consider "hunks (lines_of old) (lines_of new) = Ok None"
    | hs where "hunks (lines_of old) (lines_of new) = Ok (Some hs)" "hunks_ok (length (lines_of old)) 0 hs"
        "patch (lines_of old) 0 hs = lines_of new"
    using hunks_cases by blast
  then show ?thesis
  proof cases
    case 1
    with hunks_None [OF 1] show ?thesis by (simp add: diff_hunks_def)
  next
    case 2
    then show ?thesis by (simp add: diff_hunks_def apply_hunks_patch)
  qed
qed

text \<open>A hunk that starts past the end of the text but ends within it panics; it is not refused.\<close>

lemma apply_hunks_panics:
  assumes "h_end h \<le> length (lines_of base)" "length (lines_of base) < h_start h"
  shows "apply_hunks base [h] = Err Panic"
  using assms by (simp add: apply_hunks_def slice_def)

section \<open>Matches are a longest common subsequence\<close>

fun lcs_len :: "'a list \<Rightarrow> 'a list \<Rightarrow> nat" where
  "lcs_len [] ys = 0"
| "lcs_len (x # xs) [] = 0"
| "lcs_len (x # xs) (y # ys) = (if x = y then lcs_len xs ys + 1 else max (lcs_len xs (y # ys)) (lcs_len (x # xs) ys))"

lemma lcs_len_Nil [simp]: "lcs_len xs [] = 0"
  by (cases xs) auto

lemma lcs_upper: "subseq zs xs \<Longrightarrow> subseq zs ys \<Longrightarrow> length zs \<le> lcs_len xs ys"
proof (induction xs ys arbitrary: zs rule: lcs_len.induct)
  case (3 x xs y ys)
  show ?case
  proof (cases zs)
    case (Cons z zs')
    show ?thesis
    proof (cases "x = y")
      case True
      then have "subseq zs' xs \<and> subseq zs' ys"
        using "3.prems" Cons by (metis subseq_Cons' subseq_Cons2' subseq_Cons2_neq)
      with "3.IH"(1) True Cons show ?thesis by auto
    next
      case False
      then have "subseq zs xs \<or> subseq zs ys"
        using "3.prems" Cons by (metis subseq_Cons2_neq)
      with "3.IH"(2,3) "3.prems" False show ?thesis by (auto simp: le_max_iff_disj)
    qed
  qed simp
qed auto

lemma lcs_attained: "\<exists>zs. subseq zs xs \<and> subseq zs ys \<and> length zs = lcs_len xs ys"
proof (induction xs ys rule: lcs_len.induct)
  case (3 x xs y ys)
  show ?case
  proof (cases "x = y")
    case True
    with "3.IH"(1) obtain zs where "subseq zs xs" "subseq zs ys" "length zs = lcs_len xs ys" by auto
    with True show ?thesis by (intro exI [of _ "x # zs"]) auto
  next
    case False
    with "3.IH"(2,3) show ?thesis
      by (cases "lcs_len xs (y # ys) \<le> lcs_len (x # xs) ys") (auto simp: max_def intro: list_emb_Cons)
  qed
qed auto

lemma lcs_len_eqI:
  assumes "\<And>zs. subseq zs xs \<Longrightarrow> subseq zs ys \<Longrightarrow> length zs \<le> n" "subseq ws xs" "subseq ws ys" "length ws = n"
  shows "lcs_len xs ys = n"
  using assms lcs_attained [of xs ys] lcs_upper [of ws xs ys] by fastforce

lemma subseq_rev_mono: "subseq xs ys \<Longrightarrow> subseq (rev xs) (rev ys)"
proof (induction rule: list_emb.induct)
  case (list_emb_Cons xs ys y)
  then show ?case using list_emb_append2 [of "(=)" "rev xs" "rev ys" "[y]"] list_emb_append_mono [of "(=)" "rev xs" "rev ys" "[]" "[y]"] by simp
next
  case (list_emb_Cons2 x y xs ys)
  then show ?case by (simp add: list_emb_append_mono)
qed simp

lemma subseq_rev_iff: "subseq (rev xs) ys \<longleftrightarrow> subseq xs (rev ys)"
  using subseq_rev_mono [of "rev xs" ys] subseq_rev_mono [of xs "rev ys"] by auto

lemma lcs_len_rev: "lcs_len (rev xs) (rev ys) = lcs_len xs ys"
proof -
  obtain ws where "subseq ws xs" "subseq ws ys" "length ws = lcs_len xs ys" using lcs_attained by blast
  then show ?thesis
    by (intro lcs_len_eqI [of _ _ _ "rev ws"]) (auto simp: subseq_rev_iff intro: lcs_upper [of "rev _", simplified subseq_rev_iff, simplified])
qed


lemma lcs_len_append: "lcs_len (p @ xs) (p @ ys) = length p + lcs_len xs ys"
  by (induction p) auto

lemma lcs_len_append_right: "lcs_len (xs @ s) (ys @ s) = lcs_len xs ys + length s"
  using lcs_len_append [of "rev s" "rev xs" "rev ys"] lcs_len_rev [of xs ys] lcs_len_rev [of "xs @ s" "ys @ s"] by simp

lemma lcs_row_spec:
  assumes "below = map (\<lambda>j. lcs_len xs (drop j ys)) [0..<length ys + 1]"
  shows "lcs_row x ys below = map (\<lambda>j. lcs_len (x # xs) (drop j ys)) [0..<length ys + 1]"
  using assms
proof (induction ys arbitrary: below)
  case (Cons y ys)
  have unroll: "map f [0..<length (y # ys) + 1] = f 0 # map (\<lambda>j. f (Suc j)) [0..<length ys + 1]" for f :: "nat \<Rightarrow> nat"
    by (simp add: upt_conv_Cons map_Suc_upt [symmetric] del: upt_Suc)
  have hd: "hd (map g [0..<Suc (length ys)]) = g 0" for g :: "nat \<Rightarrow> nat" by (simp add: upt_conv_Cons del: upt_Suc)
  from Cons.prems [unfolded unroll] have below: "below = lcs_len xs (y # ys) # map (\<lambda>j. lcs_len xs (drop j ys)) [0..<length ys + 1]"
    by simp
  then have "lcs_row x ys (tl below) = map (\<lambda>j. lcs_len (x # xs) (drop j ys)) [0..<length ys + 1]"
    by (intro Cons.IH) simp
  then show ?case unfolding unroll by (simp add: below hd Let_def del: upt_Suc)
qed simp

lemma lcs_table_spec:
  "lcs_table xs ys = map (\<lambda>i. map (\<lambda>j. lcs_len (drop i xs) (drop j ys)) [0..<length ys + 1]) [0..<length xs + 1]"
proof (induction xs)
  case Nil
  then show ?case by (simp add: map_replicate_const)
next
  case (Cons x xs)
  have "hd (lcs_table xs ys) = map (\<lambda>j. lcs_len xs (drop j ys)) [0..<length ys + 1]"
    by (simp add: Cons upt_conv_Cons del: upt_Suc)
  then have "lcs_row x ys (hd (lcs_table xs ys)) = map (\<lambda>j. lcs_len (x # xs) (drop j ys)) [0..<length ys + 1]"
    by (rule lcs_row_spec)
  then show ?case
    by (simp add: Let_def Cons upt_conv_Cons [of 0] map_Suc_upt [symmetric] del: upt_Suc)
qed

lemma lcs_table_nth:
  "i \<le> length xs \<Longrightarrow> j \<le> length ys \<Longrightarrow> lcs_table xs ys ! i ! j = lcs_len (drop i xs) (drop j ys)"
  by (simp add: lcs_table_spec del: upt_Suc)

lemma walk_length:
  "length (walk ma mb (lcs_table ma mb) p i j) = lcs_len (drop i ma) (drop j mb)"
proof (induction ma mb "lcs_table ma mb" p i j rule: walk.induct)
  case (1 ma mb p i j)
  show ?case
  proof (cases "i < length ma \<and> j < length mb")
    case True
    then have "drop i ma = ma ! i # drop (Suc i) ma" "drop j mb = mb ! j # drop (Suc j) mb"
      by (simp_all add: Cons_nth_drop_Suc)
    with True 1 show ?thesis
      by (simp add: walk.simps [of ma mb _ p i j] lcs_table_nth)
  next
    case False
    then have "walk ma mb (lcs_table ma mb) p i j = []" by (subst walk.simps) (simp only: if_False)
    with False show ?thesis by (auto simp: not_less)
  qed
qed


lemma take_common_prefix: "take (common_prefix a b) a = take (common_prefix a b) b"
  using common_prefix_nth [of _ a b] common_prefix_le [of a b] by (intro nth_equalityI) auto

lemma drop_same_suffix: "drop (length a - same_suffix a b) a = drop (length b - same_suffix a b) b"
  using same_suffix_nth [of _ a b] same_suffix_le [of a b] by (intro nth_equalityI) auto

lemma middle_split:
  assumes "common_prefix a b + same_suffix a b \<le> length c"
  shows "c = take (common_prefix a b) c @ middle a b c @ drop (length c - same_suffix a b) c"
proof -
  let ?p = "common_prefix a b" and ?s = "same_suffix a b"
  have "drop ?p c = middle a b c @ drop (length c - ?s - ?p) (drop ?p c)"
    unfolding middle_def by (rule append_take_drop_id [symmetric])
  moreover have "length c - ?s - ?p + ?p = length c - ?s" using assms by simp
  ultimately have "drop ?p c = middle a b c @ drop (length c - ?s) c" unfolding drop_drop by (simp only:)
  then show ?thesis using append_take_drop_id [of ?p c] by simp
qed

text \<open>
  C31. The matches of two texts are increasing pairs of equal lines, and there are as many of them
  as in a longest common subsequence of the two.
\<close>

theorem matches_longest:
  assumes "matches a b = Some ps"
  shows "sorted_wrt (\<lambda>(i, j) (i', j'). i < i' \<and> j < j') ps
    \<and> (\<forall>(i, j) \<in> set ps. i < length a \<and> j < length b \<and> a ! i = b ! j)
    \<and> (\<forall>zs. subseq zs a \<longrightarrow> subseq zs b \<longrightarrow> length zs \<le> length ps)"
proof -
  let ?p = "common_prefix a b" and ?s = "same_suffix a b" and ?ma = "middle a b a" and ?mb = "middle a b b"
  note le = same_suffix_le [of a b]
  have "length ps = ?p + lcs_len ?ma ?mb + ?s"
    using assms walk_length [of ?ma ?mb ?p 0 0] by (auto simp: matches_eq split: if_splits)
  also have "\<dots> = lcs_len (take ?p a @ ?ma @ drop (length a - ?s) a) (take ?p a @ ?mb @ drop (length a - ?s) a)"
    using le by (simp add: lcs_len_append lcs_len_append_right del: append_assoc add: append_assoc [symmetric]) 
  also have "\<dots> = lcs_len a b"
    using middle_split [OF le(1)] middle_split [OF le(2)] take_common_prefix [of a b] drop_same_suffix [of a b] by metis
  finally have "length zs \<le> length ps" if "subseq zs a" "subseq zs b" for zs
    using that lcs_upper by metis
  moreover have "sorted_wrt (\<lambda>(i, j) (i', j'). i < i' \<and> j < j') qs
      \<and> (\<forall>(x, y) \<in> set qs. i \<le> x \<and> j \<le> y \<and> x < length a \<and> y < length b \<and> a ! x = b ! y)"
    if "pairs_ok a b i j qs" for i j qs
    using that
  proof (induction qs arbitrary: i j)
    case (Cons q qs)
    obtain x y where q: "q = (x, y)" by (cases q)
    from Cons.IH [of "x + 1" "y + 1"] Cons.prems q show ?case by fastforce
  qed simp
  ultimately show ?thesis using matches_pairs [OF assms] by blast
qed

section \<open>Reported line numbers\<close>

lemma numbered_in:
  "c \<in> set (numbered k first index ls) \<longleftrightarrow>
     (\<exists>n < length ls. c = \<lparr>lc_kind = k, lc_line = first + n + 1, lc_text = ls ! n, lc_hunk = index\<rparr>)"
  by (force simp: numbered_def in_set_enumerate_eq)

definition line_right :: "str list \<Rightarrow> str list \<Rightarrow> line_change \<Rightarrow> bool" where
  "line_right old new c \<longleftrightarrow>
     (let ls = (case lc_kind c of Removed \<Rightarrow> old | Added \<Rightarrow> new) in
      1 \<le> lc_line c \<and> lc_line c \<le> length ls \<and> lc_text c = ls ! (lc_line c - 1))"

lemma diff_loop_right:
  assumes "hunks_ok (length old) from hs" "at \<le> from" "patch old at hs = drop o' new" "o' \<le> length new"
    "length new < 2 ^ 64" "shift = int o' - int at"
  shows "\<exists>cs. diff_loop old index shift hs = Ok cs \<and> (\<forall>c \<in> set cs. line_right old new c)"
  using assms
proof (induction hs arbitrary: index shift at "from" o')
  case (Cons h hs)
  let ?skip = "h_start h - at" and ?ls = "h_lines h"
  let ?o = "o' + ?skip + length ?ls"
  from Cons.prems have h: "at \<le> h_start h" "h_start h \<le> h_end h" "h_end h \<le> length old"
    "hunks_ok (length old) (h_end h + 1) hs" by auto
  have new: "drop o' new = take ?skip (drop at old) @ ?ls @ patch old (h_end h) hs" using Cons.prems(3) by simp
  have skip: "length (take ?skip (drop at old)) = ?skip" using h by simp
  have "drop ?o new = drop (?skip + length ?ls) (drop o' new)" by (simp add: add.commute add.left_commute)
  also have "\<dots> = patch old (h_end h) hs" unfolding new using skip by simp
  finally have rest: "patch old (h_end h) hs = drop ?o new" ..
  have len: "?o \<le> length new"
    using arg_cong [OF new, of length] skip Cons.prems(4) by simp
  have lines: "new ! (o' + ?skip + n) = ?ls ! n" if "n < length ?ls" for n
  proof -
    have "drop o' new ! (?skip + n) = ?ls ! n" unfolding new using skip that by (simp add: nth_append)
    then show ?thesis using Cons.prems(4) by (simp add: add.assoc)
  qed
  have start: "nat ((int (h_start h) + shift) mod 2 ^ 64) = o' + ?skip"
    using Cons.prems(5,6) h(1) len by (simp add: nat_eq_iff)
  have "shift + int (length ?ls) - int (h_end h - h_start h) = int ?o - int (h_end h)"
    using Cons.prems(6) h(1,2) by simp
  from Cons.IH [OF h(4) _ rest len Cons.prems(5) this, of "index + 1"] obtain cs where
    cs: "diff_loop old (index + 1) (shift + int (length ?ls) - int (h_end h - h_start h)) hs = Ok cs"
      "\<forall>c \<in> set cs. line_right old new c" by auto
  have "line_right old new c" if "c \<in> set (numbered Removed (h_start h) index (take (h_end h - h_start h) (drop (h_start h) old)))" for c
    using that h by (auto simp: numbered_in line_right_def)
  moreover have "line_right old new c" if "c \<in> set (numbered Added (o' + ?skip) index ?ls)" for c
    using that len lines by (auto simp: numbered_in line_right_def)
  ultimately show ?case using cs h start by (auto simp: Let_def)
qed simp


text \<open>
  The line numbers of a reported difference are right: a removed line is the line of the old
  text with that number, an added line that of the new text. Reporting never panics.
\<close>

lemma diff_text_lines:
  assumes "length (lines_of new) < 2 ^ 64"
  shows "\<exists>found. diff_text old new = Ok found
    \<and> (case found of
         None \<Rightarrow> (length (lines_of old) + 1) * (length (lines_of new) + 1) > MAX_DIFF_CELLS
       | Some cs \<Rightarrow> \<forall>c \<in> set cs.
           let ls = (case lc_kind c of Removed \<Rightarrow> lines_of old | Added \<Rightarrow> lines_of new) in
           1 \<le> lc_line c \<and> lc_line c \<le> length ls \<and> lc_text c = ls ! (lc_line c - 1))"
proof -
  consider "hunks (lines_of old) (lines_of new) = Ok None"
    | hs where "hunks (lines_of old) (lines_of new) = Ok (Some hs)" "hunks_ok (length (lines_of old)) 0 hs"
        "patch (lines_of old) 0 hs = lines_of new"
    using hunks_cases by blast
  then show ?thesis
  proof cases
    case 1
    with hunks_None [OF 1] show ?thesis by (simp add: diff_text_def diff_hunks_def)
  next
    case 2
    with diff_loop_right [of "lines_of old" 0 hs 0 0 "lines_of new" 0 0] assms obtain cs where
      "diff_loop (lines_of old) 0 0 hs = Ok cs" "\<forall>c \<in> set cs. line_right (lines_of old) (lines_of new) c" by auto
    with 2(1) show ?thesis by (simp add: diff_text_def diff_hunks_def line_right_def)
  qed
qed

section \<open>A sample text\<close>

definition text3 :: "char \<Rightarrow> char \<Rightarrow> char \<Rightarrow> str" where
  "text3 x y z = [x, CHR 0x0A, y, CHR 0x0A, z, CHR 0x0A]"

lemma lines_text3:
  "x \<noteq> CHR 0x0A \<Longrightarrow> y \<noteq> CHR 0x0A \<Longrightarrow> z \<noteq> CHR 0x0A
    \<Longrightarrow> lines_of (text3 x y z) = [[x, CHR 0x0A], [y, CHR 0x0A], [z, CHR 0x0A]]"
  by (simp add: text3_def)

lemmas diff_eval = lines_text3 matches_def common_prefix_def walk.simps hunks_def slice_def MAX_DIFF_CELLS_def Let_def

theorem matches_longest_witness:
  "matches [''a'', ''b'', ''c''] [''x'', ''b'', ''c'', ''d''] = Some [(1, 1), (2, 2)]
   \<and> \<not> (subseq [''a'', ''b'', ''c''] [''x'', ''b'', ''c'', ''d''])"
proof -
  have m: "matches [''a'', ''b'', ''c''] [''x'', ''b'', ''c'', ''d''] = Some [(1, 1), (2, 2)]"
    by (simp add: diff_eval numeral_2_eq_2)
  from matches_longest [OF m] have
    "subseq [''a'', ''b'', ''c''] [''a'', ''b'', ''c''] \<longrightarrow> subseq [''a'', ''b'', ''c''] [''x'', ''b'', ''c'', ''d'']
      \<longrightarrow> length [''a'', ''b'', ''c''] \<le> length [(1::nat, 1::nat), (2, 2)]" by blast
  with m show ?thesis by simp
qed

end
