(* ===== verification/TextMerge.thy ===== *)
theory TextMerge
  imports DiffFacts
begin

text \<open>
  The three-way merge of \<open>src/file_history/merge.rs\<close> is right: it never panics, does not depend
  on the order of the sides, conflicts exactly on overlapping changes, and otherwise applies the
  changes of both sides.
\<close>

section \<open>The three-way merge\<close>

text \<open>One hunk lies entirely before another, and they are not insertions at one point.\<close>

definition before :: "hunk \<Rightarrow> hunk \<Rightarrow> bool" where
  "before g h \<longleftrightarrow> h_end g \<le> h_start h \<and> \<not> (is_insertion g \<and> is_insertion h \<and> h_start g = h_start h)"

definition hunk_ok :: "nat \<Rightarrow> hunk \<Rightarrow> bool" where
  "hunk_ok n h \<longleftrightarrow> h_start h \<le> h_end h \<and> h_end h \<le> n"

lemma before_trans: "before f g \<Longrightarrow> before g h \<Longrightarrow> hunk_ok n g \<Longrightarrow> before f h"
  by (auto simp: before_def hunk_ok_def is_insertion_def)

lemma before_asym: "before g h \<Longrightarrow> hunk_ok n g \<Longrightarrow> hunk_ok n h \<Longrightarrow> \<not> before h g"
  by (auto simp: before_def hunk_ok_def is_insertion_def)

lemma before_not_overlaps: "before g h \<Longrightarrow> hunk_ok n g \<Longrightarrow> hunk_ok n h \<Longrightarrow> \<not> overlaps g h \<and> \<not> overlaps h g"
  by (auto simp: before_def overlaps_def hunk_ok_def is_insertion_def)

text \<open>For hunks in order, not overlapping is being before.\<close>

lemma before_iff:
  "span g \<le> span h \<Longrightarrow> hunk_ok n g \<Longrightarrow> hunk_ok n h \<Longrightarrow> before g h \<longleftrightarrow> \<not> overlaps g h"
  by (auto simp: before_def overlaps_def hunk_ok_def is_insertion_def span_def less_eq_prod_def)

lemma overlaps_sym: "overlaps g h \<longleftrightarrow> overlaps h g"
  by (auto simp: overlaps_def)

text \<open>
  What the merge loop computes on hunks in order: either two different ones overlap, or it
  applies every hunk once.
\<close>

lemma merge_loop_cases:
  assumes "sorted_wrt (\<lambda>g h. span g \<le> span h) hs" "\<forall>h \<in> set hs. hunk_ok (length b) h"
    "case prior of None \<Rightarrow> position = 0
       | Some g \<Rightarrow> position = h_end g \<and> hunk_ok (length b) g \<and> (\<forall>h \<in> set hs. span g \<le> span h)"
  shows "(\<exists>g h. g \<in> set hs \<union> set_option prior \<and> h \<in> set hs \<and> overlaps g h \<and> g \<noteq> h
            \<and> merge_loop b out position prior hs = Ok Conflict)
    \<or> (\<exists>ys. sorted_wrt before (case prior of None \<Rightarrow> ys | Some g \<Rightarrow> g # ys)
         \<and> set_option prior \<union> set ys = set_option prior \<union> set hs
         \<and> merge_loop b out position prior hs = Ok (Clean (out @ concat (patch b position ys))))"
  using assms
proof (induction hs arbitrary: out position prior)
  case Nil
  then show ?case by (intro disjI2 exI [of _ "[]"]) (auto simp: hunk_ok_def split: option.splits)
next
  case (Cons h hs)
  show ?case
  proof (cases "prior = Some h")
    case True
    with Cons.IH [of position prior out] Cons.prems show ?thesis by auto
  next
    case False
    show ?thesis
    proof (cases "case prior of Some g \<Rightarrow> overlaps g h | None \<Rightarrow> False")
      case True
      with False show ?thesis by (auto split: option.splits)
    next
      case ov: False
      have bef: "before g h" if "prior = Some g" for g
        using that Cons.prems ov before_iff [of g h "length b"] by auto
      then have pos: "position \<le> h_start h" "h_start h \<le> length b"
        using Cons.prems by (auto simp: before_def hunk_ok_def split: option.splits)
      let ?out = "out @ concat (take (h_start h - position) (drop position b)) @ concat (h_lines h)"
      have step: "merge_loop b out position prior (h # hs) = merge_loop b ?out (h_end h) (Some h) hs"
        using False ov pos by (auto split: option.splits)
      have "(\<exists>f g. f \<in> set hs \<union> set_option (Some h) \<and> g \<in> set hs \<and> overlaps f g \<and> f \<noteq> g
            \<and> merge_loop b ?out (h_end h) (Some h) hs = Ok Conflict)
        \<or> (\<exists>ys. sorted_wrt before (h # ys) \<and> set_option (Some h) \<union> set ys = set_option (Some h) \<union> set hs
             \<and> merge_loop b ?out (h_end h) (Some h) hs = Ok (Clean (?out @ concat (patch b (h_end h) ys))))"
        using Cons.IH [of "h_end h" "Some h" ?out] Cons.prems(1,2) by simp
      then show ?thesis
      proof (elim disjE exE conjE)
        fix ys
        assume ys: "sorted_wrt before (h # ys)" "set_option (Some h) \<union> set ys = set_option (Some h) \<union> set hs"
          "merge_loop b ?out (h_end h) (Some h) hs = Ok (Clean (?out @ concat (patch b (h_end h) ys)))"
        have "before g k" if "prior = Some g" "k \<in> set ys" for g k
          using before_trans [OF bef [OF that(1)], of k] ys(1) Cons.prems(2) that(2) by auto
        then have "sorted_wrt before (case prior of None \<Rightarrow> h # ys | Some g \<Rightarrow> g # h # ys)"
          using ys(1) bef by (auto split: option.splits)
        with ys step show ?thesis by (intro disjI2 exI [of _ "h # ys"]) auto
      qed (use step in auto)
    qed
  qed
qed

definition in_order :: "hunk list \<Rightarrow> hunk list \<Rightarrow> hunk list" where
  "in_order ls rs =
     map fst (sort_key (\<lambda>(h, is_left). (h_start h, h_end h, \<not> is_left))
       (map (\<lambda>h. (h, True)) ls @ map (\<lambda>h. (h, False)) rs))"

lemma set_in_order: "set (in_order ls rs) = set ls \<union> set rs"
  by (simp add: in_order_def image_Un image_image)

lemma in_order_sorted: "sorted_wrt (\<lambda>g h. span g \<le> span h) (in_order ls rs)"
proof -
  let ?key = "\<lambda>(h, is_left). (h_start h, h_end h, \<not> is_left)"
  let ?xs = "sort_key ?key (map (\<lambda>h. (h, True)) ls @ map (\<lambda>h. (h, False)) rs)"
  have "sorted_wrt (\<lambda>x y. ?key x \<le> ?key y) ?xs" using sorted_sort_key [of ?key] by (simp only: sorted_map)
  then have "sorted_wrt (\<lambda>x y. span (fst x) \<le> span (fst y)) ?xs"
    by (rule sorted_wrt_mono_rel [rotated]) (auto simp: span_def less_eq_prod_def split: prod.splits)
  then show ?thesis by (simp add: in_order_def sorted_wrt_map)
qed

lemma sorted_wrt_distinct: "sorted_wrt Q xs \<Longrightarrow> (\<And>x. x \<in> set xs \<Longrightarrow> \<not> Q x x) \<Longrightarrow> distinct xs"
  by (induction xs) auto

lemma sorted_wrt_pair: "sorted_wrt Q xs \<Longrightarrow> g \<in> set xs \<Longrightarrow> h \<in> set xs \<Longrightarrow> g \<noteq> h \<Longrightarrow> Q g h \<or> Q h g"
  by (induction xs) auto

lemma sorted_before_unique:
  assumes "sorted_wrt before xs" "sorted_wrt before ys" "set xs = set ys" "\<forall>h \<in> set xs. hunk_ok n h"
  shows "xs = ys"
  using assms
proof (induction xs arbitrary: ys)
  case (Cons x xs)
  then obtain y ys' where ys: "ys = y # ys'" by (cases ys) auto
  have "x = y"
  proof (rule ccontr)
    assume "x \<noteq> y"
    with Cons.prems ys have "before x y" "before y x" by (auto simp: insert_eq_iff)
    moreover have "hunk_ok n x" "hunk_ok n y" using Cons.prems(3,4) ys by (auto simp: list.set_intros(1))
    ultimately show False using before_asym by blast
  qed
  moreover have "x \<notin> set xs" "x \<notin> set ys'"
    using Cons.prems before_asym [of x x n] ys \<open>x = y\<close> by auto
  ultimately have "set xs = set ys'" using Cons.prems(3) ys by (auto simp: insert_ident)
  with Cons.IH [of ys'] Cons.prems ys \<open>x = y\<close> show ?case by auto
qed simp

lemma hunks_ok_before: "hunks_ok n at hs \<Longrightarrow> sorted_wrt before hs"
  by (rule sorted_wrt_mono_rel [OF _ hunks_ok_sorted])
     (auto simp: before_def is_insertion_def dest: hunks_ok_starts)

lemma hunks_ok_all: "hunks_ok n at hs \<Longrightarrow> \<forall>h \<in> set hs. hunk_ok n h"
  by (auto simp: hunk_ok_def dest: hunks_ok_starts)

lemma merge_hunks:
  assumes "hunks (lines_of base) (lines_of left) = Ok (Some ls)" "hunks (lines_of base) (lines_of right) = Ok (Some rs)"
  shows "merge_text base left right = merge_loop (lines_of base) [] 0 None (in_order ls rs)"
  using assms by (simp add: merge_text_def in_order_def Let_def)

definition clash :: "hunk list \<Rightarrow> hunk list \<Rightarrow> bool" where
  "clash ls rs \<longleftrightarrow> (\<exists>g \<in> set ls \<union> set rs. \<exists>h \<in> set ls \<union> set rs. g \<noteq> h \<and> overlaps g h)"

lemma merge_loop_in_order:
  assumes "hunks_ok (length b) 0 ls" "hunks_ok (length b) 0 rs"
  shows "clash ls rs \<and> merge_loop b [] 0 None (in_order ls rs) = Ok Conflict
    \<or> \<not> clash ls rs \<and> (\<exists>ys. sorted_wrt before ys \<and> set ys = set ls \<union> set rs
         \<and> merge_loop b [] 0 None (in_order ls rs) = Ok (Clean (concat (patch b 0 ys))))"
proof -
  have ok: "\<forall>h \<in> set ls \<union> set rs. hunk_ok (length b) h" using assms hunks_ok_all by blast
  have "\<not> clash ls rs" if ys: "sorted_wrt before ys" "set ys = set ls \<union> set rs" for ys
  proof
    assume "clash ls rs"
    then obtain g h where gh: "g \<in> set ys" "h \<in> set ys" "g \<noteq> h" "overlaps g h" by (auto simp: clash_def ys(2))
    then have "before g h \<or> before h g" using sorted_wrt_pair [OF ys(1)] by blast
    with gh ok ys(2) before_not_overlaps [of g h "length b"] before_not_overlaps [of h g "length b"] show False by auto
  qed
  moreover have "clash ls rs" if "g \<in> set ls \<union> set rs" "h \<in> set ls \<union> set rs" "overlaps g h" "g \<noteq> h" for g h
    using that by (auto simp: clash_def)
  ultimately show ?thesis
    using merge_loop_cases [OF in_order_sorted, of ls rs b 0 None "[]"] ok by (simp add: set_in_order) blast
qed

text \<open>
  C36. A merge never panics, and its outcome does not depend on which side is called left.
\<close>

theorem merge_text_symmetric:
  "\<exists>m. merge_text base left right = Ok m \<and> merge_text base right left = Ok m"
proof -
  let ?b = "lines_of base"
  consider "hunks ?b (lines_of left) = Ok None \<or> hunks ?b (lines_of right) = Ok None"
    | ls rs where "hunks ?b (lines_of left) = Ok (Some ls)" "hunks ?b (lines_of right) = Ok (Some rs)"
        "hunks_ok (length ?b) 0 ls" "hunks_ok (length ?b) 0 rs"
    using hunks_cases [of ?b "lines_of left"] hunks_cases [of ?b "lines_of right"] by blast
  then show ?thesis
  proof cases
    case 1
    then show ?thesis
      using hunks_cases [of ?b "lines_of left"] hunks_cases [of ?b "lines_of right"]
      by (auto simp: merge_text_def Let_def)
  next
    case 2
    have "clash ls rs = clash rs ls" by (auto simp: clash_def)
    moreover have "ys = zs" if "sorted_wrt before ys" "sorted_wrt before zs" "set ys = set ls \<union> set rs"
      "set zs = set rs \<union> set ls" for ys zs
      using sorted_before_unique [OF that(1,2), of "length ?b"] that(3,4) hunks_ok_all [OF 2(3)] hunks_ok_all [OF 2(4)]
      by blast
    ultimately show ?thesis
      using merge_loop_in_order [OF 2(3,4)] merge_loop_in_order [OF 2(4,3)] 2(1,2)
      by (auto simp: merge_hunks)
  qed
qed

text \<open>
  C16. A merge that is not too large conflicts exactly when two different changes touch the same
  lines or insert at the same point; otherwise it applies every change of both sides to the base
  once, in order.
\<close>

theorem merge_text_applies_both:
  assumes "hunks (lines_of base) (lines_of left) = Ok (Some ls)" "hunks (lines_of base) (lines_of right) = Ok (Some rs)"
  shows "if \<exists>g \<in> set ls \<union> set rs. \<exists>h \<in> set ls \<union> set rs. g \<noteq> h \<and> overlaps g h
    then merge_text base left right = Ok Conflict
    else \<exists>ys. sorted_wrt (\<lambda>g h. h_end g \<le> h_start h) ys \<and> distinct ys \<and> set ys = set ls \<union> set rs
      \<and> merge_text base left right = Ok (Clean (concat (patch (lines_of base) 0 ys)))"
proof -
  note ok = hunks_Some [OF assms(1)] hunks_Some [OF assms(2)]
  have "sorted_wrt (\<lambda>g h. h_end g \<le> h_start h) ys" if "sorted_wrt before ys" for ys
    by (rule sorted_wrt_mono_rel [OF _ that]) (simp add: before_def)
  moreover have "distinct ys" if "sorted_wrt before ys" "set ys = set ls \<union> set rs" for ys
  proof -
    have "\<not> before h h" if "h \<in> set ls \<union> set rs" for h
      using that before_asym [of h h "length (lines_of base)"] ok hunks_ok_all by blast
    with that sorted_wrt_distinct [of before ys] show ?thesis by auto
  qed
  ultimately show ?thesis
    using merge_loop_in_order [of "lines_of base" ls rs] ok merge_hunks [OF assms] by (auto simp: clash_def)
qed


lemma common_prefix_same: "common_prefix a a = length a"
  by (induction a) (simp_all add: common_prefix_def)

lemma hunk_loop_same:
  "m \<le> n \<Longrightarrow> hunk_loop other m m (map (\<lambda>i. (i, i)) [m..<n] @ [(n, n)]) = Ok []"
proof (induction "n - m" arbitrary: m)
  case (Suc x)
  then have "m < n" by simp
  then show ?case using Suc.hyps(1) [of "Suc m"] Suc.hyps(2) by (simp add: upt_conv_Cons)
qed simp

lemma hunks_same: "hunks b b = Ok (Some [])"
proof -
  have "middle b b b = []" "same_suffix b b = 0"
    by (simp_all add: middle_def common_prefix_same same_suffix_def)
  then have "matches b b = Some (map (\<lambda>i. (i, i)) [0..<length b])"
    by (simp add: matches_eq common_prefix_same MAX_DIFF_CELLS_def walk.simps)
  then show ?thesis using hunk_loop_same [of 0 "length b" b] by (simp add: hunks_def)
qed

lemma merge_only:
  assumes "hunks_ok (length b) 0 ls" "hunks_ok (length b) 0 rs" "hunks_ok (length b) 0 hs" "set ls \<union> set rs = set hs"
  shows "merge_loop b [] 0 None (in_order ls rs) = Ok (Clean (concat (patch b 0 hs)))"
proof -
  note hs = hunks_ok_before [OF assms(3)] hunks_ok_all [OF assms(3)]
  have "\<not> clash ls rs"
  proof
    assume "clash ls rs"
    then obtain g h where gh: "g \<in> set hs" "h \<in> set hs" "g \<noteq> h" "overlaps g h" by (auto simp: clash_def assms(4))
    then have "before g h \<or> before h g" using sorted_wrt_pair [OF hs(1)] by blast
    with gh hs(2) before_not_overlaps [of g h "length b"] before_not_overlaps [of h g "length b"] show False by auto
  qed
  with merge_loop_in_order [OF assms(1,2)] sorted_before_unique [of _ hs "length b"] hs assms(4) show ?thesis by metis
qed

text \<open>
  When only one side changed the text, the merge is that side's text; when both made the same
  changes, it is the text they agree on. No line of an unchanged side is lost or repeated.
\<close>

lemma merge_text_one_sided:
  assumes "(length (lines_of base) + 1) * (length (lines_of other) + 1) \<le> MAX_DIFF_CELLS"
  shows "merge_text base base other = Ok (Clean other) \<and> merge_text base other base = Ok (Clean other)
    \<and> merge_text base other other = Ok (Clean other)"
proof -
  let ?b = "lines_of base"
  obtain hs where hs: "hunks ?b (lines_of other) = Ok (Some hs)" "hunks_ok (length ?b) 0 hs" "patch ?b 0 hs = lines_of other"
    using hunks_cases [of ?b "lines_of other"] hunks_None [of ?b "lines_of other"] assms by auto
  have "merge_loop ?b [] 0 None (in_order [] hs) = Ok (Clean other)"
    "merge_loop ?b [] 0 None (in_order hs []) = Ok (Clean other)"
    "merge_loop ?b [] 0 None (in_order hs hs) = Ok (Clean other)"
    using merge_only [of ?b _ _ hs] hs(2,3) by simp_all
  then show ?thesis
    by (simp add: merge_hunks [OF hunks_same hs(1)] merge_hunks [OF hs(1) hunks_same] merge_hunks [OF hs(1) hs(1)])
qed

section \<open>A sample merge\<close>

abbreviation sample_base :: str where "sample_base \<equiv> text3 CHR ''a'' CHR ''b'' CHR ''c''"
abbreviation sample_left :: str where "sample_left \<equiv> text3 CHR ''x'' CHR ''b'' CHR ''c''"
abbreviation sample_right :: str where "sample_right \<equiv> text3 CHR ''a'' CHR ''b'' CHR ''y''"

lemma sample_hunks:
  "hunks (lines_of sample_base) (lines_of sample_left)
     = Ok (Some [\<lparr>h_start = 0, h_end = 1, h_lines = [[CHR ''x'', CHR 0x0A]]\<rparr>])"
  "hunks (lines_of sample_base) (lines_of sample_right)
     = Ok (Some [\<lparr>h_start = 2, h_end = 3, h_lines = [[CHR ''y'', CHR 0x0A]]\<rparr>])"
  by (simp_all add: diff_eval numeral_2_eq_2)

theorem merge_text_applies_both_witness:
  "\<exists>t. merge_text sample_base sample_left sample_right = Ok (Clean t)"
  using merge_text_applies_both [OF sample_hunks] by (auto simp: overlaps_def is_insertion_def)

end
