(* ===== verification/Trust.thy ===== *)
theory Trust
  imports ContainerFacts
begin

text \<open>
  Judging revisions, \<open>src/file_history/policy.rs\<close> from \<open>BridgeEvidence\<close> on: which proofs verify
  under the keys a store knows, when a revision is trusted under a policy, when it is finalized,
  and which revision may be delivered. The trait \<open>TrustContext\<close> is a record of its methods.
\<close>

section \<open>What evaluation needs from the store\<close>

datatype bridge_evidence = NoBridge | NonPrivateAuthorized | PrivateAuthorized

datatype generation_evidence = Current | Recorded | Unavailable

record trust_context =
  ctx_signing_public :: "bytes \<Rightarrow> str \<Rightarrow> bytes option"
  ctx_historical_signing_publics :: "bytes \<Rightarrow> str \<Rightarrow> u64 \<Rightarrow> bytes list"
  ctx_bridge_evidence :: "bytes \<Rightarrow> bridge_evidence"
  ctx_revision_bridge_evidence :: "file_revision \<Rightarrow> str \<Rightarrow> bridge_evidence"
  ctx_bridge_between :: "str \<Rightarrow> str \<Rightarrow> bridge_evidence"
  ctx_generation_evidence :: "str \<Rightarrow> u64 \<Rightarrow> generation_evidence"

text \<open>A context that implements the two required methods and inherits the default ones.\<close>

definition default_context :: "(bytes \<Rightarrow> str \<Rightarrow> bytes option) \<Rightarrow> (bytes \<Rightarrow> bridge_evidence) \<Rightarrow> trust_context" where
  "default_context signing_public bridge_evidence =
     \<lparr>ctx_signing_public = signing_public,
      ctx_historical_signing_publics = (\<lambda>_ _ _. []),
      ctx_bridge_evidence = bridge_evidence,
      ctx_revision_bridge_evidence = (\<lambda>revision _. bridge_evidence (r_revision_id revision)),
      ctx_bridge_between = (\<lambda>_ _. NoBridge),
      ctx_generation_evidence = (\<lambda>_ _. Current)\<rparr>"

datatype trust_reason =
    PolicyHashMismatch | UnrelatedActor | RoleForbidden | MissingContentSignature | GenerationMismatch
  | UnknownSigner | InvalidContentSignature | MissingCountersignature | InvalidCountersignature
  | MissingBridgeOrOwnerApproval | MissingBridgeApproval | MissingScopeOwnerApproval
  | MissingTopologyEvidence

datatype trust_state = Trusted | Pending trust_reason | Denied trust_reason

section \<open>Checking proofs\<close>

definition candidate_keys :: "trust_context \<Rightarrow> file_revision \<Rightarrow> revision_proof \<Rightarrow> bytes list" where
  "candidate_keys ctx revision p =
     (let current = ctx_signing_public ctx (p_signer_identity p) (p_signer_label p);
          historical = ctx_historical_signing_publics ctx (p_signer_identity p) (p_signer_label p)
            (r_topology_generation revision) in
      (case current of Some key \<Rightarrow> [key] | None \<Rightarrow> []) @ filter (\<lambda>key. Some key \<noteq> current) historical)"

definition check_signature :: "prims \<Rightarrow> trust_context \<Rightarrow> file_revision \<Rightarrow> revision_proof \<Rightarrow> bool option" where
  "check_signature P ctx revision p =
     (let candidates = candidate_keys ctx revision p in
      if candidates = [] then None
      else Some (case proof_preimage P p revision of
             Inl _ \<Rightarrow> False
           | Inr d \<Rightarrow> list_ex (\<lambda>key. verify_signature P key d (p_signature p) = Ok ()) candidates))"

definition bound_to :: "file_revision \<Rightarrow> revision_proof \<Rightarrow> bool" where
  "bound_to revision p \<longleftrightarrow>
     p_topology_generation p = r_topology_generation revision \<and> p_policy_hash p = r_policy_hash revision"

definition proof_verifies :: "prims \<Rightarrow> trust_context \<Rightarrow> file_revision \<Rightarrow> revision_proof \<Rightarrow> bool" where
  "proof_verifies P ctx revision p \<longleftrightarrow>
     bound_to revision p \<and> check_signature P ctx revision p = Some True"

definition proofs_for :: "tracked_file \<Rightarrow> bytes \<Rightarrow> proof_kind \<Rightarrow> revision_proof list" where
  "proofs_for f revision_id k =
     filter (\<lambda>p. p_revision_id p = revision_id \<and> p_kind p = k) (tf_proofs f)"

text \<open>The author's own content proofs of a revision.\<close>

definition author_proofs :: "tracked_file \<Rightarrow> bytes \<Rightarrow> file_revision \<Rightarrow> revision_proof list" where
  "author_proofs f revision_id revision =
     filter (\<lambda>p. p_signer_label p = r_author_hcp_label revision
                 \<and> Some (p_signer_identity p) = r_author_identity revision)
       (proofs_for f revision_id Content)"

section \<open>Trust\<close>

text \<open>
  The last part of \<open>evaluate_revision_trust\<close>: a countersignature by \<open>supervisor\<close>, if there is
  one to ask, over the author signature \<open>author_hash\<close>.
\<close>

definition judge_countersignature ::
    "prims \<Rightarrow> trust_context \<Rightarrow> tracked_file \<Rightarrow> bytes \<Rightarrow> file_revision \<Rightarrow> bytes \<Rightarrow> str option \<Rightarrow> trust_reason
      \<Rightarrow> trust_state" where
  "judge_countersignature P ctx f revision_id revision author_hash supervisor missing =
     (let counters = (case supervisor of
            Some label \<Rightarrow> filter (\<lambda>p. p_signer_label p = label) (proofs_for f revision_id Countersignature)
          | None \<Rightarrow> []) in
      case counters of
        [] \<Rightarrow> Pending missing
      | first # _ \<Rightarrow>
          if list_ex (\<lambda>p. p_author_signature_hash p = Some author_hash \<and> proof_verifies P ctx revision p) counters
          then Trusted
          else Denied (if \<not> bound_to revision first then GenerationMismatch
                       else if p_author_signature_hash first \<noteq> Some author_hash then InvalidCountersignature
                       else if check_signature P ctx revision first = None then UnknownSigner
                       else InvalidCountersignature))"

definition evaluate_revision_trust ::
    "prims \<Rightarrow> trust_context \<Rightarrow> file_policy \<Rightarrow> tracked_file \<Rightarrow> bytes \<Rightarrow> trust_state result" where
  "evaluate_revision_trust P ctx policy f revision_id =
     and_then (ok_or InvalidTrackedFile (get (tf_revisions f) revision_id)) (\<lambda>stored.
     let revision = s_revision stored in
     and_then (policy_hash P policy) (\<lambda>hash.
     if r_policy_hash revision \<noteq> hash then Ok (Denied PolicyHashMismatch) else
     case requirement_for policy (r_author_hcp_label revision) of
       None \<Rightarrow> Ok (Denied UnrelatedActor)
     | Some requirement \<Rightarrow>
         if requirement = Forbidden then Ok (Denied RoleForbidden)
         else if ctx_generation_evidence ctx (fp_scope_root policy) (r_topology_generation revision) = Unavailable
         then Ok (Pending MissingTopologyEvidence)
         else case author_proofs f revision_id revision of
           [] \<Rightarrow> Ok (Pending MissingContentSignature)
         | first # candidates \<Rightarrow>
           (case List.find (proof_verifies P ctx revision) (first # candidates) of
              None \<Rightarrow>
                if \<not> bound_to revision first then Ok (Denied GenerationMismatch)
                else (case check_signature P ctx revision first of
                        None \<Rightarrow> Ok (Denied UnknownSigner)
                      | Some _ \<Rightarrow> Ok (Denied InvalidContentSignature))
            | Some author_proof \<Rightarrow>
                let judge = judge_countersignature P ctx f revision_id revision (signature_hash P author_proof);
                    bridged = ctx_revision_bridge_evidence ctx revision (fp_scope_root policy) \<noteq> NoBridge in
                (case requirement of
                   Forbidden \<Rightarrow> Ok Trusted
                 | AuthorSign \<Rightarrow> Ok Trusted
                 | AuthorSignDirectParent \<Rightarrow>
                     Ok (judge (parent_node_label (r_author_hcp_label revision)) MissingCountersignature)
                 | AuthorSignBridgeOrOwner \<Rightarrow>
                     if bridged then Ok Trusted
                     else Ok (judge (Some (fp_scope_root policy)) MissingBridgeOrOwnerApproval)
                 | AuthorSignBridgeAndOwner \<Rightarrow>
                     if \<not> bridged then Ok (Pending MissingBridgeApproval)
                     else Ok (judge (Some (fp_scope_root policy)) MissingScopeOwnerApproval)))))"

abbreviation is_trusted :: "prims \<Rightarrow> trust_context \<Rightarrow> file_policy \<Rightarrow> tracked_file \<Rightarrow> bytes \<Rightarrow> bool" where
  "is_trusted P ctx policy f i \<equiv> evaluate_revision_trust P ctx policy f i = Ok Trusted"

section \<open>Delivery\<close>

datatype delivery_decision_kind =
    CurrentTrustedRevision | LastTrustedRevision | RequesterAlreadyCurrent | DeniedNoTrustedRevision
  | DeniedPolicy

fun decision_code :: "delivery_decision_kind \<Rightarrow> u8" where
  "decision_code CurrentTrustedRevision = 1"
| "decision_code LastTrustedRevision = 2"
| "decision_code RequesterAlreadyCurrent = 3"
| "decision_code DeniedNoTrustedRevision = 4"
| "decision_code DeniedPolicy = 5"

definition decision_from_code :: "u8 \<Rightarrow> delivery_decision_kind option" where
  "decision_from_code code =
     (if code = 1 then Some CurrentTrustedRevision else
      if code = 2 then Some LastTrustedRevision else
      if code = 3 then Some RequesterAlreadyCurrent else
      if code = 4 then Some DeniedNoTrustedRevision else
      if code = 5 then Some DeniedPolicy else None)"

record delivery_decision =
  dd_candidate_revision :: bytes
  dd_delivered_revision :: "bytes option"
  dd_decision :: delivery_decision_kind
  dd_content_proof :: "bytes option"

text \<open>The bytes \<open>proof_descriptor\<close> hashes for one proof.\<close>

definition describe_proof :: "revision_proof \<Rightarrow> bytes result" where
  "describe_proof p =
     and_then (hash_len_prefixed (as_bytes (p_signer_label p))) (\<lambda>label.
     Ok ([proof_kind_code (p_kind p)] @ p_signer_identity p @ label
         @ (case p_author_signature_hash p of Some hash \<Rightarrow> 1 # hash | None \<Rightarrow> [0])
         @ push_u64 (p_topology_generation p) @ p_policy_hash p @ p_signature p))"

definition PROOF_DESCRIPTOR_DOMAIN :: bytes where
  "PROOF_DESCRIPTOR_DOMAIN = as_bytes ''KQ-FILE-PROOF-DESCRIPTOR-v1''"

definition descriptor_fed :: "tracked_file \<Rightarrow> bytes \<Rightarrow> bytes result" where
  "descriptor_fed f revision =
     and_then (encode_all describe_proof (filter (\<lambda>p. p_revision_id p = revision) (tf_proofs f))) (\<lambda>proofs.
     Ok (PROOF_DESCRIPTOR_DOMAIN @ revision @ proofs))"

definition proof_descriptor :: "prims \<Rightarrow> tracked_file \<Rightarrow> bytes \<Rightarrow> bytes result" where
  "proof_descriptor P f revision = and_then (descriptor_fed f revision) (\<lambda>bs. Ok (sha256 P bs))"

definition event_attested :: "prims \<Rightarrow> trust_context \<Rightarrow> tracked_file \<Rightarrow> u64 \<Rightarrow> str option" where
  "event_attested P ctx f sequence =
     (case event_at (tf_events f) sequence of
        None \<Rightarrow> None
      | Some event \<Rightarrow>
          let d = event_preimage P (tf_file_id f) event in
          map_option ep_signer_label
            (List.find (\<lambda>p.
                let current = ctx_signing_public ctx (ep_signer_identity p) (ep_signer_label p);
                    historical = (case e_topology_generation event of
                        None \<Rightarrow> []
                      | Some generation \<Rightarrow>
                          ctx_historical_signing_publics ctx (ep_signer_identity p) (ep_signer_label p) generation) in
                list_ex (\<lambda>public. verify_signature P public d (ep_signature p) = Ok ())
                  ((case current of Some key \<Rightarrow> [key] | None \<Rightarrow> []) @ historical))
              (filter (\<lambda>p. ep_sequence p = sequence) (tf_event_proofs f))))"

definition current_revision :: "tracked_file \<Rightarrow> bytes option" where
  "current_revision f = (case heads (tf_revisions f) of [only] \<Rightarrow> Some only | _ \<Rightarrow> None)"

definition latest_trusted_revision_where ::
    "prims \<Rightarrow> trust_context \<Rightarrow> file_policy \<Rightarrow> (bytes \<Rightarrow> bool) \<Rightarrow> tracked_file \<Rightarrow> bytes option" where
  "latest_trusted_revision_where P ctx policy accept f =
     List.find (is_trusted P ctx policy f) (filter accept (map rev_id (rev (tf_revisions f))))"

definition latest_trusted_revision :: "prims \<Rightarrow> trust_context \<Rightarrow> file_policy \<Rightarrow> tracked_file \<Rightarrow> bytes option" where
  "latest_trusted_revision P ctx policy f = latest_trusted_revision_where P ctx policy (\<lambda>_. True) f"

record delivery_readiness_state =
  dr_forked :: bool
  dr_author_signed :: bool
  dr_trusted :: bool
  dr_coauthored :: bool

definition READINESS_THRESHOLD :: nat where "READINESS_THRESHOLD = 3"

definition potential :: "delivery_readiness_state \<Rightarrow> nat" where
  "potential r = of_bool (dr_author_signed r) + of_bool (dr_trusted r) + of_bool (dr_coauthored r)"

definition ready :: "delivery_readiness_state \<Rightarrow> bool" where
  "ready r \<longleftrightarrow> \<not> dr_forked r \<and> potential r \<ge> READINESS_THRESHOLD"

definition delivery_readiness ::
    "prims \<Rightarrow> trust_context \<Rightarrow> file_policy \<Rightarrow> tracked_file \<Rightarrow> bytes \<Rightarrow> bytes \<Rightarrow> str
      \<Rightarrow> delivery_readiness_state result" where
  "delivery_readiness P ctx policy f revision_id recipient_identity recipient_label =
     and_then (ok_or InvalidTrackedFile (get (tf_revisions f) revision_id)) (\<lambda>stored.
     let revision = s_revision stored;
         author_proof = List.find (proof_verifies P ctx revision) (author_proofs f revision_id revision) in
     and_then (evaluate_revision_trust P ctx policy f revision_id) (\<lambda>state.
     Ok \<lparr>dr_forked = (current_revision f = None),
         dr_author_signed = (author_proof \<noteq> None),
         dr_trusted = (state = Trusted),
         dr_coauthored = (case author_proof of
             None \<Rightarrow> False
           | Some author_proof \<Rightarrow>
               list_ex (proof_verifies P ctx revision)
                 (filter (\<lambda>p. p_signer_label p = recipient_label \<and> p_signer_identity p = recipient_identity
                     \<and> p_author_signature_hash p = Some (signature_hash P author_proof))
                   (proofs_for f revision_id CoAuthor)))\<rparr>))"

definition supervisor_permits :: "prims \<Rightarrow> trust_context \<Rightarrow> tracked_file \<Rightarrow> bytes \<Rightarrow> bool" where
  "supervisor_permits P ctx f revision_id =
     (case (get (tf_revisions f) revision_id, tf_policy f) of
        (Some stored, Some policy) \<Rightarrow>
          let revision = s_revision stored in
          (case List.find (proof_verifies P ctx revision) (author_proofs f revision_id revision) of
             None \<Rightarrow> False
           | Some author_proof \<Rightarrow>
               list_ex (\<lambda>p. is_ancestor_or_self (p_signer_label p) (fp_scope_root policy)
                   \<and> p_author_signature_hash p = Some (signature_hash P author_proof)
                   \<and> proof_verifies P ctx revision p)
                 (proofs_for f revision_id Countersignature))
      | _ \<Rightarrow> False)"

definition is_finalized :: "prims \<Rightarrow> trust_context \<Rightarrow> file_policy \<Rightarrow> tracked_file \<Rightarrow> bytes \<Rightarrow> bool" where
  "is_finalized P ctx policy f revision_id =
     (case get (tf_revisions f) revision_id of
        None \<Rightarrow> False
      | Some stored \<Rightarrow>
          is_trusted P ctx policy f revision_id
          \<and> list_ex (\<lambda>p. is_ancestor_or_self (p_signer_label p) (fp_scope_root policy)
                \<and> proof_verifies P ctx (s_revision stored) p)
              (proofs_for f revision_id Finalization))"

definition latest_finalized_ancestor ::
    "prims \<Rightarrow> trust_context \<Rightarrow> file_policy \<Rightarrow> tracked_file \<Rightarrow> bytes \<Rightarrow> bytes option" where
  "latest_finalized_ancestor P ctx policy f head =
     (let ancestors = ancestor_set (tf_revisions f) head in
      List.find (\<lambda>i. i \<in> ancestors \<and> is_finalized P ctx policy f i) (map rev_id (rev (tf_revisions f))))"

definition finalized_checkpoints ::
    "prims \<Rightarrow> trust_context \<Rightarrow> file_policy \<Rightarrow> tracked_file \<Rightarrow> (bytes \<times> bytes option) list" where
  "finalized_checkpoints P ctx policy f =
     map (\<lambda>head. (head, latest_finalized_ancestor P ctx policy f head)) (heads (tf_revisions f))"

definition select_shareable_revision ::
    "prims \<Rightarrow> trust_context \<Rightarrow> file_policy \<Rightarrow> tracked_file \<Rightarrow> bytes \<Rightarrow> bytes option \<Rightarrow> delivery_decision result" where
  "select_shareable_revision P ctx policy f candidate requester_has =
     and_then (ok_or InvalidTrackedFile (get (tf_revisions f) candidate)) (\<lambda>_.
     let trusted = is_trusted P ctx policy f;
         (delivered, outcome) =
           (if trusted candidate then (Some candidate, CurrentTrustedRevision)
            else
              let ancestors = ancestor_set (tf_revisions f) candidate in
              case List.find (\<lambda>i. i \<noteq> candidate \<and> i \<in> ancestors \<and> trusted i)
                     (map rev_id (rev (tf_revisions f))) of
                Some i \<Rightarrow> (Some i, LastTrustedRevision)
              | None \<Rightarrow>
                  (None, case evaluate_revision_trust P ctx policy f candidate of
                           Inr (Denied _) \<Rightarrow> DeniedPolicy
                         | _ \<Rightarrow> DeniedNoTrustedRevision));
         outcome = (case (delivered, requester_has) of
             (Some i, Some held) \<Rightarrow> if i = held then RequesterAlreadyCurrent else outcome
           | _ \<Rightarrow> outcome) in
     and_then (case delivered of
         None \<Rightarrow> Ok None
       | Some i \<Rightarrow> and_then (proof_descriptor P f i) (\<lambda>d. Ok (Some d))) (\<lambda>content_proof.
     Ok \<lparr>dd_candidate_revision = candidate, dd_delivered_revision = delivered, dd_decision = outcome,
         dd_content_proof = content_proof\<rparr>))"

end
