(* ===== verification/TrustFacts.thy ===== *)
theory TrustFacts
  imports Trust
begin

text \<open>
  What the judgements of \<open>Trust\<close> mean: when a revision is trusted, what is delivered, which
  checkpoints are final, when a co-signed delivery is ready, and what a proof descriptor pins.
\<close>

section \<open>What trust means\<close>

lemma verify_signature_Ok [simp]:
  "verify_signature P key d s = Ok () \<longleftrightarrow> ed_key_ok P key \<and> ed_verify_strict P key d s"
  by (simp add: verify_signature_def)

text \<open>A key the store knows for a signer, now or when it held the given topology generation.\<close>

definition known_key :: "trust_context \<Rightarrow> bytes \<Rightarrow> str \<Rightarrow> u64 \<Rightarrow> bytes \<Rightarrow> bool" where
  "known_key ctx identity label generation key \<longleftrightarrow>
     ctx_signing_public ctx identity label = Some key
     \<or> key \<in> set (ctx_historical_signing_publics ctx identity label generation)"

lemma set_candidate_keys:
  "set (candidate_keys ctx r p) = {key. known_key ctx (p_signer_identity p) (p_signer_label p) (r_topology_generation r) key}"
  by (auto simp: candidate_keys_def known_key_def Let_def split: option.splits)

lemma proof_verifies_iff:
  "proof_verifies P ctx r p \<longleftrightarrow>
     bound_to r p \<and> (\<exists>d key. proof_preimage P p r = Ok d
       \<and> known_key ctx (p_signer_identity p) (p_signer_label p) (r_topology_generation r) key
       \<and> ed_key_ok P key \<and> ed_verify_strict P key d (p_signature p))"
proof -
  have "check_signature P ctx r p = Some True \<longleftrightarrow> (\<exists>d key. proof_preimage P p r = Ok d
      \<and> key \<in> set (candidate_keys ctx r p) \<and> ed_key_ok P key \<and> ed_verify_strict P key d (p_signature p))"
    by (auto simp: check_signature_def Let_def list_ex_iff split: sum.splits)
  then show ?thesis by (simp add: proof_verifies_def set_candidate_keys)
qed

definition backed_by ::
    "prims \<Rightarrow> trust_context \<Rightarrow> tracked_file \<Rightarrow> bytes \<Rightarrow> file_revision \<Rightarrow> revision_proof \<Rightarrow> str \<Rightarrow> bool" where
  "backed_by P ctx f i r c label \<longleftrightarrow>
     (\<exists>p \<in> set (tf_proofs f). p_revision_id p = i \<and> p_kind p = Countersignature \<and> p_signer_label p = label
        \<and> p_author_signature_hash p = Some (signature_hash P c) \<and> proof_verifies P ctx r p)"

fun requirement_met ::
    "prims \<Rightarrow> trust_context \<Rightarrow> file_policy \<Rightarrow> tracked_file \<Rightarrow> bytes \<Rightarrow> file_revision \<Rightarrow> revision_proof
      \<Rightarrow> requirement \<Rightarrow> bool" where
  "requirement_met P ctx policy f i r c Forbidden = False"
| "requirement_met P ctx policy f i r c AuthorSign = True"
| "requirement_met P ctx policy f i r c AuthorSignDirectParent =
     (\<exists>label. parent_node_label (r_author_hcp_label r) = Some label \<and> backed_by P ctx f i r c label)"
| "requirement_met P ctx policy f i r c AuthorSignBridgeOrOwner =
     (ctx_revision_bridge_evidence ctx r (fp_scope_root policy) \<noteq> NoBridge
      \<or> backed_by P ctx f i r c (fp_scope_root policy))"
| "requirement_met P ctx policy f i r c AuthorSignBridgeAndOwner =
     (ctx_revision_bridge_evidence ctx r (fp_scope_root policy) \<noteq> NoBridge
      \<and> backed_by P ctx f i r c (fp_scope_root policy))"

text \<open>The author proof that counts: the first one that verifies.\<close>

definition author_proof_of :: "prims \<Rightarrow> trust_context \<Rightarrow> tracked_file \<Rightarrow> bytes \<Rightarrow> file_revision \<Rightarrow> revision_proof option" where
  "author_proof_of P ctx f i r = List.find (proof_verifies P ctx r) (author_proofs f i r)"

lemma judge_Trusted_iff:
  "judge_countersignature P ctx f i r (signature_hash P c) supervisor missing = Trusted \<longleftrightarrow>
     (\<exists>label. supervisor = Some label \<and> backed_by P ctx f i r c label)"
proof (cases supervisor)
  case (Some label)
  let ?cs = "filter (\<lambda>p. p_signer_label p = label) (proofs_for f i Countersignature)"
  have "backed_by P ctx f i r c label \<longleftrightarrow>
      list_ex (\<lambda>p. p_author_signature_hash p = Some (signature_hash P c) \<and> proof_verifies P ctx r p) ?cs"
    by (auto simp: backed_by_def list_ex_iff proofs_for_def)
  then show ?thesis
    using Some by (cases ?cs) (simp_all add: judge_countersignature_def Let_def)
qed (simp add: judge_countersignature_def)

lemma judged_Trusted_iff:
  "requirement \<noteq> Forbidden \<Longrightarrow>
   (let judge = judge_countersignature P ctx f i r (signature_hash P c);
        bridged = ctx_revision_bridge_evidence ctx r (fp_scope_root policy) \<noteq> NoBridge in
    case requirement of
      Forbidden \<Rightarrow> Ok Trusted
    | AuthorSign \<Rightarrow> Ok Trusted
    | AuthorSignDirectParent \<Rightarrow> Ok (judge (parent_node_label (r_author_hcp_label r)) MissingCountersignature)
    | AuthorSignBridgeOrOwner \<Rightarrow>
        if bridged then Ok Trusted else Ok (judge (Some (fp_scope_root policy)) MissingBridgeOrOwnerApproval)
    | AuthorSignBridgeAndOwner \<Rightarrow>
        if \<not> bridged then Ok (Pending MissingBridgeApproval)
        else Ok (judge (Some (fp_scope_root policy)) MissingScopeOwnerApproval)) = Ok Trusted
   \<longleftrightarrow> requirement_met P ctx policy f i r c requirement"
  by (cases requirement) (auto simp: judge_Trusted_iff Let_def)

lemma trusted_iff:
  "is_trusted P ctx policy f i \<longleftrightarrow>
     (\<exists>s requirement c. get (tf_revisions f) i = Some s
        \<and> policy_hash P policy = Ok (r_policy_hash (s_revision s))
        \<and> requirement_for policy (r_author_hcp_label (s_revision s)) = Some requirement
        \<and> ctx_generation_evidence ctx (fp_scope_root policy) (r_topology_generation (s_revision s)) \<noteq> Unavailable
        \<and> author_proof_of P ctx f i (s_revision s) = Some c
        \<and> requirement_met P ctx policy f i (s_revision s) c requirement)"
proof (cases "get (tf_revisions f) i")
  case (Some s)
  let ?r = "s_revision s"
  note judged = judged_Trusted_iff [of _ P ctx f i ?r _ policy, unfolded Let_def]
  note ev = evaluate_revision_trust_def [of P ctx policy f i, unfolded Let_def Some ok_or_simps and_then_simps]
  show ?thesis
  proof (cases "author_proofs f i ?r")
    case Nil
    then show ?thesis
      by (cases "policy_hash P policy") (auto simp: ev Some author_proof_of_def split: option.splits)
  next
    case (Cons p ps)
    then have found: "List.find (proof_verifies P ctx ?r) (p # ps) = author_proof_of P ctx f i ?r"
      by (simp only: author_proof_of_def)
    note ev' = ev [unfolded Cons list.case found]
    show ?thesis
    proof (cases "policy_hash P policy"; cases "requirement_for policy (r_author_hcp_label ?r)")
      fix h req
      assume h: "policy_hash P policy = Inr h" "requirement_for policy (r_author_hcp_label ?r) = Some req"
      show ?thesis
      proof (cases "author_proof_of P ctx f i ?r")
        case None
        with h Some show ?thesis by (auto simp: ev' split: option.split)
      next
        case c: (Some c)
        show ?thesis
        proof (cases "req = Forbidden")
          case False
          with h Some c show ?thesis by (simp add: ev' judged)
        qed (use h Some c in \<open>simp add: ev'\<close>)
      qed
    qed (use Some in \<open>auto simp: ev'\<close>)
  qed
qed (simp add: evaluate_revision_trust_def)


lemma author_proof_ofD:
  assumes "author_proof_of P ctx f i r = Some c"
  shows "c \<in> set (tf_proofs f)" "p_revision_id c = i" "p_kind c = Content"
    "p_signer_label c = r_author_hcp_label r" "r_author_identity r = Some (p_signer_identity c)"
    "proof_verifies P ctx r c"
  using find_SomeD [OF assms [unfolded author_proof_of_def]]
  by (auto simp: author_proofs_def proofs_for_def)

lemma content_verifies:
  assumes "proof_verifies P ctx r c" "p_kind c = Content"
  shows "\<exists>key. known_key ctx (p_signer_identity c) (p_signer_label c) (r_topology_generation r) key
    \<and> ed_verify_strict P key (file_revision_preimage P (r_file_id r) (r_revision_id r) (r_content_commitment r)
         (p_signer_identity c) (r_topology_generation r) (r_policy_hash r)) (p_signature c)"
  using assms by (auto simp: proof_verifies_iff proof_preimage_def bound_to_def split: option.splits)

text \<open>
  C4. A trusted revision was made under the judging policy, by an author whose role the policy
  allows, in a topology generation the store can judge; it carries a signature over its own id,
  content, generation and policy by a key the store knows for that author; and the approval the
  role needs, from the author's parent, the scope owner or a bridge, backs that very signature.
\<close>

theorem trust_sound:
  assumes "evaluate_revision_trust P ctx policy f i = Ok Trusted"
  shows "\<exists>s c key author requirement. get (tf_revisions f) i = Some s \<and> r_author_identity (s_revision s) = Some author
    \<and> policy_hash P policy = Ok (r_policy_hash (s_revision s))
    \<and> requirement_for policy (r_author_hcp_label (s_revision s)) = Some requirement \<and> requirement \<noteq> Forbidden
    \<and> ctx_generation_evidence ctx (fp_scope_root policy) (r_topology_generation (s_revision s)) \<noteq> Unavailable
    \<and> c \<in> set (tf_proofs f)
    \<and> known_key ctx author (r_author_hcp_label (s_revision s)) (r_topology_generation (s_revision s)) key
    \<and> ed_verify_strict P key (file_revision_preimage P (r_file_id (s_revision s)) (r_revision_id (s_revision s))
         (r_content_commitment (s_revision s)) author (r_topology_generation (s_revision s))
         (r_policy_hash (s_revision s))) (p_signature c)
    \<and> requirement_met P ctx policy f i (s_revision s) c requirement"
proof -
  from assms obtain s requirement c where
    s: "get (tf_revisions f) i = Some s" "policy_hash P policy = Ok (r_policy_hash (s_revision s))"
      "requirement_for policy (r_author_hcp_label (s_revision s)) = Some requirement"
      "ctx_generation_evidence ctx (fp_scope_root policy) (r_topology_generation (s_revision s)) \<noteq> Unavailable"
    and c: "author_proof_of P ctx f i (s_revision s) = Some c"
    and met: "requirement_met P ctx policy f i (s_revision s) c requirement"
    unfolding trusted_iff by blast
  note author = author_proof_ofD [OF c]
  from content_verifies [OF author(6,3)] author(4) obtain key where
    "known_key ctx (p_signer_identity c) (r_author_hcp_label (s_revision s)) (r_topology_generation (s_revision s)) key"
    "ed_verify_strict P key (file_revision_preimage P (r_file_id (s_revision s)) (r_revision_id (s_revision s))
         (r_content_commitment (s_revision s)) (p_signer_identity c) (r_topology_generation (s_revision s))
         (r_policy_hash (s_revision s))) (p_signature c)" by auto
  moreover have "requirement \<noteq> Forbidden" using met by auto
  ultimately show ?thesis using s met author(1,5) by blast
qed

section \<open>What is delivered\<close>

lemma find_in_revisions:
  "List.find Q (map rev_id (rev g)) = None \<longleftrightarrow> (\<forall>i \<in> ids g. \<not> Q i)"
  by (auto simp: find_None_iff ids_def)

lemma ancestor_set_iff: "dag_ok g \<Longrightarrow> a \<in> ancestor_set g d \<longleftrightarrow> graph_ancestor_or_self g a d"
  by (simp add: dag_ok_distinct ancestor_set_eq graph_ancestor_or_self_iff)

lemma ancestor_in_ids: "dag_ok g \<Longrightarrow> graph_ancestor_or_self g a d \<Longrightarrow> a \<in> ids g"
  by (simp add: dag_ok_distinct graph_ancestor_or_self_iff)

lemma delivered_trusted:
  assumes "dag_ok (tf_revisions f)" "select_shareable_revision P ctx policy f candidate held = Ok d"
    "dd_delivered_revision d = Some i"
  shows "is_trusted P ctx policy f i" and "graph_ancestor_or_self (tf_revisions f) i candidate" and "i \<in> ids (tf_revisions f)"
proof -
  have "candidate \<in> ids (tf_revisions f)"
    using assms(2) get_None_iff [of "tf_revisions f" candidate]
    by (cases "get (tf_revisions f) candidate") (auto simp: select_shareable_revision_def)
  then have "is_trusted P ctx policy f i \<and> i \<in> ancestor_set (tf_revisions f) candidate"
    using assms(2,3) ancestor_set_iff [OF assms(1)] graph_ancestor_or_self_iff [OF dag_ok_distinct [OF assms(1)]]
    by (auto simp: select_shareable_revision_def Let_def find_Some_iff split: if_splits option.splits sum.splits)
  then show "is_trusted P ctx policy f i" "graph_ancestor_or_self (tf_revisions f) i candidate" "i \<in> ids (tf_revisions f)"
    using ancestor_set_iff [OF assms(1)] ancestor_set_eq [OF dag_ok_distinct [OF assms(1)]] by auto
qed

text \<open>
  C28. What \<open>select_shareable_revision\<close> delivers is trusted, and is the candidate or one of its
  ancestors; it delivers nothing only when no revision at or behind the candidate is trusted;
  and the decision says the candidate is current only when it is delivered.
\<close>

theorem shareable_is_trusted:
  assumes "dag_ok (tf_revisions f)" "select_shareable_revision P ctx policy f candidate held = Ok d"
  shows "case dd_delivered_revision d of
      Some i \<Rightarrow> is_trusted P ctx policy f i \<and> graph_ancestor_or_self (tf_revisions f) i candidate
        \<and> (is_trusted P ctx policy f candidate \<longrightarrow> i = candidate)
        \<and> dd_content_proof d \<noteq> None \<and> (dd_decision d = RequesterAlreadyCurrent \<longleftrightarrow> held = Some i)
        \<and> (dd_decision d = CurrentTrustedRevision \<longrightarrow> i = candidate)
    | None \<Rightarrow> (\<forall>i. graph_ancestor_or_self (tf_revisions f) i candidate \<longrightarrow> \<not> is_trusted P ctx policy f i)
        \<and> dd_content_proof d = None \<and> dd_decision d \<in> {DeniedPolicy, DeniedNoTrustedRevision}"
proof -
  let ?g = "tf_revisions f"
  let ?find = "List.find (\<lambda>i. i \<noteq> candidate \<and> i \<in> ancestor_set ?g candidate \<and> is_trusted P ctx policy f i)
                     (map rev_id (rev ?g))"
  from assms(2) have known: "candidate \<in> ids ?g"
    by (cases "get ?g candidate") (auto simp: select_shareable_revision_def dest: get_SomeD simp: ids_def)
  then have self: "graph_ancestor_or_self ?g candidate candidate"
    using assms(1) by (simp add: dag_ok_distinct graph_ancestor_or_self_iff)
  show ?thesis
  proof (cases "is_trusted P ctx policy f candidate")
    case True
    with assms(2) self show ?thesis
      by (auto simp: select_shareable_revision_def split: option.splits if_splits)
  next
    case False
    show ?thesis
    proof (cases ?find)
      case None
      then have "\<forall>i. graph_ancestor_or_self ?g i candidate \<longrightarrow> \<not> is_trusted P ctx policy f i"
        using False assms(1) ancestor_in_ids by (auto simp: find_in_revisions ancestor_set_iff)
      with assms(2) False None show ?thesis
        by (auto simp: select_shareable_revision_def split: option.splits if_splits sum.splits trust_state.splits)
    next
      case (Some i)
      then have "graph_ancestor_or_self ?g i candidate" "is_trusted P ctx policy f i"
        using assms(1) find_SomeD [OF Some] by (auto simp: ancestor_set_iff)
      with assms(2) False Some show ?thesis
        by (auto simp: select_shareable_revision_def split: option.splits if_splits)
    qed
  qed
qed


text \<open>
  C37. The finalized checkpoint of a head is behind that head, trusted, and finalized by the scope
  root or one of its ancestors with a proof that verifies; there is none only when no revision
  at or behind the head is finalized.
\<close>

theorem finalized_checkpoint_sound:
  assumes "dag_ok (tf_revisions f)" "(head, i) \<in> set (finalized_checkpoints P ctx policy f)"
  shows "case i of
      None \<Rightarrow> \<forall>a. graph_ancestor_or_self (tf_revisions f) a head \<longrightarrow> \<not> is_finalized P ctx policy f a
    | Some i \<Rightarrow> graph_ancestor_or_self (tf_revisions f) i head \<and> is_trusted P ctx policy f i
        \<and> (\<exists>s p. get (tf_revisions f) i = Some s \<and> p \<in> set (tf_proofs f) \<and> p_kind p = Finalization
             \<and> p_revision_id p = i \<and> is_ancestor_or_self (p_signer_label p) (fp_scope_root policy)
             \<and> proof_verifies P ctx (s_revision s) p)"
proof -
  let ?g = "tf_revisions f"
  from assms(2) have i: "List.find (\<lambda>i. i \<in> ancestor_set ?g head \<and> is_finalized P ctx policy f i)
      (map rev_id (rev ?g)) = i"
    by (auto simp: finalized_checkpoints_def latest_finalized_ancestor_def)
  show ?thesis
  proof (cases i)
    case None
    with i assms(1) ancestor_in_ids show ?thesis by (auto simp: find_in_revisions ancestor_set_iff)
  next
    case (Some a)
    with i assms(1) have "graph_ancestor_or_self ?g a head" and fin: "is_finalized P ctx policy f a"
      using find_SomeD by (fastforce simp: ancestor_set_iff)+
    then show ?thesis
      using Some by (auto simp: is_finalized_def list_ex_iff proofs_for_def split: option.splits)
  qed
qed

text \<open>
  A co-signed delivery is ready exactly when the file has a single head, the revision is
  trusted, and a co-author proof by the recipient verifies and backs the author proof that counts.
\<close>

lemma ready_iff:
  assumes "delivery_readiness P ctx policy f i recipient label = Ok r"
  shows "ready r \<longleftrightarrow> (\<exists>h. heads (tf_revisions f) = [h]) \<and> is_trusted P ctx policy f i
    \<and> (\<exists>s c p. get (tf_revisions f) i = Some s \<and> author_proof_of P ctx f i (s_revision s) = Some c
         \<and> p \<in> set (tf_proofs f) \<and> p_kind p = CoAuthor \<and> p_revision_id p = i
         \<and> p_signer_identity p = recipient \<and> p_signer_label p = label
         \<and> p_author_signature_hash p = Some (signature_hash P c) \<and> proof_verifies P ctx (s_revision s) p)"
proof -
  from assms obtain s state where s: "get (tf_revisions f) i = Some s"
    and state: "evaluate_revision_trust P ctx policy f i = Ok state"
    by (cases "get (tf_revisions f) i") (auto simp: delivery_readiness_def Let_def)
  have head: "current_revision f \<noteq> None \<longleftrightarrow> (\<exists>h. heads (tf_revisions f) = [h])"
    by (simp add: current_revision_def split: list.split)
  have "ready r \<longleftrightarrow> current_revision f \<noteq> None \<and> state = Trusted \<and> dr_author_signed r \<and> dr_coauthored r"
    using assms s state by (auto simp: delivery_readiness_def ready_def potential_def READINESS_THRESHOLD_def Let_def)
  moreover have "dr_author_signed r \<and> dr_coauthored r \<longleftrightarrow>
      (\<exists>c p. author_proof_of P ctx f i (s_revision s) = Some c \<and> p \<in> set (tf_proofs f) \<and> p_kind p = CoAuthor
         \<and> p_revision_id p = i \<and> p_signer_identity p = recipient \<and> p_signer_label p = label
         \<and> p_author_signature_hash p = Some (signature_hash P c) \<and> proof_verifies P ctx (s_revision s) p)"
    using assms s state
    by (cases "author_proof_of P ctx f i (s_revision s)")
       (auto simp: delivery_readiness_def Let_def list_ex_iff proofs_for_def author_proof_of_def)
  ultimately show ?thesis using s state head by auto
qed

section \<open>The proof descriptor\<close>

lemma encode_describe:
  "encode_proof p = and_then (describe_proof p) (\<lambda>b. Ok (p_revision_id p @ b))"
  by (auto simp: encode_proof_def describe_proof_def hash_eq_push push_str_def push_opt_array_def
      and_then_def split: sum.split option.split)

lemma describe_prefix_free:
  assumes "describe_proof p = Ok b" "describe_proof q = Ok c" "b @ x = c @ y" "proof_ok p" "proof_ok q"
    "p_revision_id p = p_revision_id q"
  shows "p = q \<and> x = y"
proof -
  have "decode_proof ((p_revision_id p @ b) @ x) = Ok (p, x)"
    by (rule proof_codec.dec_enc [OF assms(4)]) (simp add: encode_describe assms(1))
  moreover have "decode_proof ((p_revision_id q @ c) @ y) = Ok (q, y)"
    by (rule proof_codec.dec_enc [OF assms(5)]) (simp add: encode_describe assms(2))
  ultimately show ?thesis using assms(3,6) by simp
qed

lemma describe_nonempty: "describe_proof p = Ok b \<Longrightarrow> b \<noteq> []"
  by (auto simp: describe_proof_def)

lemma describe_all_inj:
  assumes "encode_all describe_proof ps = Ok b" "encode_all describe_proof qs = Ok b"
    "list_all (\<lambda>p. proof_ok p \<and> p_revision_id p = i) ps" "list_all (\<lambda>p. proof_ok p \<and> p_revision_id p = i) qs"
  shows "ps = qs"
  using assms
proof (induction ps arbitrary: qs b)
  case Nil
  then show ?case by (cases qs) (auto simp: encode_all_Cons dest: describe_nonempty)
next
  case (Cons p ps)
  then obtain pb pc where p: "describe_proof p = Ok pb" "encode_all describe_proof ps = Ok pc" "b = pb @ pc"
    by (auto simp: encode_all_Cons)
  with Cons.prems(2) obtain q qs' where q: "qs = q # qs'" by (cases qs) (auto dest: describe_nonempty)
  with Cons.prems(2) obtain qb qc where
    qe: "describe_proof q = Ok qb" "encode_all describe_proof qs' = Ok qc" "b = qb @ qc"
    by (auto simp: encode_all_Cons)
  have "p = q \<and> pc = qc"
    by (rule describe_prefix_free [OF p(1) qe(1)]) (use p(3) qe(3) Cons.prems(3,4) q in auto)
  with Cons.IH [of pc qs'] Cons.prems(3,4) p(2) qe(2) q show ?case by auto
qed

text \<open>
  The descriptor a delivery letter signs names the proofs that travelled: two files whose
  proofs of a revision differ, in any field or in order, have different descriptors of it, unless
  the hashed bytes collide.
\<close>

lemma descriptor_commits:
  assumes "file_ok f" "file_ok g" "descriptor_fed f i = Ok b" "descriptor_fed g i = Ok c" "no_collision P {b, c}"
    "filter (\<lambda>p. p_revision_id p = i) (tf_proofs f) \<noteq> filter (\<lambda>p. p_revision_id p = i) (tf_proofs g)"
  shows "proof_descriptor P f i \<noteq> proof_descriptor P g i"
proof
  assume "proof_descriptor P f i = proof_descriptor P g i"
  then have "sha256 P b = sha256 P c" by (simp add: proof_descriptor_def assms(3,4))
  from inj_onD [OF assms(5) [unfolded no_collision_def] this] have "b = c" by simp
  with assms(3,4) obtain e where
    e: "encode_all describe_proof (filter (\<lambda>p. p_revision_id p = i) (tf_proofs f)) = Ok e"
      "encode_all describe_proof (filter (\<lambda>p. p_revision_id p = i) (tf_proofs g)) = Ok e"
    unfolding descriptor_fed_def by auto
  have "list_all (\<lambda>p. proof_ok p \<and> p_revision_id p = i) (filter (\<lambda>p. p_revision_id p = i) (tf_proofs f))"
    "list_all (\<lambda>p. proof_ok p \<and> p_revision_id p = i) (filter (\<lambda>p. p_revision_id p = i) (tf_proofs g))"
    using assms(1,2) by (simp_all add: file_ok_def list_all_iff)
  from describe_all_inj [OF e this] assms(6) show False by simp
qed

end
