(* ===== verification/ProofOps.thy ===== *)
theory ProofOps
  imports TrustFacts
begin

text \<open>
  Making signatures, the \<open>TrackedFile\<close> methods of \<open>src/file_history/proof.rs\<close>: signing an event
  as its actor, and the content, countersignature, finalization and co-author proofs of a revision.
\<close>

section \<open>The proof slots\<close>

definition sign_event :: "prims \<Rightarrow> u64 \<Rightarrow> bytes \<Rightarrow> str \<Rightarrow> bytes \<Rightarrow> (tracked_file, unit) op" where
  "sign_event P sequence signer_identity signer_label secret f =
     (case event_at (tf_events f) sequence of
        None \<Rightarrow> (Err InvalidTrackedFile, f)
      | Some event \<Rightarrow>
          if e_actor_label event \<noteq> Some signer_label \<or> e_actor_identity event \<noteq> Some signer_identity
             \<or> list_ex (\<lambda>p. ep_sequence p = sequence \<and> ep_signer_label p = signer_label) (tf_event_proofs f)
          then (Err InvalidTrackedFile, f)
          else (Ok (), f\<lparr>tf_event_proofs := tf_event_proofs f
                 @ [\<lparr>ep_sequence = sequence, ep_signer_identity = signer_identity,
                     ep_signer_label = signer_label,
                     ep_signature = sign P secret (event_preimage P (tf_file_id f) event)\<rparr>]\<rparr>))"

definition slot_count :: "revision_proof \<Rightarrow> revision_proof list \<Rightarrow> nat" where
  "slot_count p ps = length (filter (\<lambda>q. same_slot q p) ps)"

text \<open>\<open>position\<close> and \<open>remove\<close>: without the first proof in the slot, if there is one.\<close>

fun remove_oldest :: "revision_proof \<Rightarrow> revision_proof list \<Rightarrow> revision_proof list" where
  "remove_oldest p [] = []"
| "remove_oldest p (q # ps) = (if same_slot q p then ps else q # remove_oldest p ps)"

lemma slot_count_remove_oldest: "slot_count p (remove_oldest p ps) = slot_count p ps - 1"
  by (induction ps) (auto simp: slot_count_def Suc_diff_Suc)

function make_room :: "revision_proof \<Rightarrow> revision_proof list \<Rightarrow> revision_proof list" where
  "make_room p ps =
     (if slot_count p ps \<ge> MAX_PROOFS_PER_SLOT then make_room p (remove_oldest p ps) else ps)"
  by pat_completeness auto
termination
  by (relation "measure (\<lambda>(p, ps). slot_count p ps)")
     (auto simp: slot_count_remove_oldest MAX_PROOFS_PER_SLOT_def)

definition add_proof :: "revision_proof \<Rightarrow> tracked_file \<Rightarrow> bool \<times> tracked_file" where
  "add_proof p f =
     (if list_ex (\<lambda>mine. same_slot mine p \<and> p_signature mine = p_signature p) (tf_proofs f) then (False, f)
      else (True, f\<lparr>tf_proofs := make_room p (tf_proofs f) @ [p]\<rparr>))"

section \<open>Signing\<close>

text \<open>
  The common end of the signing methods: fill in the signature and add the proof, refusing one
  that is already held.
\<close>

definition sign_and_add :: "prims \<Rightarrow> bytes \<Rightarrow> file_revision \<Rightarrow> revision_proof \<Rightarrow> (tracked_file, unit) op" where
  "sign_and_add P secret revision p f =
     (case proof_preimage P p revision of
        Inl e \<Rightarrow> (Err e, f)
      | Inr d \<Rightarrow>
          let (added, f') = add_proof (p\<lparr>p_signature := sign P secret d\<rparr>) f in
          if added then (Ok (), f') else (Err InvalidTrackedFile, f'))"

text \<open>The unsigned proof each method starts from, bound to the revision's generation and policy.\<close>

definition unsigned_proof ::
    "bytes \<Rightarrow> proof_kind \<Rightarrow> bytes \<Rightarrow> str \<Rightarrow> bytes option \<Rightarrow> file_revision \<Rightarrow> revision_proof" where
  "unsigned_proof revision_id k signer_identity signer_label author_signature_hash revision =
     \<lparr>p_revision_id = revision_id, p_kind = k, p_signer_identity = signer_identity,
      p_signer_label = signer_label, p_author_signature_hash = author_signature_hash,
      p_topology_generation = r_topology_generation revision, p_policy_hash = r_policy_hash revision,
      p_signature = replicate 64 0\<rparr>"

definition sign_revision :: "prims \<Rightarrow> bytes \<Rightarrow> bytes \<Rightarrow> str \<Rightarrow> bytes \<Rightarrow> (tracked_file, unit) op" where
  "sign_revision P revision_id signer_identity signer_label secret f =
     (case get (tf_revisions f) revision_id of
        None \<Rightarrow> (Err InvalidTrackedFile, f)
      | Some stored \<Rightarrow>
          let revision = s_revision stored in
          if r_author_identity revision \<noteq> Some signer_identity \<or> r_author_hcp_label revision \<noteq> signer_label
          then (Err InvalidTrackedFile, f)
          else sign_and_add P secret revision
                 (unsigned_proof revision_id Content signer_identity signer_label None revision) f)"

definition finalize_revision :: "prims \<Rightarrow> bytes \<Rightarrow> bytes \<Rightarrow> str \<Rightarrow> bytes \<Rightarrow> (tracked_file, unit) op" where
  "finalize_revision P revision_id signer_identity signer_label secret f =
     (case get (tf_revisions f) revision_id of
        None \<Rightarrow> (Err InvalidTrackedFile, f)
      | Some stored \<Rightarrow>
          sign_and_add P secret (s_revision stored)
            (unsigned_proof revision_id Finalization signer_identity signer_label None (s_revision stored)) f)"

text \<open>The author proof to back: the first that verifies, or else the first.\<close>

definition author_hash_to_back ::
    "prims \<Rightarrow> trust_context \<Rightarrow> tracked_file \<Rightarrow> bytes \<Rightarrow> file_revision \<Rightarrow> bytes option" where
  "author_hash_to_back P ctx f revision_id revision =
     (let proofs = proofs_for f revision_id Content in
      map_option (signature_hash P)
        (case List.find (proof_verifies P ctx revision) proofs of
           Some p \<Rightarrow> Some p
         | None \<Rightarrow> (case proofs of [] \<Rightarrow> None | p # _ \<Rightarrow> Some p)))"

definition countersign_revision_checked ::
    "prims \<Rightarrow> trust_context \<Rightarrow> bytes \<Rightarrow> bytes \<Rightarrow> str \<Rightarrow> bytes \<Rightarrow> (tracked_file, unit) op" where
  "countersign_revision_checked P ctx revision_id supervisor_identity supervisor_label secret f =
     (case get (tf_revisions f) revision_id of
        None \<Rightarrow> (Err InvalidTrackedFile, f)
      | Some stored \<Rightarrow>
          (case author_hash_to_back P ctx f revision_id (s_revision stored) of
             None \<Rightarrow> (Err InvalidTrackedFile, f)
           | Some author_hash \<Rightarrow>
               sign_and_add P secret (s_revision stored)
                 (unsigned_proof revision_id Countersignature supervisor_identity supervisor_label
                    (Some author_hash) (s_revision stored)) f))"

definition no_keys :: trust_context where
  "no_keys = default_context (\<lambda>_ _. None) (\<lambda>_. NoBridge)"

definition countersign_revision :: "prims \<Rightarrow> bytes \<Rightarrow> bytes \<Rightarrow> str \<Rightarrow> bytes \<Rightarrow> (tracked_file, unit) op" where
  "countersign_revision P = countersign_revision_checked P no_keys"

definition coauthor_revision ::
    "prims \<Rightarrow> trust_context \<Rightarrow> bytes \<Rightarrow> bytes \<Rightarrow> str \<Rightarrow> bytes \<Rightarrow> (tracked_file, unit) op" where
  "coauthor_revision P ctx revision_id coauthor_identity coauthor_label secret f =
     (case get (tf_revisions f) revision_id of
        None \<Rightarrow> (Err InvalidTrackedFile, f)
      | Some stored \<Rightarrow>
          let revision = s_revision stored in
          if r_author_hcp_label revision = coauthor_label \<or> r_author_identity revision = Some coauthor_identity
          then (Err InvalidTrackedFile, f)
          else (case author_hash_to_back P ctx f revision_id revision of
             None \<Rightarrow> (Err InvalidTrackedFile, f)
           | Some author_hash \<Rightarrow>
               sign_and_add P secret revision
                 (unsigned_proof revision_id CoAuthor coauthor_identity coauthor_label
                    (Some author_hash) revision) f))"

definition attach_coauthor_signature ::
    "prims \<Rightarrow> bytes \<Rightarrow> bytes \<Rightarrow> bytes \<Rightarrow> str \<Rightarrow> bytes \<Rightarrow> (tracked_file, unit) op" where
  "attach_coauthor_signature P revision_id author_signature_hash coauthor_identity coauthor_label signature f =
     (case get (tf_revisions f) revision_id of
        None \<Rightarrow> (Err InvalidTrackedFile, f)
      | Some stored \<Rightarrow>
          let revision = s_revision stored in
          if r_author_hcp_label revision = coauthor_label \<or> r_author_identity revision = Some coauthor_identity
             \<or> \<not> list_ex (\<lambda>p. signature_hash P p = author_signature_hash) (proofs_for f revision_id Content)
          then (Err InvalidTrackedFile, f)
          else (Ok (), snd (add_proof ((unsigned_proof revision_id CoAuthor coauthor_identity coauthor_label
                  (Some author_signature_hash) revision)\<lparr>p_signature := signature\<rparr>) f)))"

end
