(* ===== verification/Atomic.thy ===== *)
theory Atomic
  imports ContainerFacts
begin

text \<open>
  Changes of several steps, \<open>TrackedFile::atomically\<close> of \<open>src/file_history/merge.rs\<close>: on an error
  the revisions, proofs, events and event proofs are truncated to the lengths they had. The
  interface \<open>growing_steps\<close> says when that restores the file; \<open>sound_steps\<close> adds that a change
  that succeeds leaves a file that verifies.
\<close>

section \<open>Atomic changes\<close>

definition atomically :: "(tracked_file, 'a) op \<Rightarrow> (tracked_file, 'a) op" where
  "atomically steps f =
     (case steps f of
        (Inl e, f') \<Rightarrow>
          (Inl e, f'\<lparr>tf_revisions := take (length (tf_revisions f)) (tf_revisions f'),
                     tf_proofs := take (length (tf_proofs f)) (tf_proofs f'),
                     tf_events := take (length (tf_events f)) (tf_events f'),
                     tf_event_proofs := take (length (tf_event_proofs f)) (tf_event_proofs f')\<rparr>)
      | (Inr x, f') \<Rightarrow> (Inr x, f'))"

text \<open>The second file extends the first: nothing recorded is changed or removed.\<close>

definition grows :: "tracked_file \<Rightarrow> tracked_file \<Rightarrow> bool" where
  "grows f f' \<longleftrightarrow>
     tf_file_id f' = tf_file_id f \<and> tf_logical_name f' = tf_logical_name f \<and> tf_policy f' = tf_policy f
     \<and> take (length (tf_revisions f)) (tf_revisions f') = tf_revisions f
     \<and> take (length (tf_proofs f)) (tf_proofs f') = tf_proofs f
     \<and> take (length (tf_events f)) (tf_events f') = tf_events f
     \<and> take (length (tf_event_proofs f)) (tf_event_proofs f') = tf_event_proofs f"

lemma grows_refl [simp]: "grows f f"
  by (simp add: grows_def)

lemma take_eq_length: "take (length xs) ys = xs \<Longrightarrow> length xs \<le> length ys"
  by (metis length_take min.cobounded1)

lemma take_prefix_trans:
  "take (length xs) ys = xs \<Longrightarrow> take (length ys) zs = ys \<Longrightarrow> take (length xs) zs = xs"
  by (metis min.absorb1 take_eq_length take_take)

lemma grows_trans: "grows f g \<Longrightarrow> grows g h \<Longrightarrow> grows f h"
  by (auto simp: grows_def elim: take_prefix_trans)

lemma grows_append_event: "append_event P n f = (r, f') \<Longrightarrow> grows f f'"
  by (cases r) (auto simp: grows_def dest: append_event_Err append_event_Ok(1))

lemma grows_check_in: "check_in P n payload f = (r, f') \<Longrightarrow> grows f f'"
  by (cases r) (auto simp: grows_def dest: check_in_Err elim: check_in_Ok)

text \<open>A file whose fields have their Rust types and whose structure verifies.\<close>

definition sound_file :: "prims \<Rightarrow> tracked_file \<Rightarrow> bool" where
  "sound_file P f \<longleftrightarrow> file_ok f \<and> (\<exists>r. verify_structure P f = Ok r)"

section \<open>Interfaces\<close>

locale growing_steps =
  fixes steps :: "(tracked_file, 'a) op"
  assumes grows_steps: "grows f (snd (steps f))"
begin

lemma undone: "atomically steps f = (Inl e, f') \<Longrightarrow> f' = f"
  using grows_steps [of f]
  by (cases "steps f"; cases "fst (steps f)") (auto simp: atomically_def grows_def)

lemma done_iff: "atomically steps f = (Inr x, f') \<longleftrightarrow> steps f = (Inr x, f')"
  by (cases "steps f"; cases "fst (steps f)") (auto simp: atomically_def)

lemma grows_atomically: "grows f (snd (atomically steps f))"
proof (cases "atomically steps f")
  case (Pair r f')
  have "grows f f'"
    using Pair undone [of f _ f'] done_iff [of f _ f'] grows_steps [of f] by (cases r) auto
  with Pair show ?thesis by simp
qed

end

text \<open>Steps composed of growing steps grow.\<close>

named_theorems growing

lemma growing_intros [growing]:
  "growing_steps (ret x)" "growing_steps (fail e)" "growing_steps (lift g)"
  "growing_steps (append_event P n)" "growing_steps (check_in P new payload)"
  using grows_append_event [of P n] grows_check_in [of P new payload]
  by (auto simp: growing_steps_def) (metis prod.collapse)+

lemma growing_bind [growing]:
  assumes "growing_steps m" "\<And>x. growing_steps (k x)"
  shows "growing_steps (bind_op m k)"
proof (unfold growing_steps_def, rule allI)
  fix f
  have "grows f (snd (m f))" "\<And>x g. grows g (snd (k x g))" using assms by (auto simp: growing_steps_def)
  then show "grows f (snd (bind_op m k f))"
    by (cases "m f"; cases "fst (m f)") (auto simp: bind_op_def intro: grows_trans)
qed

lemma growing_atomically [growing]: "growing_steps m \<Longrightarrow> growing_steps (atomically m)"
  by (auto simp: growing_steps_def [of "atomically m"] intro: growing_steps.grows_atomically)

lemma growing_split [growing]:
  "(b \<Longrightarrow> growing_steps m) \<Longrightarrow> (\<not> b \<Longrightarrow> growing_steps m') \<Longrightarrow> growing_steps (if b then m else m')"
  "growing_steps m1 \<Longrightarrow> (\<And>x. growing_steps (m2 x)) \<Longrightarrow> growing_steps (case y of None \<Rightarrow> m1 | Some x \<Rightarrow> m2 x)"
  "(\<And>a b. growing_steps (m3 a b)) \<Longrightarrow> growing_steps (case z of (a, b) \<Rightarrow> m3 a b)"
  by (auto split: option.split prod.split)

text \<open>
  An operation that keeps a file sound, whether it succeeds or fails, when its arguments have
  their Rust types and the primitives obey their laws (\<open>pre\<close>).
\<close>

locale sound_op =
  fixes P :: prims and pre :: bool and run :: "(tracked_file, 'a) op"
  assumes keeps: "pre \<Longrightarrow> sound_file P f \<Longrightarrow> sound_file P (snd (run f))"
begin

lemma keeps_iterated: "pre \<Longrightarrow> sound_file P f \<Longrightarrow> sound_file P (((\<lambda>g. snd (run g)) ^^ n) f)"
  by (induction n) (auto intro: keeps)

end

locale sound_steps = growing_steps steps for steps :: "(tracked_file, 'a) op" +
  fixes P :: prims and pre :: bool
  assumes sound_when_done: "pre \<Longrightarrow> sound_file P f \<Longrightarrow> steps f = (Inr x, f') \<Longrightarrow> sound_file P f'"

sublocale sound_steps \<subseteq> all_or_nothing: sound_op P pre "atomically steps"
proof
  fix f
  assume f: pre "sound_file P f"
  show "sound_file P (snd (atomically steps f))"
  proof (cases "atomically steps f")
    case (Pair r f')
    have "sound_file P f'"
      using Pair f undone [of f _ f'] done_iff [of f _ f'] sound_when_done [of f _ f'] by (cases r) auto
    with Pair show ?thesis by simp
  qed
qed

section \<open>Operations that keep a file sound\<close>

text \<open>
  Running \<open>m\<close> on a sound file, when it succeeds, gives a sound file and a value that satisfies
  \<open>Q\<close>. The rules below follow the structure of an operation.
\<close>

definition keeps_sound :: "prims \<Rightarrow> (tracked_file, 'a) op \<Rightarrow> ('a \<Rightarrow> bool) \<Rightarrow> bool" where
  "keeps_sound P m Q \<longleftrightarrow> (\<forall>f x f'. sound_file P f \<longrightarrow> m f = (Inr x, f') \<longrightarrow> sound_file P f' \<and> Q x)"

definition prims_ok :: "prims \<Rightarrow> bool" where
  "prims_ok P \<longleftrightarrow> sized_prims P \<and> unicode_law P \<and> hex_law P"

lemma toy_prims_ok [simp]: "prims_ok toy_prims"
  by (simp add: prims_ok_def)

lemma hex_str_ok: "prims_ok P \<Longrightarrow> str_ok (hex_encode P bs)"
  by (rule str_ok_ascii) (auto simp: prims_ok_def hex_law_def)

lemma keeps_ret: "Q x \<Longrightarrow> keeps_sound P (ret x) Q"
  by (auto simp: keeps_sound_def)

lemma keeps_fail: "keeps_sound P (fail e) Q"
  by (auto simp: keeps_sound_def)

lemma keeps_lift: "(\<And>f x. sound_file P f \<Longrightarrow> g f = Ok x \<Longrightarrow> Q x) \<Longrightarrow> keeps_sound P (lift g) Q"
  by (auto simp: keeps_sound_def)

lemma keeps_bind:
  "keeps_sound P m Q \<Longrightarrow> (\<And>x. Q x \<Longrightarrow> keeps_sound P (k x) R) \<Longrightarrow> keeps_sound P (bind_op m k) R"
  unfolding keeps_sound_def bind_op_Ok_iff by blast

lemma keeps_weaken: "keeps_sound P m Q \<Longrightarrow> (\<And>x. Q x \<Longrightarrow> R x) \<Longrightarrow> keeps_sound P m R"
  by (auto simp: keeps_sound_def)

lemma keeps_append_event:
  assumes "prims_ok P" "new_event_ok n" "n_event_type n \<noteq> ContentDestroyed"
  shows "keeps_sound P (append_event P n) event_ok"
  unfolding keeps_sound_def
proof (intro allI impI)
  fix f e f'
  assume f: "sound_file P f" and e: "append_event P n f = (Inr e, f')"
  have "\<not> destroys_this_content e"
    using seal_event_facts [OF append_event_Ok(2) [OF e]] assms(3) by (simp add: destroys_this_content_def)
  moreover from f obtain r where r: "verify_structure P f = Ok r" and "file_ok f" by (auto simp: sound_file_def)
  ultimately show "sound_file P f' \<and> event_ok e"
    using append_event_keeps_structure [OF r e] append_event_file_ok [OF e] assms
    by (auto simp: sound_file_def prims_ok_def)
qed

lemma keeps_check_in:
  assumes "prims_ok P" "new_revision_ok n"
  shows "keeps_sound P (check_in P n payload) (\<lambda>i. length i = 32)"
  unfolding keeps_sound_def
proof (intro allI impI)
  fix f i f'
  assume f: "sound_file P f" and i: "check_in P n payload f = (Inr i, f')"
  from f obtain r where r: "verify_structure P f = Ok r" and ok: "file_ok f" by (auto simp: sound_file_def)
  from i have "length i = 32"
  proof (rule check_in_Ok)
    fix v
    assume "create_revision P (tf_file_id f) (tf_logical_name f) payload n = Ok v" "i = r_revision_id v"
    with create_revision_ok [of P "tf_file_id f" "tf_logical_name f" payload n v] assms ok show ?thesis
      by (auto simp: file_ok_def prims_ok_def revision_ok_def)
  qed
  then show "sound_file P f' \<and> length i = 32"
    using check_in_keeps_structure [OF r i] check_in_file_ok [OF i ok] assms ok
    by (auto simp: sound_file_def prims_ok_def file_ok_def)
qed

lemma keeps_atomically:
  assumes "growing_steps m" "keeps_sound P m Q"
  shows "keeps_sound P (atomically m) Q"
  using assms(2) growing_steps.done_iff [OF assms(1)] by (auto simp: keeps_sound_def)

lemma sound_stepsI: "growing_steps m \<Longrightarrow> (pre \<Longrightarrow> keeps_sound P m Q) \<Longrightarrow> sound_steps m P pre"
  by (auto simp: sound_steps_def sound_steps_axioms_def keeps_sound_def)

end
