(* ===== verification/Merge.thy ===== *)
theory Merge
  imports Atomic TextMerge
begin

text \<open>
  Automatic merging of two heads, the second half of \<open>src/file_history/merge.rs\<close>: deciding what
  can be done without a person, and recording it as one atomic change.
\<close>

section \<open>Planning\<close>

datatype auto_merge_outcome =
    FastForward | AlreadyEquivalent | CleanMerge | RequiresHuman | PolicyBlocked | UnsupportedContent

record auto_merge_plan =
  am_outcome :: auto_merge_outcome
  am_reason :: str
  am_merge_base :: "bytes option"
  am_content :: "bytes option"
  am_merge_revision :: "bytes option"

definition am_stop :: "auto_merge_outcome \<Rightarrow> str \<Rightarrow> bytes option \<Rightarrow> auto_merge_plan" where
  "am_stop outcome reason base =
     \<lparr>am_outcome = outcome, am_reason = reason, am_merge_base = base, am_content = None,
      am_merge_revision = None\<rparr>"

definition am_with_content :: "auto_merge_outcome \<Rightarrow> str \<Rightarrow> bytes option \<Rightarrow> bytes \<Rightarrow> auto_merge_plan" where
  "am_with_content outcome reason base bs =
     \<lparr>am_outcome = outcome, am_reason = reason, am_merge_base = base, am_content = Some bs,
      am_merge_revision = None\<rparr>"

text \<open>The payload of a revision, if it is known and its content was not destroyed.\<close>

definition payload_of :: "tracked_file \<Rightarrow> bytes \<Rightarrow> bytes option" where
  "payload_of f i = (case get (tf_revisions f) i of None \<Rightarrow> None | Some stored \<Rightarrow> content stored)"

text \<open>What is left once the heads are known to have diverged and merging is allowed.\<close>

definition plan_merge_texts :: "bytes \<Rightarrow> bytes \<Rightarrow> bytes \<Rightarrow> bytes \<Rightarrow> auto_merge_plan result" where
  "plan_merge_texts base base_bytes left_bytes right_bytes =
     (case (from_utf8 base_bytes, from_utf8 left_bytes, from_utf8 right_bytes) of
        (Some b, Some l, Some r) \<Rightarrow>
          and_then (merge_text b l r) (\<lambda>merged.
          Ok (case merged of
                Clean txt \<Rightarrow> am_with_content CleanMerge ''THREE_WAY_TEXT'' (Some base) (as_bytes txt)
              | Conflict \<Rightarrow> am_stop RequiresHuman ''OVERLAPPING_EDIT'' (Some base)
              | TooLarge \<Rightarrow> am_stop UnsupportedContent ''TOO_LARGE'' (Some base)))
      | _ \<Rightarrow> Ok (am_stop UnsupportedContent ''NOT_UTF8_TEXT'' (Some base)))"

definition plan_auto_merge :: "prims \<Rightarrow> bytes \<Rightarrow> bytes \<Rightarrow> bool \<Rightarrow> tracked_file \<Rightarrow> auto_merge_plan result" where
  "plan_auto_merge P left right allowed f =
     (let g = tf_revisions f in
      case (payload_of f left, payload_of f right) of
        (Some left_bytes, Some right_bytes) \<Rightarrow>
          if \<not> is_ok (verify_structure P f)
          then Ok (am_stop RequiresHuman ''VERIFICATION_FAILED'' None)
          else and_then (compare_heads g left right) (\<lambda>relation.
            case relation of
              Equal \<Rightarrow> Ok (am_with_content FastForward ''ANCESTOR_HEAD''
                              (if left \<noteq> right then Some right else None) left_bytes)
            | IncomingBehind \<Rightarrow> Ok (am_with_content FastForward ''ANCESTOR_HEAD''
                              (if left \<noteq> right then Some right else None) left_bytes)
            | IncomingAhead \<Rightarrow> Ok (am_with_content FastForward ''ANCESTOR_HEAD'' (Some left) right_bytes)
            | Diverged \<Rightarrow>
                if left \<notin> set (heads g) \<or> right \<notin> set (heads g) then Err InvalidTrackedFile
                else if \<not> allowed then Ok (am_stop PolicyBlocked ''AUTO_MERGE_DISABLED'' None)
                else if left_bytes = right_bytes
                then Ok (am_with_content AlreadyEquivalent ''IDENTICAL_CONTENT'' None left_bytes)
                else case merge_base g left right of
                       Unique base \<Rightarrow>
                         and_then (ok_or InvalidTrackedFile (payload_of f base)) (\<lambda>base_bytes.
                         plan_merge_texts base base_bytes left_bytes right_bytes)
                     | Ambiguous \<Rightarrow> Ok (am_stop RequiresHuman ''AMBIGUOUS_MERGE_BASE'' None)
                     | NoBase \<Rightarrow> Ok (am_stop RequiresHuman ''NO_COMMON_ANCESTOR'' None))
      | _ \<Rightarrow> Err InvalidTrackedFile)"

section \<open>Recording\<close>

text \<open>The closure \<open>event\<close>: an event by the actor that \<open>new\<close> names, at its time.\<close>

definition event_by ::
    "new_revision \<Rightarrow> history_event_type \<Rightarrow> bytes option \<Rightarrow> history_outcome \<Rightarrow> event_details \<Rightarrow> new_event" where
  "event_by new k revision_id outcome details =
     \<lparr>n_revision_id = revision_id, n_occurred_at = whole_seconds (nr_created_at_utc new),
      n_actor_identity = nr_author_identity new, n_actor_label = Some (nr_author_hcp_label new),
      n_topology_generation = Some (nr_topology_generation new), n_event_type = k,
      n_outcome = outcome, n_details = details\<rparr>"

definition merge_recorded :: "auto_merge_plan \<Rightarrow> history_event_type \<times> bytes option \<times> history_outcome" where
  "merge_recorded result =
     (case am_outcome result of
        FastForward \<Rightarrow> (AutoMergeFastForward, None, Success)
      | AlreadyEquivalent \<Rightarrow> (AutoMergeEquivalent, am_merge_revision result, Success)
      | CleanMerge \<Rightarrow> (AutoMergeClean, am_merge_revision result, Success)
      | PolicyBlocked \<Rightarrow> (AutoMergeBlocked, None, Event.Denied)
      | UnsupportedContent \<Rightarrow> (AutoMergeBlocked, None, Event.Denied)
      | RequiresHuman \<Rightarrow> (AutoMergeRequiresHuman, None, Event.Denied))"

definition check_in_merge ::
    "prims \<Rightarrow> bytes \<Rightarrow> bytes \<Rightarrow> new_revision \<Rightarrow> auto_merge_plan \<Rightarrow> (tracked_file, auto_merge_plan) op" where
  "check_in_merge P left right new result =
     (case am_content result of
        Some bs \<Rightarrow>
          if am_outcome result = CleanMerge \<or> am_outcome result = AlreadyEquivalent
          then bind_op (check_in P (new\<lparr>nr_parent_revision_ids := [left, right]\<rparr>) bs) (\<lambda>i.
               ret (result\<lparr>am_merge_revision := Some i\<rparr>))
          else ret result
      | None \<Rightarrow> ret result)"

definition auto_merge_steps ::
    "prims \<Rightarrow> bytes \<Rightarrow> bytes \<Rightarrow> bool \<Rightarrow> new_revision \<Rightarrow> (tracked_file, auto_merge_plan) op" where
  "auto_merge_steps P left right allowed new =
     bind_op (lift (plan_auto_merge P left right allowed)) (\<lambda>planned.
     bind_op (check_in_merge P left right new planned) (\<lambda>result.
     bind_op (append_event P (event_by new AutoMergeAttempted None Info
         ([(''left'', hex_encode P left), (''right'', hex_encode P right)]
          @ (case am_merge_base result of Some base \<Rightarrow> [(''base'', hex_encode P base)] | None \<Rightarrow> [])))) (\<lambda>_.
     let (k, revision, outcome) = merge_recorded result in
     bind_op (append_event P (event_by new k revision outcome
         ([(''reason'', am_reason result)]
          @ (if revision \<noteq> None then [(''trust_state'', ''PENDING'')] else [])))) (\<lambda>_.
     ret result))))"

definition auto_merge ::
    "prims \<Rightarrow> bytes \<Rightarrow> bytes \<Rightarrow> bool \<Rightarrow> new_revision \<Rightarrow> (tracked_file, auto_merge_plan) op" where
  "auto_merge P left right allowed new = atomically (auto_merge_steps P left right allowed new)"

end
