(* ===== verification/Progress.thy ===== *)
theory Progress
  imports Merge TrustFacts
begin

text \<open>
  When the two operations that extend a file succeed, and sample files built with them: a file
  with one revision, and a file whose history has forked.
\<close>

section \<open>Progress\<close>

definition event_fits :: "new_event \<Rightarrow> bool" where
  "event_fits n \<longleftrightarrow>
     length (n_occurred_at n) < 2 ^ 16 \<and> length (n_details n) < 2 ^ 16
     \<and> (case n_actor_label n of None \<Rightarrow> True | Some l \<Rightarrow> length l < 2 ^ 16)
     \<and> list_all (\<lambda>(k, v). length k < 2 ^ 16 \<and> length v < 2 ^ 16) (n_details n)"

lemma push_str_fits: "length s < 2 ^ 16 \<Longrightarrow> push_str s = Ok (to_be 2 (length s) @ as_bytes s)"
  by (simp add: push_str_def push_len_prefixed_def)

lemma push_details_fit:
  "list_all (\<lambda>(k, v). length k < 2 ^ 16 \<and> length v < 2 ^ 16) ds \<Longrightarrow> \<exists>b. encode_all push_detail ds = Ok b"
  by (induction ds) (auto simp: encode_all_Cons push_detail_def push_len_prefixed_def)

lemma seal_event_fits:
  assumes "event_fits n"
  shows "\<exists>e. seal_event P i s f p n = Ok e"
proof -
  obtain b where "encode_all push_detail (n_details n) = Ok b"
    using push_details_fit assms by (auto simp: event_fits_def)
  moreover have "\<exists>l. push_opt_str (n_actor_label n) = Ok l"
    using assms by (auto simp: event_fits_def push_opt_str_def push_len_prefixed_def push_str_def split: option.splits)
  ultimately show ?thesis
    using assms by (auto simp: seal_event_def compute_hash_def event_body_def Let_def event_fits_def push_str_fits)
qed

lemma chain_append_succeeds:
  assumes "verify_chain P (tf_file_id f) (tf_events f) = Ok r" "event_fits n" "unsafe_key (n_details n) = None"
    "n_revision_id n = None \<or> the (n_revision_id n) \<in> ids (tf_revisions f)"
  shows "\<exists>e. append_event P n f = (Ok e, f\<lparr>tf_events := tf_events f @ [e]\<rparr>)"
proof -
  obtain e where "seal_event P (fresh_id P (length (tf_events f))) (word_of_nat (length (tf_events f)))
      (tf_file_id f) (history_root P f) n = Ok e"
    using seal_event_fits [OF assms(2)] by blast
  with assms(1,3,4) show ?thesis by (auto simp: append_event_def get_None_iff split: option.split)
qed

lemma sound_append_succeeds:
  assumes "sound_file P f" "event_fits n" "unsafe_key (n_details n) = None"
    "n_revision_id n = None \<or> the (n_revision_id n) \<in> ids (tf_revisions f)"
  shows "\<exists>e. append_event P n f = (Ok e, f\<lparr>tf_events := tf_events f @ [e]\<rparr>)"
proof -
  from assms(1) obtain r where "verify_chain P (tf_file_id f) (tf_events f) = Ok r"
    by (auto simp: sound_file_def verify_structure_iff)
  then show ?thesis by (rule chain_append_succeeds [OF _ assms(2-4)])
qed

section \<open>A forked file\<close>

definition sample_rev :: "bytes list \<Rightarrow> u8 \<Rightarrow> new_revision" where
  "sample_rev parents k = sample_new_revision\<lparr>nr_parent_revision_ids := parents, nr_policy_hash := replicate 32 k\<rparr>"

lemma sample_rev_ok: "list_all (\<lambda>p. length p = 32) parents \<Longrightarrow> new_revision_ok (sample_rev parents k)"
  using sample_new_revision_ok by (simp add: new_revision_ok_def sample_rev_def)

lemma toy_create:
  assumes "length parents < 2 ^ 16"
  shows "\<exists>r. create_revision toy_prims fid ''report.txt'' payload (sample_rev parents k) = Ok r
    \<and> drop 2 (r_revision_id r) = replicate 30 k"
  using assms
  by (simp add: create_revision_def sample_rev_def sample_new_revision_def sample_label compute_id_def
      revision_body_def Let_def eval_simps)

text \<open>The file has the sample name, and each policy byte tells its revisions apart.\<close>

definition sample_like :: "tracked_file \<Rightarrow> u8 set \<Rightarrow> bool" where
  "sample_like f ks \<longleftrightarrow>
     sound_file toy_prims f \<and> tf_logical_name f = ''report.txt'' \<and> tf_events f = [] \<and> tf_policy f = None
     \<and> (\<forall>i \<in> ids (tf_revisions f). \<exists>k \<in> ks. drop 2 i = replicate 30 k)
     \<and> (\<forall>s \<in> set (tf_revisions f). r_author_hcp_label (s_revision s) = ''A.1'')"

lemma fresh_check_in:
  assumes "sound_file toy_prims f" "\<not> is_destroyed f" "new_revision_ok new"
    "create_revision toy_prims (tf_file_id f) (tf_logical_name f) payload new = Ok r"
    "r_revision_id r \<notin> ids (tf_revisions f)" "nr_parent_revision_ids new = parents"
    "set parents \<subseteq> ids (tf_revisions f)" "distinct parents" "(parents = []) = (tf_revisions f = [])"
  shows "check_in toy_prims new payload f
      = (Ok (r_revision_id r), f\<lparr>tf_revisions := tf_revisions f @ [\<lparr>s_revision = r, s_payload = Some payload\<rparr>]\<rparr>)"
    and "sound_file toy_prims (f\<lparr>tf_revisions := tf_revisions f @ [\<lparr>s_revision = r, s_payload = Some payload\<rparr>]\<rparr>)"
    and "length (r_revision_id r) = 32"
proof -
  show ci: "check_in toy_prims new payload f
      = (Ok (r_revision_id r), f\<lparr>tf_revisions := tf_revisions f @ [\<lparr>s_revision = r, s_payload = Some payload\<rparr>]\<rparr>)"
    using assms by (auto simp: check_in_def Let_def list_all_iff no_repeat_distinct get_None_iff)
  show "sound_file toy_prims (f\<lparr>tf_revisions := tf_revisions f @ [\<lparr>s_revision = r, s_payload = Some payload\<rparr>]\<rparr>)"
    "length (r_revision_id r) = 32"
    using keeps_check_in [OF toy_prims_ok assms(3), of payload] ci assms(1) by (auto simp: keeps_sound_def)
qed

lemma sample_like_check_in:
  assumes "sample_like f ks" "k \<notin> ks" "set parents \<subseteq> ids (tf_revisions f)" "distinct parents"
    "(parents = []) = (tf_revisions f = [])" "length parents < 2 ^ 16" "list_all (\<lambda>p. length p = 32) parents"
  shows "\<exists>i s. check_in toy_prims (sample_rev parents k) payload f
      = (Ok i, f\<lparr>tf_revisions := tf_revisions f @ [s]\<rparr>) \<and> rev_id s = i \<and> rev_parents s = parents
      \<and> s_payload s = Some payload \<and> i \<notin> ids (tf_revisions f) \<and> length i = 32
      \<and> sample_like (f\<lparr>tf_revisions := tf_revisions f @ [s]\<rparr>) (insert k ks)"
proof -
  obtain r where r: "create_revision toy_prims (tf_file_id f) ''report.txt'' payload (sample_rev parents k) = Ok r"
    "drop 2 (r_revision_id r) = replicate 30 k"
    using toy_create [OF assms(6)] by blast
  let ?s = "\<lparr>s_revision = r, s_payload = Some payload\<rparr>" and ?i = "r_revision_id r"
  have fresh: "?i \<notin> ids (tf_revisions f)"
    using assms(1,2) r(2) by (auto simp: sample_like_def)
  have "sound_file toy_prims f" "\<not> is_destroyed f" "tf_logical_name f = ''report.txt''"
    using assms(1) by (auto simp: sample_like_def is_destroyed_def)
  then have "check_in toy_prims (sample_rev parents k) payload f = (Ok ?i, f\<lparr>tf_revisions := tf_revisions f @ [?s]\<rparr>)"
    "sound_file toy_prims (f\<lparr>tf_revisions := tf_revisions f @ [?s]\<rparr>) \<and> length ?i = 32"
    using fresh_check_in [of f "sample_rev parents k" payload r parents] r(1) fresh assms(3-5) sample_rev_ok [OF assms(7)]
    by (auto simp: sample_rev_def)
  moreover have "r_parent_revision_ids r = parents" "r_author_hcp_label r = ''A.1''"
    using create_revision_facts(2,5) [OF r(1)] by (simp_all add: sample_rev_def sample_new_revision_def)
  ultimately show ?thesis using fresh assms(1) r(2)
    by (intro exI [of _ ?i] exI [of _ ?s]) (auto simp: sample_like_def ids_def)
qed

text \<open>A root revision, and two revisions of it with the same content.\<close>

definition forked :: "tracked_file \<Rightarrow> bytes \<Rightarrow> bytes \<Rightarrow> bytes \<Rightarrow> bool" where
  "forked f root left right \<longleftrightarrow>
     sample_like f {0, 1, 2} \<and> (\<exists>a b c. tf_revisions f = [a, b, c] \<and> rev_id a = root \<and> rev_id b = left \<and> rev_id c = right
       \<and> rev_parents a = [] \<and> rev_parents b = [root] \<and> rev_parents c = [root]
       \<and> s_payload b = Some [8] \<and> s_payload c = Some [8])
     \<and> distinct [root, left, right] \<and> length root = 32 \<and> length left = 32 \<and> length right = 32
     \<and> tf_proofs f = [] \<and> tf_event_proofs f = []"

lemma sample_start_like: "sample_like sample_start {}"
  using sample_start_ok sample_start_structure
  by (auto simp: sample_like_def sound_file_def) (auto simp: sample_start_def new_file_def ids_def)

lemma forked_exists: "\<exists>f root left right. forked f root left right"
proof -
  have start: "tf_revisions sample_start = []" by (simp add: sample_start_def new_file_def)
  obtain i a where a: "rev_id a = i" "rev_parents a = []" "length i = 32"
    "sample_like (sample_start\<lparr>tf_revisions := [a]\<rparr>) {0}"
    using sample_like_check_in [OF sample_start_like, of 0 "[]" "[7]"] start by (auto simp: ids_def)
  let ?f1 = "sample_start\<lparr>tf_revisions := [a]\<rparr>"
  obtain j b where b: "rev_id b = j" "rev_parents b = [i]" "s_payload b = Some [8]" "j \<noteq> i" "length j = 32"
    "sample_like (?f1\<lparr>tf_revisions := [a, b]\<rparr>) {1, 0}"
    using sample_like_check_in [OF a(4), of 1 "[i]" "[8]"] a(1,3) by (auto simp: ids_def)
  let ?f2 = "?f1\<lparr>tf_revisions := [a, b]\<rparr>"
  obtain k c where c: "rev_id c = k" "rev_parents c = [i]" "s_payload c = Some [8]" "k \<noteq> i" "k \<noteq> j" "length k = 32"
    "sample_like (?f2\<lparr>tf_revisions := [a, b, c]\<rparr>) {2, 1, 0}"
    using sample_like_check_in [OF b(6), of 2 "[i]" "[8]"] a(1,3) b(1) by (auto simp: ids_def)
  have "insert 2 {1, 0} = {0, 1, 2 :: u8}" by auto
  then have "forked (?f2\<lparr>tf_revisions := [a, b, c]\<rparr>) i j k"
    using a b c by (auto simp: forked_def sample_start_def new_file_def)
  then show ?thesis by blast
qed

end
