(* ===== verification/ProofFacts.thy ===== *)
theory ProofFacts
  imports ProofOps Progress
begin

text \<open>
  What the signing operations of \<open>file_history/proof.rs\<close> guarantee: proof slots stay bounded, a
  sound file stays sound under every signing operation, and an accepted signature is one the
  trust rules count.
\<close>

section \<open>Slots stay bounded\<close>

declare make_room.simps [simp del]

lemma same_slot_iff: "same_slot q p \<longleftrightarrow> slot_key q = slot_key p"
  by (cases "p_kind q"; cases "p_kind p") (auto simp: same_slot_def slot_key_def)

lemma filter_remove_oldest:
  "filter (\<lambda>q. same_slot q p) (remove_oldest p ps) = tl (filter (\<lambda>q. same_slot q p) ps)"
  "(\<And>q. Q q \<Longrightarrow> \<not> same_slot q p) \<Longrightarrow> filter Q (remove_oldest p ps) = filter Q ps"
  by (induction ps) auto

lemma filter_make_room:
  "filter (\<lambda>q. same_slot q p) (make_room p ps) =
     drop (slot_count p ps - (MAX_PROOFS_PER_SLOT - 1)) (filter (\<lambda>q. same_slot q p) ps)"
proof (induction p ps rule: make_room.induct)
  case (1 p ps)
  show ?case
  proof (cases "slot_count p ps \<ge> MAX_PROOFS_PER_SLOT")
    case True
    then have "slot_count p ps - 1 - (MAX_PROOFS_PER_SLOT - 1) + 1 = slot_count p ps - (MAX_PROOFS_PER_SLOT - 1)"
      by (simp add: MAX_PROOFS_PER_SLOT_def)
    then show ?thesis
      using 1 True make_room.simps [of p ps]
      by (simp add: filter_remove_oldest slot_count_remove_oldest drop_Suc [symmetric])
  next
    case False
    then show ?thesis by (simp add: make_room.simps [of p ps] MAX_PROOFS_PER_SLOT_def)
  qed
qed

lemma filter_make_room_other:
  "(\<And>q. Q q \<Longrightarrow> \<not> same_slot q p) \<Longrightarrow> filter Q (make_room p ps) = filter Q ps"
proof (induction p ps rule: make_room.induct)
  case (1 p ps)
  then show ?case
    by (cases "slot_count p ps \<ge> MAX_PROOFS_PER_SLOT")
       (simp_all add: make_room.simps [of p ps] filter_remove_oldest(2))
qed

lemma set_remove_oldest: "set (remove_oldest p ps) \<subseteq> set ps"
  by (induction ps) auto

lemma set_make_room: "set (make_room p ps) \<subseteq> set ps"
proof (induction p ps rule: make_room.induct)
  case (1 p ps)
  then show ?case
    using set_remove_oldest [of p ps] make_room.simps [of p ps]
    by (cases "slot_count p ps \<ge> MAX_PROOFS_PER_SLOT") auto
qed

text \<open>
  C40. Adding a proof leaves at most \<open>MAX_PROOFS_PER_SLOT\<close> in its slot: the newest of the ones
  held, in order, and the new one last. No other slot changes, and no proof appears that was not
  held or added.
\<close>

theorem add_proof_bounded:
  assumes "add_proof p f = (True, f')"
  shows "(\<exists>n. filter (\<lambda>q. same_slot q p) (tf_proofs f') = drop n (filter (\<lambda>q. same_slot q p) (tf_proofs f)) @ [p])
    \<and> length (filter (\<lambda>q. same_slot q p) (tf_proofs f')) \<le> MAX_PROOFS_PER_SLOT
    \<and> filter (\<lambda>q. \<not> same_slot q p) (tf_proofs f') = filter (\<lambda>q. \<not> same_slot q p) (tf_proofs f)
    \<and> f'\<lparr>tf_proofs := tf_proofs f\<rparr> = f"
proof -
  let ?slot = "\<lambda>q. same_slot q p"
  from assms have f': "f' = f\<lparr>tf_proofs := make_room p (tf_proofs f) @ [p]\<rparr>"
    by (simp add: add_proof_def split: if_splits)
  have self: "?slot p" by (simp add: same_slot_iff)
  have len: "length (filter ?slot (make_room p (tf_proofs f))) < MAX_PROOFS_PER_SLOT"
    by (simp add: filter_make_room MAX_PROOFS_PER_SLOT_def slot_count_def)
  from self have "filter ?slot (tf_proofs f') =
      drop (slot_count p (tf_proofs f) - (MAX_PROOFS_PER_SLOT - 1)) (filter ?slot (tf_proofs f)) @ [p]"
    by (simp add: f' filter_make_room)
  moreover from self len have "length (filter ?slot (tf_proofs f')) \<le> MAX_PROOFS_PER_SLOT" by (simp add: f')
  moreover from self have "filter (\<lambda>q. \<not> ?slot q) (tf_proofs f') = filter (\<lambda>q. \<not> ?slot q) (tf_proofs f)"
    by (simp add: f' filter_make_room_other)
  ultimately show ?thesis by (auto simp: f')
qed

section \<open>Signing keeps the structure\<close>

lemma slot_signatures_add:
  assumes "slot_signatures (slot_key p) ps = ss"
  shows "slot_signatures k (make_room p ps @ [p]) =
    (if k = slot_key p then drop (length ss - (MAX_PROOFS_PER_SLOT - 1)) ss @ [p_signature p] else slot_signatures k ps)"
proof (cases "k = slot_key p")
  case True
  then show ?thesis
    using assms filter_make_room [of p ps]
    by (auto simp: slot_signatures_def same_slot_iff slot_count_def drop_map)
next
  case False
  then show ?thesis
    using filter_make_room_other [of "\<lambda>q. slot_key q = k" p ps] by (auto simp: slot_signatures_def same_slot_iff)
qed

lemma add_proof_ok:
  assumes "proofs_ok g (tf_proofs f)" "proof_known g p"
  shows "proofs_ok g (tf_proofs (snd (add_proof p f)))"
proof (cases "list_ex (\<lambda>mine. same_slot mine p \<and> p_signature mine = p_signature p) (tf_proofs f)")
  case False
  let ?ss = "slot_signatures (slot_key p) (tf_proofs f)"
  from False have "p_signature p \<notin> set ?ss"
    by (auto simp: list_ex_iff same_slot_iff slot_signatures_def)
  moreover have "distinct ?ss" "length ?ss \<le> MAX_PROOFS_PER_SLOT" using assms(1) by (auto simp: proofs_ok_def simp del: split_paired_All)
  ultimately have "distinct (drop n ?ss @ [p_signature p])" for n
    by (auto dest: in_set_dropD)
  moreover have "list_all (proof_known g) (make_room p (tf_proofs f) @ [p])"
    using assms set_make_room [of p "tf_proofs f"] by (auto simp: proofs_ok_def list_all_iff)
  ultimately show ?thesis
    using assms(1) False
    by (simp add: add_proof_def proofs_ok_def slot_signatures_add MAX_PROOFS_PER_SLOT_def del: split_paired_All)
qed (use assms in \<open>simp add: add_proof_def\<close>)

lemma add_proof_fields:
  "tf_file_id (snd (add_proof p f)) = tf_file_id f" "tf_revisions (snd (add_proof p f)) = tf_revisions f"
  "tf_events (snd (add_proof p f)) = tf_events f" "tf_event_proofs (snd (add_proof p f)) = tf_event_proofs f"
  "tf_logical_name (snd (add_proof p f)) = tf_logical_name f" "tf_policy (snd (add_proof p f)) = tf_policy f"
  by (simp_all add: add_proof_def)

lemma add_proof_structure:
  assumes "verify_structure P f = Ok r" "proof_known (tf_revisions f) p"
  shows "verify_structure P (snd (add_proof p f)) = Ok r"
  using assms add_proof_ok [of "tf_revisions f" f p]
  by (simp add: verify_structure_iff add_proof_fields payloads_ok_def is_destroyed_def)

lemma add_proof_file_ok:
  assumes "file_ok f" "proof_ok p"
  shows "file_ok (snd (add_proof p f))"
  using assms set_make_room [of p "tf_proofs f"]
  by (auto simp: file_ok_def add_proof_def list_all_iff)

lemma sign_and_add_cases:
  "snd (sign_and_add P secret r p f) = f
   \<or> (\<exists>d. proof_preimage P p r = Ok d
        \<and> snd (sign_and_add P secret r p f) = snd (add_proof (p\<lparr>p_signature := sign P secret d\<rparr>) f))"
  by (auto simp: sign_and_add_def case_prod_unfold Let_def split: sum.split)


lemma sound_revision:
  assumes "sound_file P f" "get (tf_revisions f) i = Some s"
  shows "rev_id s = i" "length i = 32" "length (r_policy_hash (s_revision s)) = 32"
proof -
  from assms(2) have s: "s \<in> set (tf_revisions f)" "rev_id s = i" by (auto dest: get_SomeD)
  with assms(1) have "revision_ok (s_revision s)" by (auto simp: sound_file_def file_ok_def list_all_iff stored_ok_def)
  with s show "rev_id s = i" "length i = 32" "length (r_policy_hash (s_revision s)) = 32" by (auto simp: revision_ok_def)
qed

lemma add_proof_sound:
  assumes "sound_file P f" "proof_known (tf_revisions f) p" "proof_ok p"
  shows "sound_file P (snd (add_proof p f))"
  using assms add_proof_structure [of P f _ p] add_proof_file_ok [of f p] by (auto simp: sound_file_def)

lemma unsigned_proof_simps [simp]:
  "p_revision_id (unsigned_proof i k who label h r) = i" "p_kind (unsigned_proof i k who label h r) = k"
  "p_signer_identity (unsigned_proof i k who label h r) = who" "p_signer_label (unsigned_proof i k who label h r) = label"
  "p_author_signature_hash (unsigned_proof i k who label h r) = h"
  "p_topology_generation (unsigned_proof i k who label h r) = r_topology_generation r"
  "p_policy_hash (unsigned_proof i k who label h r) = r_policy_hash r"
  by (simp_all add: unsigned_proof_def)

lemma signed_proof_sound:
  assumes "sound_file P f" "get (tf_revisions f) i = Some s" "length who = 16" "str_ok label" "opt_sized 32 h"
    "length sig = 64" "proof_well_formed (s_revision s) (unsigned_proof i k who label h (s_revision s))"
  shows "sound_file P (snd (add_proof ((unsigned_proof i k who label h (s_revision s))\<lparr>p_signature := sig\<rparr>) f))"
proof (rule add_proof_sound [OF assms(1)])
  note s = sound_revision [OF assms(1,2)]
  show "proof_known (tf_revisions f) ((unsigned_proof i k who label h (s_revision s))\<lparr>p_signature := sig\<rparr>)"
    using assms(2,7) by (simp add: proof_known_def proof_well_formed_def cong: proof_kind.case_cong)
  show "proof_ok ((unsigned_proof i k who label h (s_revision s))\<lparr>p_signature := sig\<rparr>)"
    using s assms(3-6) by (simp add: proof_ok_def)
qed

lemma sign_and_add_sound:
  assumes "sound_file P f" "get (tf_revisions f) i = Some s" "length who = 16" "str_ok label" "opt_sized 32 h"
    "prims_ok P" "proof_well_formed (s_revision s) (unsigned_proof i k who label h (s_revision s))"
  shows "sound_file P (snd (sign_and_add P secret (s_revision s) (unsigned_proof i k who label h (s_revision s)) f))"
proof -
  have "length (sign P secret d) = 64" for d
    using assms(6) unfolding prims_ok_def sized_prims_def sign_def by blast
  note signed = signed_proof_sound [OF assms(1-5) this assms(7)]
  show ?thesis
    using sign_and_add_cases [of P secret "s_revision s" "unsigned_proof i k who label h (s_revision s)" f]
  proof (elim disjE exE conjE)
    fix d
    assume "snd (sign_and_add P secret (s_revision s) (unsigned_proof i k who label h (s_revision s)) f)
      = snd (add_proof ((unsigned_proof i k who label h (s_revision s))\<lparr>p_signature := sign P secret d\<rparr>) f)"
    with signed [of d] show ?thesis by (simp only:)
  qed (simp only: assms(1))
qed

interpretation signing: sound_op P "prims_ok P \<and> length who = 16 \<and> str_ok label" "sign_revision P i who label secret"
  for P i who label secret
  by unfold_locales
     (auto simp: sign_revision_def Let_def proof_well_formed_def opt_sized_def intro!: sign_and_add_sound split: option.split)

interpretation finalizing: sound_op P "prims_ok P \<and> length who = 16 \<and> str_ok label" "finalize_revision P i who label secret"
  for P i who label secret
  by unfold_locales
     (auto simp: finalize_revision_def Let_def proof_well_formed_def opt_sized_def intro!: sign_and_add_sound split: option.split)

lemma author_hash_sized: "prims_ok P \<Longrightarrow> author_hash_to_back P ctx f i r = Some h \<Longrightarrow> length h = 32"
  unfolding prims_ok_def sized_prims_def by (auto simp: author_hash_to_back_def Let_def signature_hash_def)

interpretation countersigning: sound_op P "prims_ok P \<and> length who = 16 \<and> str_ok label"
    "countersign_revision_checked P ctx i who label secret"
  for P ctx i who label secret
  by unfold_locales
     (auto simp: countersign_revision_checked_def Let_def proof_well_formed_def opt_sized_def author_hash_sized
       intro!: sign_and_add_sound split: option.split)

interpretation coauthoring: sound_op P "prims_ok P \<and> length who = 16 \<and> str_ok label"
    "coauthor_revision P ctx i who label secret"
  for P ctx i who label secret
  by unfold_locales
     (auto simp: coauthor_revision_def Let_def proof_well_formed_def opt_sized_def author_hash_sized
       intro!: sign_and_add_sound split: option.split)

interpretation attaching: sound_op P "prims_ok P \<and> length who = 16 \<and> str_ok label \<and> length h = 32 \<and> length sig = 64"
    "attach_coauthor_signature P i h who label sig"
  for P i h who label sig
  by unfold_locales
     (auto simp: attach_coauthor_signature_def Let_def proof_well_formed_def opt_sized_def
       intro!: signed_proof_sound split: option.split)


interpretation event_signing: sound_op P "prims_ok P \<and> length who = 16 \<and> str_ok label"
    "sign_event P n who label secret"
  for P n who label secret
proof
  fix f
  assume pre: "prims_ok P \<and> length who = 16 \<and> str_ok label" and f: "sound_file P f"
  show "sound_file P (snd (sign_event P n who label secret f))"
  proof (cases "fst (sign_event P n who label secret f)")
    case (Inl e)
    then have "snd (sign_event P n who label secret f) = f"
      by (auto simp: sign_event_def split: option.splits if_splits)
    with f show ?thesis by simp
  next
    case (Inr u)
    then obtain e where e: "event_at (tf_events f) n = Some e" "e_actor_label e = Some label" "e_actor_identity e = Some who"
      "\<not> list_ex (\<lambda>p. ep_sequence p = n \<and> ep_signer_label p = label) (tf_event_proofs f)"
      by (auto simp: sign_event_def split: option.splits if_splits)
    let ?sig = "sign P secret (event_preimage P (tf_file_id f) e)"
    let ?p = "\<lparr>ep_sequence = n, ep_signer_identity = who, ep_signer_label = label, ep_signature = ?sig\<rparr>"
    have f': "snd (sign_event P n who label secret f) = f\<lparr>tf_event_proofs := tf_event_proofs f @ [?p]\<rparr>"
      using e by (simp add: sign_event_def)
    have "length ?sig = 64" using pre unfolding prims_ok_def sized_prims_def sign_def by blast
    then have "event_proof_ok ?p" using pre by (simp add: event_proof_ok_def)
    moreover have "event_proofs_ok (tf_events f) (tf_event_proofs f @ [?p])"
      using f e by (auto simp: sound_file_def verify_structure_iff event_proofs_ok_def event_proof_by_actor_def list_ex_iff)
    ultimately show ?thesis
      using f unfolding f' by (auto simp: sound_file_def file_ok_def verify_structure_iff payloads_ok_def is_destroyed_def)
  qed
qed

section \<open>Signing makes revisions trusted\<close>

lemma sign_and_add_Ok:
  assumes "sign_and_add P secret r p f = (Inr u, f')"
  obtains d where "proof_preimage P p r = Ok d"
    and "f' = f\<lparr>tf_proofs := make_room (p\<lparr>p_signature := sign P secret d\<rparr>) (tf_proofs f) @ [p\<lparr>p_signature := sign P secret d\<rparr>]\<rparr>"
  using assms by (auto simp: sign_and_add_def add_proof_def Let_def split: sum.splits if_splits)

lemma preimage_signature [simp]: "proof_preimage P (p\<lparr>p_signature := sig\<rparr>) r = proof_preimage P p r"
  by (simp add: proof_preimage_def cong: proof_kind.case_cong option.case_cong)

lemma own_signature_verifies:
  assumes "signature_law P" "proof_preimage P p r = Ok d" "bound_to r p"
    "ctx_signing_public ctx (p_signer_identity p) (p_signer_label p) = Some (public_key P secret)"
  shows "proof_verifies P ctx r (p\<lparr>p_signature := sign P secret d\<rparr>)"
  using assms by (auto simp: proof_verifies_iff bound_to_def known_key_def signature_law_def sign_def public_key_def)

lemma author_proof_of_exists:
  assumes "p \<in> set (tf_proofs f)" "p_revision_id p = i" "p_kind p = Content" "p_signer_label p = r_author_hcp_label r"
    "r_author_identity r = Some (p_signer_identity p)" "proof_verifies P ctx r p"
  shows "\<exists>c. author_proof_of P ctx f i r = Some c"
proof -
  have "p \<in> set (author_proofs f i r)" using assms by (simp add: author_proofs_def proofs_for_def)
  with assms(6) have "author_proof_of P ctx f i r \<noteq> None"
    by (auto simp: author_proof_of_def find_None_iff_ball)
  then show ?thesis by simp
qed

text \<open>
  C26. When an author signs their revision, a store that knows their key trusts it at once, if the
  policy asks of their role only the author's signature.
\<close>

theorem author_signature_trusted:
  assumes "signature_law P" "sign_revision P i who label secret f = (Inr (), f')"
    "get (tf_revisions f) i = Some s" "policy_hash P policy = Ok (r_policy_hash (s_revision s))"
    "requirement_for policy label = Some AuthorSign"
    "ctx_generation_evidence ctx (fp_scope_root policy) (r_topology_generation (s_revision s)) \<noteq> Unavailable"
    "ctx_signing_public ctx who label = Some (public_key P secret)"
  shows "is_trusted P ctx policy f' i"
proof -
  let ?r = "s_revision s"
  let ?p = "unsigned_proof i Content who label None ?r"
  from assms(2,3) have author: "r_author_identity ?r = Some who" "r_author_hcp_label ?r = label"
    and add: "sign_and_add P secret ?r ?p f = (Inr (), f')"
    by (auto simp: sign_revision_def Let_def split: if_splits)
  from add show ?thesis
  proof (rule sign_and_add_Ok)
    fix d
    assume d: "proof_preimage P ?p ?r = Ok d"
      and f': "f' = f\<lparr>tf_proofs := make_room (?p\<lparr>p_signature := sign P secret d\<rparr>) (tf_proofs f) @ [?p\<lparr>p_signature := sign P secret d\<rparr>]\<rparr>"
    have "proof_verifies P ctx ?r (?p\<lparr>p_signature := sign P secret d\<rparr>)"
      by (rule own_signature_verifies [OF assms(1) d]) (simp_all add: bound_to_def assms(7))
    then obtain c where "author_proof_of P ctx f' i ?r = Some c"
      using author_proof_of_exists [of "?p\<lparr>p_signature := sign P secret d\<rparr>" f' i ?r P ctx] author f' by auto
    then show ?thesis
      using assms(3-6) author f' by (auto simp: trusted_iff intro!: exI [of _ s] exI [of _ AuthorSign])
  qed
qed

lemma content_proofs_by_author:
  assumes "verify_structure P f = Ok x" "get (tf_revisions f) i = Some s"
  shows "proofs_for f i Content = author_proofs f i (s_revision s)"
proof -
  have "p_signer_label p = r_author_hcp_label (s_revision s) \<and> Some (p_signer_identity p) = r_author_identity (s_revision s)"
    if "p \<in> set (proofs_for f i Content)" for p
    using that assms
    by (auto simp: proofs_for_def verify_structure_iff proofs_ok_def list_all_iff proof_known_def proof_well_formed_def
        dest!: bspec)
  then show ?thesis by (simp add: author_proofs_def)
qed

text \<open>
  C27. Where the policy asks for the direct parent's approval, a countersignature by that parent,
  over a revision whose author proof already verifies, makes the revision trusted.
\<close>

theorem countersignature_trusted:
  assumes "signature_law P" "verify_structure P f = Ok x" "get (tf_revisions f) i = Some s"
    "author_proof_of P ctx f i (s_revision s) = Some c" "policy_hash P policy = Ok (r_policy_hash (s_revision s))"
    "requirement_for policy (r_author_hcp_label (s_revision s)) = Some AuthorSignDirectParent"
    "ctx_generation_evidence ctx (fp_scope_root policy) (r_topology_generation (s_revision s)) \<noteq> Unavailable"
    "parent_node_label (r_author_hcp_label (s_revision s)) = Some boss"
    "ctx_signing_public ctx who boss = Some (public_key P secret)"
    "countersign_revision_checked P ctx i who boss secret f = (Inr (), f')"
  shows "is_trusted P ctx policy f' i"
proof -
  let ?r = "s_revision s"
  have hashed: "author_hash_to_back P ctx f i ?r = Some (signature_hash P c)"
    using assms(4) content_proofs_by_author [OF assms(2,3)] by (simp add: author_hash_to_back_def author_proof_of_def)
  let ?p = "unsigned_proof i Countersignature who boss (Some (signature_hash P c)) ?r"
  from assms(3,10) hashed have "sign_and_add P secret ?r ?p f = (Inr (), f')"
    by (simp add: countersign_revision_checked_def)
  then show ?thesis
  proof (rule sign_and_add_Ok)
    fix d
    let ?q = "?p\<lparr>p_signature := sign P secret d\<rparr>"
    assume d: "proof_preimage P ?p ?r = Ok d" and f': "f' = f\<lparr>tf_proofs := make_room ?q (tf_proofs f) @ [?q]\<rparr>"
    have "proof_verifies P ctx ?r ?q"
      by (rule own_signature_verifies [OF assms(1) d]) (simp_all add: bound_to_def assms(9))
    then have "backed_by P ctx f' i ?r c boss" by (auto simp: backed_by_def f' intro!: bexI [of _ ?q])
    moreover have "proofs_for f' i Content = proofs_for f i Content"
      using filter_make_room_other [of "\<lambda>p. p_revision_id p = i \<and> p_kind p = Content" ?q "tf_proofs f"]
      by (auto simp: proofs_for_def f' same_slot_def)
    then have "author_proof_of P ctx f' i ?r = Some c" using assms(4) by (simp add: author_proof_of_def author_proofs_def)
    ultimately show ?thesis
      using assms(3,5-8) f' by (auto simp: trusted_iff intro!: exI [of _ s] exI [of _ AuthorSignDirectParent])
  qed
qed

end
