(* ===== verification/MergeFacts.thy ===== *)
theory MergeFacts
  imports Progress
begin

text \<open>
  Automatic merging is atomic, keeps a file sound, and joins exactly the two heads it was asked
  to merge in a revision that nobody trusts yet.
\<close>

section \<open>Merging is atomic and sound\<close>

lemma whole_seconds_str_ok:
  assumes "str_ok s"
  shows "str_ok (whole_seconds s)"
proof (cases "split_once CHR ''.'' s")
  case (Some p)
  then have "s = fst p @ CHR ''.'' # snd p" by (cases p) (simp add: split_once_Some_iff)
  moreover have "\<not> cont_char CHR ''.''" by (simp add: cont_char_def is_cont_def)
  ultimately have "str_ok (fst p)" using str_ok_before [of "fst p" "CHR ''.''" "snd p"] assms by simp
  then show ?thesis
    using assms Some by (auto simp: whole_seconds_def str_ok_append str_ok_ascii split: prod.splits option.splits)
qed (simp add: whole_seconds_def assms)

lemma event_by_ok:
  assumes "new_revision_ok new" "opt_sized 32 i" "list_all (\<lambda>(k, v). str_ok k \<and> str_ok v) details"
  shows "new_event_ok (event_by new k i outcome details)"
  using assms whole_seconds_str_ok by (simp add: new_event_ok_def event_by_def new_revision_ok_def opt_str_ok_def)

lemma event_by_simps [simp]:
  "n_event_type (event_by new k i outcome details) = k" "n_revision_id (event_by new k i outcome details) = i"
  "n_details (event_by new k i outcome details) = details" "n_outcome (event_by new k i outcome details) = outcome"
  by (simp_all add: event_by_def)

definition plan_ok :: "auto_merge_plan \<Rightarrow> bool" where
  "plan_ok p \<longleftrightarrow> str_ok (am_reason p) \<and> opt_sized 32 (am_merge_revision p)"

lemma plan_merge_texts_ok: "plan_merge_texts i b l r = Ok p \<Longrightarrow> plan_ok p"
  by (auto simp: plan_merge_texts_def plan_ok_def am_stop_def am_with_content_def str_ok_ascii opt_sized_def
      split: option.splits text_merge.splits)

lemma plan_auto_merge_ok:
  assumes "plan_auto_merge P left right allowed f = Ok p"
  shows "plan_ok p"
proof -
  have stop: "plan_ok (am_stop k w b)" "plan_ok (am_with_content k w b bs)" if "str_ok w" for k w b bs
    using that by (simp_all add: plan_ok_def am_stop_def am_with_content_def opt_sized_def)
  show ?thesis
    using assms plan_merge_texts_ok
    by (auto simp: plan_auto_merge_def Let_def str_ok_ascii intro!: stop
        split: option.splits if_splits head_relation.splits base_kind.splits)
qed

lemma growing_check_in_merge [growing]: "growing_steps (check_in_merge P left right new result)"
  unfolding check_in_merge_def by (intro growing)

lemma growing_auto_merge_steps [growing]: "growing_steps (auto_merge_steps P left right allowed new)"
  unfolding auto_merge_steps_def Let_def by (intro growing)

lemma keeps_check_in_merge:
  assumes "prims_ok P" "new_revision_ok new" "length left = 32" "length right = 32" "plan_ok p"
  shows "keeps_sound P (check_in_merge P left right new p) plan_ok"
proof -
  have "new_revision_ok (new\<lparr>nr_parent_revision_ids := [left, right]\<rparr>)"
    using assms(2,3,4) by (simp add: new_revision_ok_def)
  then have "keeps_sound P (bind_op (check_in P (new\<lparr>nr_parent_revision_ids := [left, right]\<rparr>) bs)
      (\<lambda>i. ret (p\<lparr>am_merge_revision := Some i\<rparr>))) plan_ok" for bs
    by (rule keeps_bind [OF keeps_check_in [OF assms(1)]], intro keeps_ret)
       (use assms(5) in \<open>simp add: plan_ok_def opt_sized_def\<close>)
  then show ?thesis
    using assms(5) by (simp add: check_in_merge_def keeps_ret split: option.split)
qed

lemma keeps_auto_merge_steps:
  assumes "prims_ok P" "new_revision_ok new" "length left = 32" "length right = 32"
  shows "keeps_sound P (auto_merge_steps P left right allowed new) plan_ok"
  unfolding auto_merge_steps_def
proof (rule keeps_bind, rule keeps_lift)
  fix p
  assume "plan_ok p"
  show "keeps_sound P (bind_op (check_in_merge P left right new p) (\<lambda>result.
     bind_op (append_event P (event_by new AutoMergeAttempted None Info
         ([(''left'', hex_encode P left), (''right'', hex_encode P right)]
          @ (case am_merge_base result of Some base \<Rightarrow> [(''base'', hex_encode P base)] | None \<Rightarrow> [])))) (\<lambda>_.
     let (k, revision, outcome) = merge_recorded result in
     bind_op (append_event P (event_by new k revision outcome
         ([(''reason'', am_reason result)]
          @ (if revision \<noteq> None then [(''trust_state'', ''PENDING'')] else [])))) (\<lambda>_.
     ret result)))) plan_ok"
  proof (rule keeps_bind [OF keeps_check_in_merge [OF assms \<open>plan_ok p\<close>]], rule keeps_bind [OF keeps_append_event])
    fix q :: auto_merge_plan and e :: history_event
    assume q: "plan_ok q"
    obtain k i w where rec: "merge_recorded q = (k, i, w)" by (cases "merge_recorded q") auto
    then have i: "opt_sized 32 i" "k \<noteq> ContentDestroyed"
      using q by (auto simp: merge_recorded_def plan_ok_def opt_sized_def split: auto_merge_outcome.splits)
    from q have "new_event_ok (event_by new k i w
        ([(''reason'', am_reason q)] @ (if i \<noteq> None then [(''trust_state'', ''PENDING'')] else [])))"
      by (intro event_by_ok [OF assms(2) i(1)]) (auto simp: plan_ok_def str_ok_ascii)
    from keeps_append_event [OF assms(1) this] i(2) q
    show "keeps_sound P (let (k, revision, outcome) = merge_recorded q in
        bind_op (append_event P (event_by new k revision outcome ([(''reason'', am_reason q)]
          @ (if revision \<noteq> None then [(''trust_state'', ''PENDING'')] else [])))) (\<lambda>_. ret q)) plan_ok"
      by (auto simp: rec intro!: keeps_ret elim!: keeps_bind)
  qed (use assms hex_str_ok in \<open>auto intro!: event_by_ok simp: opt_sized_def str_ok_ascii split: option.split\<close>)
qed (use plan_auto_merge_ok in auto)


interpretation merging: sound_steps "auto_merge_steps P left right allowed new" P
    "prims_ok P \<and> new_revision_ok new \<and> length left = 32 \<and> length right = 32"
  for P left right allowed new
  by (rule sound_stepsI [where Q = plan_ok]) (auto intro: growing keeps_auto_merge_steps)

section \<open>What a merge records\<close>

lemma heads_snoc:
  assumes "rev_id s \<notin> ids g" "set (rev_parents s) \<subseteq> ids g" "\<forall>t \<in> set g. rev_id s \<notin> set (rev_parents t)"
  shows "heads (g @ [s]) = filter (\<lambda>i. i \<notin> set (rev_parents s)) (heads g) @ [rev_id s]"
proof -
  have "rev_id s \<notin> set (rev_parents s)" using assms(1,2) by auto
  with assms show ?thesis by (auto simp: heads_def Let_def ids_def intro: filter_cong)
qed

lemma dag_parents_known:
  assumes "dag_ok g" "t \<in> set g"
  shows "set (rev_parents t) \<subseteq> ids g"
proof
  fix p
  assume "p \<in> set (rev_parents t)"
  moreover from assms(2) obtain i where "i < length g" "t = g ! i" by (auto simp: in_set_conv_nth)
  ultimately show "p \<in> ids g"
    using parents_first_parent [of "[]" g i p] assms(1) by (auto simp: dag_ok_def ids_def)
qed

lemma sound_dag: "sound_file P f \<Longrightarrow> dag_ok (tf_revisions f)"
  by (auto simp: sound_file_def verify_structure_iff revisions_ok_def)

lemma sound_proofs_known:
  assumes "sound_file P f" "p \<in> set (tf_proofs f)"
  shows "p_revision_id p \<in> ids (tf_revisions f)"
proof -
  from assms have "proof_known (tf_revisions f) p"
    by (auto simp: sound_file_def verify_structure_iff proofs_ok_def list_all_iff)
  then have "get (tf_revisions f) (p_revision_id p) \<noteq> None" by (auto simp: proof_known_def split: option.splits)
  then show ?thesis by (simp add: get_None_iff)
qed

lemma untrusted_without_proofs:
  "i \<notin> p_revision_id ` set (tf_proofs f) \<Longrightarrow> \<not> is_trusted P ctx policy f i"
  by (auto simp: trusted_iff dest: author_proof_ofD)

text \<open>What a plan with content to check in says of the heads it merges.\<close>

lemma planned_heads:
  assumes "plan_auto_merge P left right allowed f = Ok p" "am_outcome p \<in> {CleanMerge, AlreadyEquivalent}"
  shows "allowed \<and> left \<in> set (heads (tf_revisions f)) \<and> right \<in> set (heads (tf_revisions f)) \<and> left \<noteq> right
    \<and> am_merge_revision p = None"
proof -
  have no: "am_outcome (am_with_content k w b bs) = k" "am_outcome (am_stop k w b) = k"
    "am_merge_revision (am_with_content k w b bs) = None" "am_merge_revision (am_stop k w b) = None" for k w b bs
    by (simp_all add: am_with_content_def am_stop_def)
  from assms show ?thesis
    by (auto simp: plan_auto_merge_def plan_merge_texts_def compare_heads_def Let_def no
        split: option.splits if_splits head_relation.splits base_kind.splits text_merge.splits)
qed

lemma planned_no_revision:
  "plan_auto_merge P left right allowed f = Ok p \<Longrightarrow> am_merge_revision p = None"
  by (auto simp: plan_auto_merge_def plan_merge_texts_def am_with_content_def am_stop_def Let_def
      split: option.splits if_splits head_relation.splits base_kind.splits text_merge.splits)

lemma append_event_revisions:
  "append_event P n f = (Inr e, f') \<Longrightarrow> tf_revisions f' = tf_revisions f \<and> tf_proofs f' = tf_proofs f"
  using append_event_Ok(1) [of P n f e f'] by simp

lemma auto_merge_steps_Ok:
  assumes "auto_merge_steps P left right allowed new f = (Inr result, f')"
  obtains p f1 where "plan_auto_merge P left right allowed f = Ok p"
    and "check_in_merge P left right new p f = (Inr result, f1)"
    and "tf_revisions f' = tf_revisions f1" and "tf_proofs f' = tf_proofs f1"
  using assms
  by (auto simp: auto_merge_steps_def bind_op_Ok_iff Let_def case_prod_unfold split: sum.splits
      dest!: append_event_revisions)

text \<open>A revision checked in takes the place of its parents among the heads, and nobody trusts it yet.\<close>

lemma check_in_heads:
  assumes "sound_file P f" "check_in P n bs f = (Inr i, f1)"
  obtains s where "tf_revisions f1 = tf_revisions f @ [s]" and "rev_id s = i" and "rev_parents s = nr_parent_revision_ids n"
    and "s_payload s = Some bs" and "r_author_hcp_label (s_revision s) = nr_author_hcp_label n" and "tf_proofs f1 = tf_proofs f"
    and "heads (tf_revisions f1) = filter (\<lambda>h. h \<notin> set (nr_parent_revision_ids n)) (heads (tf_revisions f)) @ [i]"
    and "\<And>g ctx policy. tf_proofs g = tf_proofs f \<Longrightarrow> \<not> is_trusted P ctx policy g i"
  using assms(2)
proof (rule check_in_Ok)
  fix r
  assume r: "create_revision P (tf_file_id f) (tf_logical_name f) bs n = Ok r"
    and ir: "i = r_revision_id r" "i \<notin> ids (tf_revisions f)"
    and f1: "f1 = f\<lparr>tf_revisions := tf_revisions f @ [\<lparr>s_revision = r, s_payload = Some bs\<rparr>]\<rparr>"
    and known: "set (nr_parent_revision_ids n) \<subseteq> ids (tf_revisions f)"
  let ?s = "\<lparr>s_revision = r, s_payload = Some bs\<rparr>"
  note facts = create_revision_facts [OF r]
  have "\<forall>t \<in> set (tf_revisions f). i \<notin> set (rev_parents t)"
    using dag_parents_known [OF sound_dag [OF assms(1)]] ir(2) by blast
  then have "heads (tf_revisions f1) = filter (\<lambda>h. h \<notin> set (nr_parent_revision_ids n)) (heads (tf_revisions f)) @ [i]"
    using heads_snoc [of ?s "tf_revisions f"] facts(2) known ir f1 by simp
  moreover have "\<not> is_trusted P ctx policy g i" if "tf_proofs g = tf_proofs f" for g ctx policy
    using sound_proofs_known [OF assms(1)] ir(2) that by (intro untrusted_without_proofs) auto
  ultimately show thesis using facts ir f1 by (intro that [of ?s]) simp_all
qed


section \<open>A sample merge of heads\<close>

lemma head_reached_only_from_itself:
  assumes "(y, x) \<in> (parent_rel g)\<^sup>*" "x \<in> set (heads g)"
  shows "y = x"
  using assms by (induction rule: rtrancl_induct) (auto simp: heads_def parent_rel_def Let_def)

lemma forked_facts:
  assumes "forked f root left right"
  shows "heads (tf_revisions f) = [left, right]" "payload_of f left = Some [8]" "payload_of f right = Some [8]"
    "left \<noteq> right" "length left = 32" "length right = 32" "ids (tf_revisions f) = {root, left, right}"
    "sample_like f {0, 1, 2}"
proof -
  from assms obtain a b c where f: "tf_revisions f = [a, b, c]" "rev_id a = root" "rev_id b = left" "rev_id c = right"
    "rev_parents a = []" "rev_parents b = [root]" "rev_parents c = [root]" "s_payload b = Some [8]"
    "s_payload c = Some [8]" and d: "distinct [root, left, right]" by (auto simp: forked_def)
  from f d show "heads (tf_revisions f) = [left, right]" by (auto simp: heads_def)
  from f d show "payload_of f left = Some [8]" "payload_of f right = Some [8]" by (auto simp: payload_of_def get_def content_def)
  from f show "ids (tf_revisions f) = {root, left, right}" by (auto simp: ids_def)
qed (use assms in \<open>auto simp: forked_def\<close>)

lemma forked_diverged:
  assumes "forked f root left right"
  shows "compare_heads (tf_revisions f) left right = Ok Diverged"
proof -
  note f = forked_facts [OF assms]
  have "distinct (map rev_id (tf_revisions f))"
    using f(8) sound_dag dag_ok_distinct by (auto simp: sample_like_def)
  then have "\<not> graph_ancestor_or_self (tf_revisions f) left right" "\<not> graph_ancestor_or_self (tf_revisions f) right left"
    using head_reached_only_from_itself [of right left "tf_revisions f"]
      head_reached_only_from_itself [of left right "tf_revisions f"] f(1,4)
    by (auto simp: graph_ancestor_or_self_iff)
  with f(4,7) show ?thesis by (simp add: compare_heads_def get_None_iff)
qed

lemma forked_plan:
  assumes "forked f root left right"
  shows "plan_auto_merge toy_prims left right True f
    = Ok (am_with_content AlreadyEquivalent ''IDENTICAL_CONTENT'' None [8])"
  using forked_facts [OF assms] forked_diverged [OF assms]
  by (auto simp: plan_auto_merge_def Let_def sample_like_def sound_file_def)

lemma sample_event_fits:
  "event_fits (event_by (sample_rev ps k) t i w ds) \<longleftrightarrow>
     length ds < 2 ^ 16 \<and> list_all (\<lambda>(k, v). length k < 2 ^ 16 \<and> length v < 2 ^ 16) ds"
  by (auto simp: event_fits_def event_by_def sample_rev_def sample_new_revision_def whole_seconds_def split_once_def)

lemma toy_hex_length: "length (hex_encode toy_prims bs) = 2 * length bs"
  by (simp add: toy_prims_def)

lemma forked_merge:
  assumes "forked f root left right"
  shows "\<exists>result f'. auto_merge toy_prims left right True (sample_rev [] 3) f = (Ok result, f')
    \<and> am_merge_revision result \<noteq> None"
proof -
  note f = forked_facts [OF assms]
  have "tf_revisions f \<noteq> []" using f(7) by (auto simp: ids_def)
  let ?plan = "am_with_content AlreadyEquivalent ''IDENTICAL_CONTENT'' None [8]"
  obtain i s where ci: "check_in toy_prims (sample_rev [left, right] 3) [8] f = (Ok i, f\<lparr>tf_revisions := tf_revisions f @ [s]\<rparr>)"
    and s: "rev_id s = i" "length i = 32" "sample_like (f\<lparr>tf_revisions := tf_revisions f @ [s]\<rparr>) {3, 0, 1, 2}"
    using sample_like_check_in [OF f(8), of 3 "[left, right]" "[8]"] f \<open>tf_revisions f \<noteq> []\<close> by auto
  let ?f1 = "f\<lparr>tf_revisions := tf_revisions f @ [s]\<rparr>" and ?r = "?plan\<lparr>am_merge_revision := Some i\<rparr>"
  have "(sample_rev [] 3)\<lparr>nr_parent_revision_ids := [left, right]\<rparr> = sample_rev [left, right] 3" by (simp add: sample_rev_def)
  then have merged: "check_in_merge toy_prims left right (sample_rev [] 3) ?plan f = (Ok ?r, ?f1)"
    using ci by (simp add: check_in_merge_def am_with_content_def bind_op_def)
  let ?e1 = "event_by (sample_rev [] 3) AutoMergeAttempted None Info
      [(''left'', hex_encode toy_prims left), (''right'', hex_encode toy_prims right)]"
  have ok1: "sound_file toy_prims ?f1" using s(3) by (simp add: sample_like_def)
  have fit1: "event_fits ?e1" "unsafe_key (n_details ?e1) = None" "n_revision_id ?e1 = None"
    using f(5,6) by (simp_all add: sample_event_fits toy_hex_length unsafe_key_def SAFE_DETAIL_KEYS_def)
  obtain e1 where e1: "append_event toy_prims ?e1 ?f1 = (Ok e1, ?f1\<lparr>tf_events := tf_events ?f1 @ [e1]\<rparr>)"
    using sound_append_succeeds [OF ok1 fit1(1,2)] fit1(3) by blast
  let ?f2 = "?f1\<lparr>tf_events := tf_events ?f1 @ [e1]\<rparr>"
  have "keeps_sound toy_prims (append_event toy_prims ?e1) event_ok"
    by (rule keeps_append_event) (use hex_str_ok in \<open>auto intro!: event_by_ok sample_rev_ok simp: opt_sized_def str_ok_ascii\<close>)
  with e1 ok1 have ok2: "sound_file toy_prims ?f2" by (auto simp: keeps_sound_def)
  let ?e2 = "event_by (sample_rev [] 3) AutoMergeEquivalent (Some i) Success
      [(''reason'', ''IDENTICAL_CONTENT''), (''trust_state'', ''PENDING'')]"
  have fit2: "event_fits ?e2" "unsafe_key (n_details ?e2) = None"
    by (simp_all add: sample_event_fits unsafe_key_def SAFE_DETAIL_KEYS_def)
  obtain e2 where e2: "append_event toy_prims ?e2 ?f2 = (Ok e2, ?f2\<lparr>tf_events := tf_events ?f2 @ [e2]\<rparr>)"
    using sound_append_succeeds [OF ok2 fit2] s(1) by (auto simp: ids_def)
  have "auto_merge_steps toy_prims left right True (sample_rev [] 3) f = (Ok ?r, ?f2\<lparr>tf_events := tf_events ?f2 @ [e2]\<rparr>)"
    using forked_plan [OF assms] merged e1 e2
    by (simp add: auto_merge_steps_def bind_op_def merge_recorded_def am_with_content_def)
  then show ?thesis by (auto simp: auto_merge_def merging.done_iff)
qed


end
