(* ===== verification/Governed.thy ===== *)
theory Governed
  imports ProofFacts MergeFacts
begin

text \<open>
  A file with one revision under the standard policy of a scope, taken through the signing
  operations: signed by its author, countersigned by the author's parent, co-authored by a
  recipient and finalized by the scope owner. The trust properties are instantiated on it.
\<close>

declare make_room.simps [simp del]

definition office :: trust_context where
  "office = default_context (\<lambda>_ _. Some [9]) (\<lambda>_. NoBridge)"

lemma office_simps [simp]:
  "ctx_signing_public office who label = Some [9]"
  "ctx_historical_signing_publics office who label n = []"
  "ctx_generation_evidence office root n = Current"
  by (simp_all add: office_def default_context_def)

definition governed_revision :: "str \<Rightarrow> new_revision" where
  "governed_revision root =
     sample_new_revision\<lparr>nr_policy_hash := toy_hash (POLICY_DOMAIN @ projr (policy_bytes (standard root)))\<rparr>"

definition governed :: "str \<Rightarrow> tracked_file \<Rightarrow> stored_revision \<Rightarrow> bool" where
  "governed root f s \<longleftrightarrow>
     sound_file toy_prims f \<and> tf_revisions f = [s] \<and> length (rev_id s) = 32 \<and> rev_parents s = []
     \<and> policy_hash toy_prims (standard root) = Ok (r_policy_hash (s_revision s))
     \<and> r_author_identity (s_revision s) = Some (replicate 16 2) \<and> r_author_hcp_label (s_revision s) = ''A.1''
     \<and> tf_events f = []"

lemma governed_create:
  "\<exists>r. create_revision toy_prims fid ''report.txt'' [7, 8] (governed_revision root) = Ok r"
  by (simp add: create_revision_def governed_revision_def sample_new_revision_def sample_label compute_id_def
      revision_body_def Let_def eval_simps)

lemma governed_exists:
  assumes "length root < 2 ^ 16"
  shows "\<exists>f s. governed root f s \<and> tf_proofs f = []"
proof -
  let ?n = "governed_revision root"
  obtain r where r: "create_revision toy_prims (tf_file_id sample_start) ''report.txt'' [7, 8] ?n = Ok r"
    using governed_create by blast
  let ?s = "\<lparr>s_revision = r, s_payload = Some [7, 8]\<rparr>"
  let ?f = "sample_start\<lparr>tf_revisions := [?s]\<rparr>"
  have ci: "check_in toy_prims ?n [7, 8] sample_start = (Ok (r_revision_id r), ?f)"
    using r by (simp add: check_in_def Let_def sample_start_def new_file_def is_destroyed_def get_def
        governed_revision_def sample_new_revision_def)
  have "new_revision_ok ?n" using sample_new_revision_ok by (simp add: new_revision_ok_def governed_revision_def)
  from keeps_check_in [OF toy_prims_ok this, of "[7, 8]"] ci sample_start_like
  have "sound_file toy_prims ?f \<and> length (r_revision_id r) = 32" by (auto simp: keeps_sound_def sample_like_def)
  moreover have "\<exists>b. policy_bytes (standard root) = Ok b"
    using assms by (simp add: policy_bytes_def standard_def eval_simps)
  then have "policy_hash toy_prims (standard root) = Ok (nr_policy_hash ?n)"
    by (auto simp: policy_hash_def governed_revision_def)
  ultimately have "governed root ?f ?s"
    using create_revision_facts [OF r] sample_start_like
    by (simp add: governed_def governed_revision_def sample_new_revision_def sample_like_def)
  then show ?thesis by (auto simp: sample_start_def new_file_def)
qed

section \<open>Signing it\<close>

lemma make_room_free: "\<forall>q \<in> set ps. \<not> same_slot q p \<Longrightarrow> make_room p ps = ps"
  by (subst make_room.simps) (simp add: slot_count_def filter_empty_conv MAX_PROOFS_PER_SLOT_def)

lemma sign_and_add_free:
  assumes "proof_preimage P p r = Ok d" "\<forall>q \<in> set (tf_proofs f). \<not> same_slot q p"
  shows "sign_and_add P k r p f = (Ok (), f\<lparr>tf_proofs := tf_proofs f @ [p\<lparr>p_signature := sign P k d\<rparr>]\<rparr>)"
  using assms by (auto simp: sign_and_add_def add_proof_def Let_def list_ex_iff make_room_free same_slot_def)

text \<open>The proof a holder of key \<open>[9]\<close> adds.\<close>

definition office_proof :: "revision_proof \<Rightarrow> file_revision \<Rightarrow> revision_proof" where
  "office_proof p r = p\<lparr>p_signature := sign toy_prims [9] (projr (proof_preimage toy_prims p r))\<rparr>"

lemma office_proof_simps [simp]:
  "p_revision_id (office_proof p r) = p_revision_id p" "p_kind (office_proof p r) = p_kind p"
  "p_signer_identity (office_proof p r) = p_signer_identity p" "p_signer_label (office_proof p r) = p_signer_label p"
  "p_author_signature_hash (office_proof p r) = p_author_signature_hash p"
  by (simp_all add: office_proof_def)

lemma office_proof_added:
  assumes "proof_preimage toy_prims p r = Ok d" "\<forall>q \<in> set (tf_proofs f). \<not> same_slot q p"
  shows "sign_and_add toy_prims [9] r p f = (Ok (), f\<lparr>tf_proofs := tf_proofs f @ [office_proof p r]\<rparr>)"
  using sign_and_add_free [OF assms, of "[9]"] assms(1) by (simp add: office_proof_def)

lemma office_proof_verifies:
  "proof_preimage toy_prims p r = Ok d \<Longrightarrow> bound_to r p \<Longrightarrow> proof_verifies toy_prims office r (office_proof p r)"
  using own_signature_verifies [of toy_prims p r d office "[9]"] by (simp add: office_proof_def public_key_def)

lemma unsigned_bound [simp]: "bound_to r (unsigned_proof i k who label h r)"
  by (simp add: bound_to_def)

lemma unsigned_preimage:
  "r_author_identity r \<noteq> None \<Longrightarrow> h = None \<longleftrightarrow> k \<in> {Content, Finalization} \<Longrightarrow> length label < 2 ^ 16 \<Longrightarrow>
     \<exists>d. proof_preimage toy_prims (unsigned_proof i k who label h r) r = Ok d"
  by (cases k; cases h) (auto simp: proof_preimage_def file_countersign_preimage_def file_coauthor_preimage_def
      file_finalize_preimage_def file_countersign_fed_def file_coauthor_fed_def file_finalize_fed_def
      digest_def hash_len_prefixed_def as_bytes_def)

definition office_signature :: "proof_kind \<Rightarrow> u8 \<Rightarrow> str \<Rightarrow> bytes option \<Rightarrow> stored_revision \<Rightarrow> revision_proof" where
  "office_signature k who label h s =
     office_proof (unsigned_proof (rev_id s) k (replicate 16 who) label h (s_revision s)) (s_revision s)"

lemma office_signature_simps [simp]:
  "p_revision_id (office_signature k who label h s) = rev_id s" "p_kind (office_signature k who label h s) = k"
  "p_signer_identity (office_signature k who label h s) = replicate 16 who"
  "p_signer_label (office_signature k who label h s) = label"
  "p_author_signature_hash (office_signature k who label h s) = h"
  by (simp_all add: office_signature_def)

definition authored_by :: "stored_revision \<Rightarrow> revision_proof" where
  "authored_by = office_signature Content 2 ''A.1'' None"

definition backing :: "stored_revision \<Rightarrow> bytes option" where
  "backing s = Some (signature_hash toy_prims (authored_by s))"

definition approved_by :: "stored_revision \<Rightarrow> revision_proof" where
  "approved_by s = office_signature Countersignature 3 ''A'' (backing s) s"

definition joined_by :: "stored_revision \<Rightarrow> revision_proof" where
  "joined_by s = office_signature CoAuthor 4 ''A.2'' (backing s) s"

definition closed_by :: "stored_revision \<Rightarrow> revision_proof" where
  "closed_by = office_signature Finalization 3 ''A'' None"

lemmas office_proofs = authored_by_def approved_by_def joined_by_def closed_by_def

lemma governed_get: "governed root f s \<Longrightarrow> get (tf_revisions f) (rev_id s) = Some s"
  by (simp add: governed_def get_def)

lemma office_preimage:
  assumes "governed root f s" "h = None \<longleftrightarrow> k \<in> {Content, Finalization}" "length label < 2 ^ 16"
  obtains d where "proof_preimage toy_prims
      (unsigned_proof (rev_id s) k (replicate 16 who) label h (s_revision s)) (s_revision s) = Ok d"
proof -
  have "r_author_identity (s_revision s) \<noteq> None" using assms(1) by (simp add: governed_def)
  with unsigned_preimage assms(2,3) that show ?thesis by blast
qed

lemma office_signature_verifies:
  assumes "governed root f s" "h = None \<longleftrightarrow> k \<in> {Content, Finalization}" "length label < 2 ^ 16"
  shows "proof_verifies toy_prims office (s_revision s) (office_signature k who label h s)"
  using assms by (rule office_preimage) (auto simp: office_signature_def intro: office_proof_verifies)

lemma office_verifies:
  assumes "governed root f s"
  shows "proof_verifies toy_prims office (s_revision s) (authored_by s)"
    "proof_verifies toy_prims office (s_revision s) (approved_by s)"
    "proof_verifies toy_prims office (s_revision s) (joined_by s)"
    "proof_verifies toy_prims office (s_revision s) (closed_by s)"
  using office_signature_verifies [OF assms] by (simp_all add: office_proofs backing_def)

lemma office_author_proof:
  assumes "governed root f s" "tf_proofs g = authored_by s # ps"
  shows "author_proof_of toy_prims office g (rev_id s) (s_revision s) = Some (authored_by s)"
proof -
  have "r_author_identity (s_revision s) = Some (replicate 16 2)" "r_author_hcp_label (s_revision s) = ''A.1''"
    using assms(1) by (simp_all add: governed_def)
  then have "author_proofs g (rev_id s) (s_revision s) =
      authored_by s # filter (\<lambda>p. p_signer_label p = ''A.1'' \<and> Some (p_signer_identity p) = Some (replicate 16 2))
        (filter (\<lambda>p. p_revision_id p = rev_id s \<and> p_kind p = Content) ps)"
    by (simp add: author_proofs_def proofs_for_def assms(2)) (simp add: authored_by_def)
  with office_verifies(1) [OF assms(1)] show ?thesis by (simp only: author_proof_of_def find.simps if_True)
qed

lemma office_signature_added:
  assumes "governed root f s" "h = None \<longleftrightarrow> k \<in> {Content, Finalization}" "length label < 2 ^ 16"
    "\<forall>q \<in> set (tf_proofs f). p_kind q \<noteq> k"
  shows "sign_and_add toy_prims [9] (s_revision s)
      (unsigned_proof (rev_id s) k (replicate 16 who) label h (s_revision s)) f
    = (Ok (), f\<lparr>tf_proofs := tf_proofs f @ [office_signature k who label h s]\<rparr>)"
proof -
  from assms(1-3) obtain d where "proof_preimage toy_prims
      (unsigned_proof (rev_id s) k (replicate 16 who) label h (s_revision s)) (s_revision s) = Ok d"
    by (rule office_preimage)
  then show ?thesis
    using office_proof_added assms(4) unfolding office_signature_def by (auto simp: same_slot_def)
qed

lemma office_signs:
  assumes "governed root f s" "tf_proofs f = []"
  shows "sign_revision toy_prims (rev_id s) (replicate 16 2) ''A.1'' [9] f = (Ok (), f\<lparr>tf_proofs := [authored_by s]\<rparr>)"
  using office_signature_added [OF assms(1), of None Content "''A.1''" 2] assms governed_get [OF assms(1)]
  by (simp add: sign_revision_def Let_def governed_def authored_by_def)

lemma office_backs:
  assumes "governed root f s" "tf_proofs f = authored_by s # ps"
  shows "author_hash_to_back toy_prims office f (rev_id s) (s_revision s) = backing s"
  using office_verifies(1) [OF assms(1)] assms(2)
  by (simp add: author_hash_to_back_def proofs_for_def backing_def) (simp add: authored_by_def)

lemma office_approves:
  assumes "governed root f s" "tf_proofs f = [authored_by s]"
  shows "countersign_revision_checked toy_prims office (rev_id s) (replicate 16 3) ''A'' [9] f
    = (Ok (), f\<lparr>tf_proofs := [authored_by s, approved_by s]\<rparr>)"
  using office_signature_added [OF assms(1), of "backing s" Countersignature "''A''" 3] assms(2)
    governed_get [OF assms(1)] office_backs [OF assms]
  by (simp add: countersign_revision_checked_def backing_def approved_by_def authored_by_def)

lemma office_roles:
  "requirement_for (standard ''A.1'') ''A.1'' = Some AuthorSign"
  "requirement_for (standard ''A'') ''A.1'' = Some AuthorSignDirectParent"
  "parent_node_label ''A.1'' = Some ''A''"
  by (simp_all add: requirement_for_def relationship_def standard_def is_well_formed_def ancestry_distance_def
      is_ancestor_or_self_def strip_prefix_def parent_node_label_def rsplit_once_def split_once_def)

lemma governed_signed:
  assumes "governed ''A.1'' f s" "tf_proofs f = []"
  shows "sound_file toy_prims (f\<lparr>tf_proofs := [authored_by s]\<rparr>)"
    "is_trusted toy_prims office (standard ''A.1'') (f\<lparr>tf_proofs := [authored_by s]\<rparr>) (rev_id s)"
proof -
  let ?f = "f\<lparr>tf_proofs := [authored_by s]\<rparr>"
  show "sound_file toy_prims ?f"
    using signing.keeps [of toy_prims "replicate 16 2" "''A.1''" f "rev_id s" "[9]"] office_signs [OF assms] assms(1)
    by (simp add: governed_def eval_simps)
  have "author_proof_of toy_prims office ?f (rev_id s) (s_revision s) = Some (authored_by s)"
    by (rule office_author_proof [OF assms(1)]) simp
  then show "is_trusted toy_prims office (standard ''A.1'') ?f (rev_id s)"
    using assms(1) office_roles(1) governed_get [OF assms(1)]
    by (auto simp: trusted_iff governed_def intro!: exI [of _ s] exI [of _ AuthorSign])
qed

section \<open>The trust properties on it\<close>

theorem author_signature_trusted_witness:
  "\<exists>f f' i. sign_revision toy_prims i (replicate 16 2) ''A.1'' [9] f = (Inr (), f')
     \<and> is_trusted toy_prims office (standard ''A.1'') f' i"
proof -
  obtain f s where f: "governed ''A.1'' f s" "tf_proofs f = []" using governed_exists [of "''A.1''"] by auto
  have "public_key toy_prims [9] = [9]" by (simp add: public_key_def)
  then have "is_trusted toy_prims office (standard ''A.1'') (f\<lparr>tf_proofs := [authored_by s]\<rparr>) (rev_id s)"
    using author_signature_trusted [OF toy_signature_law office_signs [OF f] governed_get [OF f(1)], of "standard ''A.1''" office]
      f(1) office_roles(1) by (simp add: governed_def)
  with office_signs [OF f] show ?thesis by blast
qed

theorem countersignature_trusted_witness:
  "\<exists>f f' i. countersign_revision_checked toy_prims office i (replicate 16 3) ''A'' [9] f = (Inr (), f')
     \<and> is_trusted toy_prims office (standard ''A'') f' i"
proof -
  obtain f s where f: "governed ''A'' f s" "tf_proofs f = []" using governed_exists [of "''A''"] by auto
  let ?f = "f\<lparr>tf_proofs := [authored_by s]\<rparr>"
  have "sound_file toy_prims ?f"
    using signing.keeps [of toy_prims "replicate 16 2" "''A.1''" f "rev_id s" "[9]"] office_signs [OF f] f(1)
    by (simp add: governed_def eval_simps)
  then have g: "governed ''A'' ?f s" "tf_proofs ?f = [authored_by s]" using f(1) by (simp_all add: governed_def)
  obtain x where "verify_structure toy_prims ?f = Ok x" using g(1) by (auto simp: governed_def sound_file_def)
  moreover have "public_key toy_prims [9] = [9]" by (simp add: public_key_def)
  ultimately have "is_trusted toy_prims office (standard ''A'') (?f\<lparr>tf_proofs := [authored_by s, approved_by s]\<rparr>) (rev_id s)"
    using countersignature_trusted [OF toy_signature_law _ governed_get [OF g(1)] office_author_proof [OF g]
        _ _ _ _ _ office_approves [OF g], of _ "standard ''A''"] g(1) office_roles
    by (simp add: governed_def)
  with office_approves [OF g] show ?thesis by blast
qed

text \<open>Countersigned, co-authored and finalized.\<close>

definition endorsed :: "tracked_file \<Rightarrow> stored_revision \<Rightarrow> bool" where
  "endorsed f s \<longleftrightarrow> dag_ok (tf_revisions f) \<and> tf_revisions f = [s] \<and> rev_parents s = []
     \<and> r_author_hcp_label (s_revision s) = ''A.1''
     \<and> tf_proofs f = [authored_by s, approved_by s, joined_by s, closed_by s]
     \<and> is_trusted toy_prims office (standard ''A'') f (rev_id s)
     \<and> proof_verifies toy_prims office (s_revision s) (closed_by s)
     \<and> proof_verifies toy_prims office (s_revision s) (joined_by s)
     \<and> author_proof_of toy_prims office f (rev_id s) (s_revision s) = Some (authored_by s)"

lemma endorsed_exists: "\<exists>f s. endorsed f s"
proof -
  obtain f s where f: "governed ''A'' f s" "tf_proofs f = []" using governed_exists [of "''A''"] by auto
  let ?f = "f\<lparr>tf_proofs := [authored_by s, approved_by s, joined_by s, closed_by s]\<rparr>"
  have author: "author_proof_of toy_prims office ?f (rev_id s) (s_revision s) = Some (authored_by s)"
    by (rule office_author_proof [OF f(1)]) simp
  moreover have "backed_by toy_prims office ?f (rev_id s) (s_revision s) (authored_by s) ''A''"
    unfolding backed_by_def
    by (rule bexI [of _ "approved_by s"], simp only: office_verifies(2) [OF f(1)])
       (simp_all add: approved_by_def backing_def)
  ultimately have "is_trusted toy_prims office (standard ''A'') ?f (rev_id s)"
    using f(1) office_roles governed_get [OF f(1)]
    by (auto simp: trusted_iff governed_def intro!: exI [of _ s] exI [of _ AuthorSignDirectParent])
  then have "endorsed ?f s"
    using f(1) author office_verifies [OF f(1)] sound_dag [of toy_prims f] by (simp add: endorsed_def governed_def)
  then show ?thesis by blast
qed

theorem trust_sound_witness:
  "\<exists>f i s c requirement. is_trusted toy_prims office (standard ''A'') f i
     \<and> get (tf_revisions f) i = Some s \<and> c \<in> set (tf_proofs f)
     \<and> requirement_for (standard ''A'') (r_author_hcp_label (s_revision s)) = Some requirement
     \<and> requirement_met toy_prims office (standard ''A'') f i (s_revision s) c requirement"
proof -
  obtain f s where "endorsed f s" using endorsed_exists by blast
  then have "is_trusted toy_prims office (standard ''A'') f (rev_id s)" by (simp add: endorsed_def)
  with trust_sound [OF this] show ?thesis by blast
qed

lemma endorsed_heads:
  assumes "endorsed f s"
  shows "heads (tf_revisions f) = [rev_id s]" "ancestor_set (tf_revisions f) (rev_id s) = {rev_id s}"
    "get (tf_revisions f) (rev_id s) = Some s"
proof -
  from assms have g: "tf_revisions f = [s]" "rev_parents s = []" "dag_ok (tf_revisions f)"
    unfolding endorsed_def by blast+
  show "heads (tf_revisions f) = [rev_id s]" by (simp add: heads_def g(1,2))
  have "ids (tf_revisions f) = {rev_id s}" by (simp add: ids_def g(1))
  then show "ancestor_set (tf_revisions f) (rev_id s) = {rev_id s}"
    using ancestor_set_eq [OF dag_ok_distinct [OF g(3)], of "rev_id s"] by auto
  show "get (tf_revisions f) (rev_id s) = Some s" by (simp add: g(1) get_def)
qed

theorem finalized_checkpoint_sound_witness:
  "\<exists>f i. (i, Some i) \<in> set (finalized_checkpoints toy_prims office (standard ''A'') f)
     \<and> graph_ancestor_or_self (tf_revisions f) i i \<and> is_trusted toy_prims office (standard ''A'') f i"
proof -
  obtain f s where f: "endorsed f s" using endorsed_exists by blast
  have "is_ancestor_or_self ''A'' (fp_scope_root (standard ''A''))"
    by (simp add: is_ancestor_or_self_def is_well_formed_def standard_def)
  with f have "is_finalized toy_prims office (standard ''A'') f (rev_id s)"
    using endorsed_heads [OF f]
    by (simp add: is_finalized_def endorsed_def proofs_for_def) (simp add: office_proofs)
  then have c: "(rev_id s, Some (rev_id s)) \<in> set (finalized_checkpoints toy_prims office (standard ''A'') f)"
    using endorsed_heads [OF f] f by (simp add: finalized_checkpoints_def latest_finalized_ancestor_def endorsed_def)
  have "dag_ok (tf_revisions f)" using f unfolding endorsed_def by blast
  from finalized_checkpoint_sound [OF this c] c show ?thesis
    by (intro exI [of _ f] exI [of _ "rev_id s"]) simp
qed

theorem shareable_is_trusted_witness:
  "\<exists>f i d. select_shareable_revision toy_prims office (standard ''A'') f i None = Ok d
     \<and> dd_delivered_revision d = Some i \<and> is_trusted toy_prims office (standard ''A'') f i \<and> dd_content_proof d \<noteq> None"
proof -
  obtain f s where f: "endorsed f s" using endorsed_exists by blast
  have dag: "dag_ok (tf_revisions f)" and trusted: "is_trusted toy_prims office (standard ''A'') f (rev_id s)"
    using f unfolding endorsed_def by blast+
  have "\<exists>b. descriptor_fed f (rev_id s) = Ok b"
    using f by (simp add: descriptor_fed_def endorsed_def)
      (simp add: describe_proof_def office_proofs hash_len_prefixed_def encode_all_Cons)
  then obtain p where "proof_descriptor toy_prims f (rev_id s) = Ok p" by (auto simp: proof_descriptor_def)
  then obtain d where d: "select_shareable_revision toy_prims office (standard ''A'') f (rev_id s) None = Ok d"
    "dd_delivered_revision d = Some (rev_id s)"
    using trusted endorsed_heads(3) [OF f] by (simp add: select_shareable_revision_def)
  from shareable_is_trusted [OF dag d(1)] d show ?thesis
    by (intro exI [of _ f] exI [of _ "rev_id s"] exI [of _ d]) simp
qed

theorem add_proof_bounded_witness:
  "\<exists>f f' p. add_proof p f = (True, f') \<and> length (filter (\<lambda>q. same_slot q p) (tf_proofs f')) \<le> MAX_PROOFS_PER_SLOT"
proof -
  let ?p = "unsigned_proof [] Content [] [] None undefined"
  obtain f' where "add_proof ?p sample_start = (True, f')"
    by (simp add: add_proof_def sample_start_def new_file_def)
  with add_proof_bounded [OF this] show ?thesis by blast
qed

end
