(* ===== verification/Resolve.thy ===== *)
theory Resolve
  imports Merge Trust
begin

text \<open>
  Choosing who settles a conflict, and settling it, \<open>src/file_history/resolve.rs\<close>: the four
  selection rules, the recorded escalation of a divergence, and a reviewer's resolution or
  rejection.
\<close>

section \<open>Choosing a reviewer\<close>

datatype selection_rule =
    PriorNeutralOwner | MostSeniorHistoricalOwner | DominantSector | LowestCommonSeniorAncestor

fun rule_name :: "selection_rule \<Rightarrow> str" where
  "rule_name PriorNeutralOwner = ''PRIOR_NEUTRAL_OWNER''"
| "rule_name MostSeniorHistoricalOwner = ''MOST_SENIOR_HISTORICAL_OWNER''"
| "rule_name DominantSector = ''DOMINANT_SECTOR''"
| "rule_name LowestCommonSeniorAncestor = ''LOWEST_COMMON_SENIOR_ANCESTOR''"

datatype resolver_selection =
    Assigned (reviewer: str) (chosen_by: selection_rule) (tied_owners: "str list")
  | Unresolved

text \<open>Bridge evidence is hidden; the methods the wrapper does not forward are the default ones.\<close>

definition without_bridges :: "trust_context \<Rightarrow> trust_context" where
  "without_bridges ctx =
     (default_context (ctx_signing_public ctx) (\<lambda>_. NoBridge))
       \<lparr>ctx_generation_evidence := ctx_generation_evidence ctx\<rparr>"

definition depth :: "str \<Rightarrow> nat" where
  "depth label = length (split CHR ''.'' label)"

definition sector :: "str \<Rightarrow> str" where
  "sector label = join ''.'' (take 2 (split CHR ''.'' label))"

fun distinct_loop :: "str list \<Rightarrow> str list \<Rightarrow> str list" where
  "distinct_loop out [] = out"
| "distinct_loop out (label # labels) =
     distinct_loop (if label \<in> set out then out else out @ [label]) labels"

definition distinct_labels :: "str list \<Rightarrow> str list" where
  "distinct_labels = distinct_loop []"

definition label_of :: "tracked_file \<Rightarrow> bytes \<Rightarrow> str result" where
  "label_of f i =
     and_then (ok_or InvalidTrackedFile (get (tf_revisions f) i)) (\<lambda>stored.
     Ok (r_author_hcp_label (s_revision stored)))"

text \<open>The trusted revisions with their authors, in stored order.\<close>

definition trusted_owners :: "prims \<Rightarrow> trust_context \<Rightarrow> file_policy \<Rightarrow> tracked_file \<Rightarrow> (bytes \<times> str) list" where
  "trusted_owners P ctx policy f =
     filter (\<lambda>(i, _). is_trusted P ctx policy f i)
       (map (\<lambda>stored. (rev_id stored, r_author_hcp_label (s_revision stored))) (tf_revisions f))"

definition eligible :: "file_policy \<Rightarrow> str list \<Rightarrow> str \<Rightarrow> bool" where
  "eligible policy conflicting label \<longleftrightarrow> may_author policy label \<and> label \<notin> set conflicting"

text \<open>Rule 3: keep the tied owners of the one sector with the most owners, if there is one.\<close>

definition dominant :: "str list \<Rightarrow> str list \<Rightarrow> str list option" where
  "dominant history tied =
     (let count = (\<lambda>s. length (filter (\<lambda>l. sector l = s) history));
          sectors = distinct_labels (map sector tied);
          top = (if sectors = [] then 0 else Max (set (map count sectors))) in
      case filter (\<lambda>s. count s = top) sectors of
        [leader] \<Rightarrow> Some (filter (\<lambda>l. sector l = leader) tied)
      | _ \<Rightarrow> None)"

text \<open>Rule 4: \<open>try_fold\<close> with the lowest common ancestor.\<close>

fun fold_lca :: "str option \<Rightarrow> str list \<Rightarrow> str option option" where
  "fold_lca acc [] = Some acc"
| "fold_lca None (label # labels) = fold_lca (Some label) labels"
| "fold_lca (Some cur) (label # labels) =
     (case lowest_common_ancestor cur label of
        None \<Rightarrow> None
      | Some l \<Rightarrow> fold_lca (Some l) labels)"

definition escalate :: "file_policy \<Rightarrow> str list \<Rightarrow> str list \<Rightarrow> resolver_selection" where
  "escalate policy conflicting tied =
     (case fold_lca None tied of
        Some (Some label) \<Rightarrow>
          if eligible policy conflicting label then Assigned label LowestCommonSeniorAncestor tied else Unresolved
      | _ \<Rightarrow> Unresolved)"

text \<open>Rules 2 to 4, on the owners in the history.\<close>

definition select_senior :: "file_policy \<Rightarrow> str list \<Rightarrow> str list \<Rightarrow> resolver_selection" where
  "select_senior policy conflicting history =
     (let candidates = filter (eligible policy conflicting) history in
      if candidates = [] then Unresolved
      else
        let shallowest = Min (set (map depth candidates));
            tied = filter (\<lambda>l. depth l = shallowest) candidates in
        case tied of
          [only] \<Rightarrow> Assigned only MostSeniorHistoricalOwner []
        | _ \<Rightarrow>
            (case dominant history tied of
               Some [only] \<Rightarrow> Assigned only DominantSector []
             | Some tied' \<Rightarrow> escalate policy conflicting tied'
             | None \<Rightarrow> escalate policy conflicting tied))"

definition select_resolver ::
    "prims \<Rightarrow> trust_context \<Rightarrow> file_policy \<Rightarrow> bytes \<Rightarrow> bytes \<Rightarrow> tracked_file \<Rightarrow> resolver_selection result" where
  "select_resolver P ctx policy left right f =
     and_then (label_of f left) (\<lambda>left_label.
     and_then (label_of f right) (\<lambda>right_label.
     let g = tf_revisions f;
         conflicting = distinct_labels [left_label, right_label];
         trusted = trusted_owners P (without_bridges ctx) policy f;
         of_left = ancestor_set g left;
         of_right = ancestor_set g right in
     case List.find (\<lambda>(i, label). i \<in> of_left \<and> i \<in> of_right \<and> eligible policy conflicting label) (rev trusted) of
       Some (_, label) \<Rightarrow> Ok (Assigned label PriorNeutralOwner [])
     | None \<Rightarrow> Ok (select_senior policy conflicting (distinct_labels (map snd trusted @ conflicting)))))"

section \<open>Recording a divergence\<close>

record divergence =
  dv_auto :: auto_merge_plan
  dv_selection :: "resolver_selection option"

definition needs_person :: "auto_merge_outcome \<Rightarrow> bool" where
  "needs_person outcome \<longleftrightarrow>
     outcome = RequiresHuman \<or> outcome = UnsupportedContent \<or> outcome = PolicyBlocked"

text \<open>Whether two of the tied branches are joined by an authorized non-private bridge.\<close>

fun bridged_pair :: "trust_context \<Rightarrow> str list \<Rightarrow> bool" where
  "bridged_pair ctx [] = False"
| "bridged_pair ctx (a # rest) =
     (list_ex (\<lambda>b. ctx_bridge_between ctx a b = NonPrivateAuthorized) rest \<or> bridged_pair ctx rest)"

definition record_selection ::
    "prims \<Rightarrow> trust_context \<Rightarrow> new_revision \<Rightarrow> resolver_selection \<Rightarrow> (tracked_file, unit) op" where
  "record_selection P ctx new selection =
     (case selection of
        Assigned to rule from_owners \<Rightarrow>
          if rule = LowestCommonSeniorAncestor
          then bind_op (if bridged_pair ctx from_owners
                 then bind_op (append_event P (event_by new BridgeUsed None Success
                        [(''operation'', ''CONFLICT_ESCALATION''), (''result'', ''REVIEW_PATH_ESTABLISHED'')])) (\<lambda>_. ret ())
                 else ret ()) (\<lambda>_.
               bind_op (append_event P (event_by new ConflictReviewEscalated None Success
                 [(''from'', join '','' from_owners), (''to'', to), (''selection_rule'', rule_name rule)])) (\<lambda>_. ret ()))
          else bind_op (append_event P (event_by new ConflictReviewAssigned None Success
                 [(''reviewer'', to), (''selection_rule'', rule_name rule)])) (\<lambda>_. ret ())
      | Unresolved \<Rightarrow>
          bind_op (append_event P (event_by new ConflictUnresolved None Event.Denied
            [(''reason'', ''NO_AUTHORIZED_RESOLVER'')])) (\<lambda>_. ret ()))"

definition resolve_divergence_steps ::
    "prims \<Rightarrow> trust_context \<Rightarrow> file_policy \<Rightarrow> bytes \<Rightarrow> bytes \<Rightarrow> bool \<Rightarrow> new_revision
      \<Rightarrow> (tracked_file, divergence) op" where
  "resolve_divergence_steps P ctx policy left right allowed new =
     bind_op (auto_merge P left right allowed new) (\<lambda>auto.
     if \<not> needs_person (am_outcome auto) then ret \<lparr>dv_auto = auto, dv_selection = None\<rparr>
     else bind_op (lift (\<lambda>f. compare_heads (tf_revisions f) left right)) (\<lambda>relation.
       if relation \<noteq> Diverged then ret \<lparr>dv_auto = auto, dv_selection = None\<rparr>
       else bind_op (lift (select_resolver P ctx policy left right)) (\<lambda>selection.
         let heads = [(''revision_a'', hex_encode P left), (''revision_b'', hex_encode P right)] in
         bind_op (append_event P (event_by new HistoryForkDetected None Info heads)) (\<lambda>_.
         bind_op (append_event P (event_by new ContentConflictDetected None Info
           (heads @ [(''reason'', am_reason auto)]))) (\<lambda>_.
         bind_op (record_selection P ctx new selection) (\<lambda>_.
         ret \<lparr>dv_auto = auto, dv_selection = Some selection\<rparr>))))))"

definition resolve_divergence ::
    "prims \<Rightarrow> trust_context \<Rightarrow> file_policy \<Rightarrow> bytes \<Rightarrow> bytes \<Rightarrow> bool \<Rightarrow> new_revision
      \<Rightarrow> (tracked_file, divergence) op" where
  "resolve_divergence P ctx policy left right allowed new =
     atomically (resolve_divergence_steps P ctx policy left right allowed new)"

section \<open>Settling a conflict\<close>

datatype resolution = KeepLeft | KeepRight | Edited bytes

fun resolution_name :: "resolution \<Rightarrow> str" where
  "resolution_name KeepLeft = ''KEEP_LEFT''"
| "resolution_name KeepRight = ''KEEP_RIGHT''"
| "resolution_name (Edited _) = ''EDITED''"

record open_conflict_state =
  oc_left :: bytes
  oc_right :: bytes
  oc_parents :: "bytes list"

definition is_rejected :: "tracked_file \<Rightarrow> bytes \<Rightarrow> bool" where
  "is_rejected f revision \<longleftrightarrow>
     list_ex (\<lambda>e. e_event_type e = MergeRejected \<and> e_revision_id e = Some revision) (tf_events f)"

definition open_conflict :: "prims \<Rightarrow> bool \<Rightarrow> tracked_file \<Rightarrow> open_conflict_state option result" where
  "open_conflict P allowed f =
     (let g = tf_revisions f in
      case heads g of
        [left, right] \<Rightarrow>
          and_then (compare_heads g left right) (\<lambda>relation.
          if relation \<noteq> Diverged then Ok None
          else and_then (plan_auto_merge P left right allowed f) (\<lambda>plan.
            Ok (if needs_person (am_outcome plan)
                then Some \<lparr>oc_left = left, oc_right = right, oc_parents = [left, right]\<rparr> else None)))
      | [head] \<Rightarrow>
          if \<not> is_rejected f head then Ok None
          else and_then (ok_or InvalidTrackedFile (get g head)) (\<lambda>stored.
            case rev_parents stored of
              [left, right] \<Rightarrow> Ok (Some \<lparr>oc_left = left, oc_right = right, oc_parents = [head]\<rparr>)
            | _ \<Rightarrow> Ok None)
      | _ \<Rightarrow> Ok None)"

definition authored :: "tracked_file \<Rightarrow> bytes \<Rightarrow> str \<Rightarrow> bool result" where
  "authored f i label = and_then (label_of f i) (\<lambda>author. Ok (author = label))"

definition may_decide ::
    "prims \<Rightarrow> trust_context \<Rightarrow> file_policy \<Rightarrow> bytes \<Rightarrow> bytes \<Rightarrow> str \<Rightarrow> tracked_file \<Rightarrow> bool result" where
  "may_decide P ctx policy left right label f =
     and_then (label_of f left) (\<lambda>author.
     if author = label then Ok False
     else and_then (label_of f right) (\<lambda>author.
     if author = label then Ok False
     else and_then (select_resolver P ctx policy left right f) (\<lambda>selection.
       Ok (case selection of
             Assigned to _ _ \<Rightarrow> is_ancestor_or_self label to
           | Unresolved \<Rightarrow> is_ancestor_or_self label (fp_scope_root policy)))))"

definition resolved_content :: "resolution \<Rightarrow> open_conflict_state \<Rightarrow> tracked_file \<Rightarrow> bytes result" where
  "resolved_content resolution conflict f =
     (let content_of = (\<lambda>i. ok_or FileExpired (case get (tf_revisions f) i of None \<Rightarrow> None | Some stored \<Rightarrow> s_payload stored)) in
      case resolution of
        KeepLeft \<Rightarrow> content_of (oc_left conflict)
      | KeepRight \<Rightarrow> content_of (oc_right conflict)
      | Edited bs \<Rightarrow> Ok bs)"

definition resolve_conflict_steps ::
    "prims \<Rightarrow> trust_context \<Rightarrow> file_policy \<Rightarrow> resolution \<Rightarrow> new_revision \<Rightarrow> (tracked_file, bytes) op" where
  "resolve_conflict_steps P ctx policy resolution new =
     bind_op (lift (open_conflict P (fp_auto_merge policy))) (\<lambda>open.
     case open of
       None \<Rightarrow> fail InvalidTrackedFile
     | Some conflict \<Rightarrow>
         bind_op (lift (may_decide P ctx policy (oc_left conflict) (oc_right conflict) (nr_author_hcp_label new))) (\<lambda>allowed.
         if \<not> allowed then fail InvalidTrackedFile
         else bind_op (lift (resolved_content resolution conflict)) (\<lambda>bs.
           bind_op (check_in P (new\<lparr>nr_parent_revision_ids := oc_parents conflict\<rparr>) bs) (\<lambda>i.
           bind_op (append_event P (event_by new ConflictResolved (Some i) Success
             [(''revision_a'', hex_encode P (oc_left conflict)), (''revision_b'', hex_encode P (oc_right conflict)),
              (''resolution'', resolution_name resolution), (''reviewer'', nr_author_hcp_label new),
              (''trust_state'', ''PENDING'')])) (\<lambda>_.
           ret i)))))"

definition resolve_conflict ::
    "prims \<Rightarrow> trust_context \<Rightarrow> file_policy \<Rightarrow> resolution \<Rightarrow> new_revision \<Rightarrow> (tracked_file, bytes) op" where
  "resolve_conflict P ctx policy resolution new = atomically (resolve_conflict_steps P ctx policy resolution new)"

text \<open>Whether \<open>label\<close> may reject a merge of \<open>left\<close> and \<open>right\<close>.\<close>

definition may_reject ::
    "prims \<Rightarrow> trust_context \<Rightarrow> file_policy \<Rightarrow> bytes \<Rightarrow> bytes \<Rightarrow> str \<Rightarrow> tracked_file \<Rightarrow> bool result" where
  "may_reject P ctx policy left right label f =
     and_then (if is_ancestor_or_self label (fp_scope_root policy)
               then and_then (authored f left label) (\<lambda>a.
                    if a then Ok False else and_then (authored f right label) (\<lambda>b. Ok (\<not> b)))
               else Ok False) (\<lambda>owner.
     if owner then Ok True else may_decide P ctx policy left right label f)"

definition reject_merge ::
    "prims \<Rightarrow> trust_context \<Rightarrow> file_policy \<Rightarrow> bytes \<Rightarrow> new_event \<Rightarrow> (tracked_file, unit) op" where
  "reject_merge P ctx policy merge actor f =
     (case get (tf_revisions f) merge of
        None \<Rightarrow> (Err InvalidTrackedFile, f)
      | Some stored \<Rightarrow>
          (case rev_parents stored of
             [left, right] \<Rightarrow>
               if heads (tf_revisions f) \<noteq> [merge] \<or> is_rejected f merge then (Err InvalidTrackedFile, f)
               else
                 (case evaluate_revision_trust P ctx policy f merge of
                    Inl e \<Rightarrow> (Err e, f)
                  | Inr state \<Rightarrow>
                      if state = Trusted then (Err InvalidTrackedFile, f)
                      else
                        (case n_actor_label actor of
                           None \<Rightarrow> (Err InvalidTrackedFile, f)
                         | Some label \<Rightarrow>
                             (case may_reject P ctx policy left right label f of
                                Inl e \<Rightarrow> (Err e, f)
                              | Inr permitted \<Rightarrow>
                                  if \<not> permitted then (Err InvalidTrackedFile, f)
                                  else bind_op (append_event P (actor\<lparr>n_revision_id := Some merge,
                                         n_event_type := MergeRejected, n_outcome := Event.Denied,
                                         n_details := [(''revision_a'', hex_encode P left),
                                                       (''revision_b'', hex_encode P right), (''reviewer'', label)]\<rparr>))
                                       (\<lambda>_. ret ()) f)))
           | _ \<Rightarrow> (Err InvalidTrackedFile, f)))"

end
