(* ===== verification/ResolveFacts.thy ===== *)
theory ResolveFacts
  imports Resolve MergeFacts
begin

text \<open>
  Who may settle a conflict, and what settling it does: the reviewer is never one of the
  conflicting authors, the choice does not depend on bridge evidence, and a resolution leaves a
  single untrusted head. Recording a divergence, resolving and rejecting keep a file sound.
\<close>

section \<open>Choosing a reviewer\<close>

lemma set_distinct_labels [simp]: "set (distinct_labels labels) = set labels"
proof -
  have "set (distinct_loop out labels) = set out \<union> set labels" for out
    by (induction labels arbitrary: out) auto
  then show ?thesis by (simp add: distinct_labels_def)
qed

lemma label_of_Ok_iff:
  "label_of f i = Ok l \<longleftrightarrow> (\<exists>s. get (tf_revisions f) i = Some s \<and> r_author_hcp_label (s_revision s) = l)"
  by (auto simp: label_of_def split: option.splits)

lemma trusted_owners_iff:
  assumes "dag_ok (tf_revisions f)"
  shows "(i, l) \<in> set (trusted_owners P ctx policy f) \<longleftrightarrow> is_trusted P ctx policy f i \<and> label_of f i = Ok l"
proof -
  have "(\<exists>s \<in> set (tf_revisions f). rev_id s = i \<and> r_author_hcp_label (s_revision s) = l) \<longleftrightarrow> label_of f i = Ok l"
    using get_Some_iff [OF dag_ok_distinct [OF assms]] by (auto simp: label_of_Ok_iff)
  then show ?thesis by (auto simp: trusted_owners_def)
qed

lemma may_author_well_formed: "may_author policy l \<Longrightarrow> is_well_formed l"
  by (auto simp: may_author_def requirement_for_def relationship_def split: if_splits option.splits)

text \<open>The meet of the tied owners covers each of them.\<close>

lemma lca_covers:
  assumes "is_well_formed a" "is_well_formed b" "lowest_common_ancestor a b = Some c"
  shows "is_ancestor_or_self c a \<and> is_ancestor_or_self c b"
proof -
  let ?c = "longest_common_prefix (path a) (path b)"
  from assms have c: "?c \<noteq> []" "c = join ''.'' ?c" by (auto simp: lca_path Let_def split: if_splits)
  then have "path c = ?c" using path_join_sub [OF c(1) set_longest_common_prefix] by simp
  then show ?thesis
    using assms(1,2) set_longest_common_prefix [of "path a" "path b"]
    by (auto simp: ancestor_or_self_path is_well_formed_path longest_common_prefix_prefix1 longest_common_prefix_prefix2)
qed

lemma fold_lca_covers:
  assumes "fold_lca acc ls = Some (Some c)" "\<forall>l \<in> set ls. is_well_formed l"
    "\<And>a. acc = Some a \<Longrightarrow> is_well_formed a"
  shows "(\<forall>l \<in> set ls. is_ancestor_or_self c l) \<and> (\<forall>a. acc = Some a \<longrightarrow> is_ancestor_or_self c a)"
  using assms
proof (induction acc ls rule: fold_lca.induct)
  case (3 cur label labels)
  then obtain l where l: "lowest_common_ancestor cur label = Some l" "fold_lca (Some l) labels = Some (Some c)"
    by (auto split: option.splits)
  have meet: "is_ancestor_or_self l cur \<and> is_ancestor_or_self l label"
    using lca_covers [OF _ _ l(1)] 3(3,4) by simp
  then have "is_well_formed l" by (simp add: ancestor_or_self_path)
  with 3 l have "\<forall>l \<in> set labels. is_ancestor_or_self c l" "is_ancestor_or_self c l" by auto
  with meet show ?case by (auto intro: labels.covers_trans)
qed (auto simp: ancestor_or_self_path)


lemma escalate_sound:
  assumes "escalate policy conflicting tied = Assigned r rule from_owners" "\<forall>l \<in> set tied. is_well_formed l" "tied \<noteq> []"
  shows "eligible policy conflicting r \<and> rule = LowestCommonSeniorAncestor \<and> from_owners = tied
    \<and> (\<forall>l \<in> set tied. is_ancestor_or_self r l)"
  using assms fold_lca_covers [of None tied r]
  by (auto simp: escalate_def split: option.splits if_splits)

lemma dominant_subset: "dominant history tied = Some tied' \<Longrightarrow> set tied' \<subseteq> set tied \<and> tied' \<noteq> []"
proof -
  assume a: "dominant history tied = Some tied'"
  then obtain leader p where leader: "filter p (distinct_labels (map sector tied)) = [leader]"
    "tied' = filter (\<lambda>l. sector l = leader) tied"
    by (auto simp: dominant_def Let_def split: list.splits)
  then have "leader \<in> set (filter p (distinct_labels (map sector tied)))" by simp
  then have "leader \<in> sector ` set tied" by auto
  with leader(2) show ?thesis by (auto simp: filter_empty_conv)
qed

lemma select_senior_sound:
  assumes "select_senior policy conflicting history = Assigned r rule tied"
  shows "eligible policy conflicting r \<and> rule \<noteq> PriorNeutralOwner
    \<and> (if rule = LowestCommonSeniorAncestor
       then tied \<noteq> [] \<and> (\<forall>l \<in> set tied. l \<in> set history \<and> eligible policy conflicting l \<and> is_ancestor_or_self r l)
       else r \<in> set history \<and> (\<forall>l \<in> set history. eligible policy conflicting l \<longrightarrow> depth r \<le> depth l))"
proof -
  let ?cand = "filter (eligible policy conflicting) history"
  let ?tied = "filter (\<lambda>l. depth l = Min (set (map depth ?cand))) ?cand"
  from assms have cand: "?cand \<noteq> []" by (auto simp: select_senior_def)
  have "Min (set (map depth ?cand)) \<in> set (map depth ?cand)" using cand by (intro Min_in) (auto simp: filter_empty_conv)
  then have ne: "?tied \<noteq> []" by (auto simp: filter_empty_conv)
  have senior: "l \<in> set history \<and> eligible policy conflicting l
      \<and> (\<forall>l' \<in> set history. eligible policy conflicting l' \<longrightarrow> depth l \<le> depth l')" if "l \<in> set ?tied" for l
    using that by auto
  have wf: "\<forall>l \<in> set ?tied. is_well_formed l" by (auto simp: eligible_def dest: may_author_well_formed)
  from assms cand consider "?tied = [r]" "rule = MostSeniorHistoricalOwner"
    | "dominant history ?tied = Some [r]" "rule = DominantSector"
    | tied' where "dominant history ?tied = Some tied'" "escalate policy conflicting tied' = Assigned r rule tied"
    | "escalate policy conflicting ?tied = Assigned r rule tied"
    unfolding select_senior_def Let_def by (auto split: list.splits option.splits if_splits)
  then show ?thesis
  proof cases
    case 1
    then have "r \<in> set ?tied" by simp
    from senior [OF this] 1 show ?thesis by simp
  next
    case 2
    with dominant_subset [OF 2(1)] have "r \<in> set ?tied" by auto
    from senior [OF this] 2 show ?thesis by simp
  next
    case 3
    with escalate_sound [OF 3(2)] dominant_subset [OF 3(1)] wf show ?thesis by (auto dest: senior)
  next
    case 4
    with escalate_sound [OF 4 wf ne] ne show ?thesis by (auto dest: senior)
  qed
qed


text \<open>The authors of the revisions that signatures alone make trusted, and a revision both heads build on.\<close>

definition owner :: "prims \<Rightarrow> trust_context \<Rightarrow> file_policy \<Rightarrow> tracked_file \<Rightarrow> bytes \<Rightarrow> str \<Rightarrow> bool" where
  "owner P ctx policy f i l \<longleftrightarrow> is_trusted P (without_bridges ctx) policy f i \<and> label_of f i = Ok l"

definition shared :: "tracked_file \<Rightarrow> bytes \<Rightarrow> bytes \<Rightarrow> bytes \<Rightarrow> bool" where
  "shared f left right i \<longleftrightarrow>
     graph_ancestor_or_self (tf_revisions f) i left \<and> graph_ancestor_or_self (tf_revisions f) i right"

lemma select_resolver_Ok:
  assumes "dag_ok (tf_revisions f)" "select_resolver P ctx policy left right f = Ok selection"
  obtains a b where "label_of f left = Ok a" and "label_of f right = Ok b"
    and "(\<exists>i l. owner P ctx policy f i l \<and> shared f left right i \<and> eligible policy [a, b] l
              \<and> selection = Assigned l PriorNeutralOwner [])
       \<or> (\<forall>i l. owner P ctx policy f i l \<and> shared f left right i \<longrightarrow> \<not> eligible policy [a, b] l)
          \<and> (\<exists>history. set history = {l. \<exists>i. owner P ctx policy f i l} \<union> {a, b}
                \<and> select_senior policy (distinct_labels [a, b]) history = selection)"
proof -
  from assms(2) obtain a b where ab: "label_of f left = Ok a" "label_of f right = Ok b"
    by (auto simp: select_resolver_def)
  let ?t = "trusted_owners P (without_bridges ctx) policy f"
  let ?q = "\<lambda>(i, label). i \<in> ancestor_set (tf_revisions f) left \<and> i \<in> ancestor_set (tf_revisions f) right
      \<and> eligible policy (distinct_labels [a, b]) label"
  have mem: "(i, l) \<in> set ?t \<longleftrightarrow> owner P ctx policy f i l" for i l
    by (simp add: trusted_owners_iff [OF assms(1)] owner_def)
  have q: "?q (i, l) \<longleftrightarrow> shared f left right i \<and> eligible policy [a, b] l" for i l
    by (simp add: ancestor_set_iff [OF assms(1)] shared_def eligible_def)
  show thesis
  proof (cases "List.find ?q (rev ?t)")
    case None
    then have "\<forall>p \<in> set ?t. \<not> ?q p" by (simp add: find_None_iff_ball)
    then have "\<forall>i l. owner P ctx policy f i l \<and> shared f left right i \<longrightarrow> \<not> eligible policy [a, b] l"
      using mem q by blast
    moreover have "set (distinct_labels (map snd ?t @ distinct_labels [a, b])) = {l. \<exists>i. owner P ctx policy f i l} \<union> {a, b}"
      using mem by force
    moreover have "select_senior policy (distinct_labels [a, b]) (distinct_labels (map snd ?t @ distinct_labels [a, b])) = selection"
      using assms(2) None ab by (simp add: select_resolver_def Let_def)
    ultimately show thesis using that [OF ab] by blast
  next
    case (Some p)
    obtain i l where p: "p = (i, l)" by (cases p)
    from find_SomeD [OF Some] have "p \<in> set ?t" "?q p" by auto
    then have "owner P ctx policy f i l" "shared f left right i" "eligible policy [a, b] l"
      unfolding p using mem q by blast+
    moreover have "selection = Assigned l PriorNeutralOwner []"
      using assms(2) Some ab by (simp add: select_resolver_def Let_def p)
    ultimately show thesis using that [OF ab] by blast
  qed
qed



section \<open>Recording a divergence is atomic and sound\<close>

lemma str_ok_join: "\<forall>l \<in> set ls. str_ok l \<Longrightarrow> str_ok sep \<Longrightarrow> str_ok (join sep ls)"
  by (induction sep ls rule: join.induct) (auto intro!: str_ok_append)

lemma str_ok_ancestor: "is_ancestor_or_self a l \<Longrightarrow> str_ok l \<Longrightarrow> str_ok a"
proof -
  assume a: "is_ancestor_or_self a l" "str_ok l"
  show "str_ok a"
  proof (cases "a = l")
    case False
    with a(1) obtain r where "strip_prefix a l = Some r" "take 1 r = ''.''"
      by (auto simp: is_ancestor_or_self_def split: if_splits option.splits)
    then have "take (length a) l = a" "drop (length a) l = CHR ''.'' # tl r"
      by (cases r; auto simp: strip_prefix_def split: if_splits)+
    then have "l = a @ CHR ''.'' # tl r" by (metis append_take_drop_id)
    moreover have "\<not> cont_char CHR ''.''" by (simp add: cont_char_def is_cont_def)
    ultimately show ?thesis using a(2) str_ok_before by metis
  qed (use a in simp)
qed

lemma label_of_str_ok: "sound_file P f \<Longrightarrow> label_of f i = Ok l \<Longrightarrow> str_ok l"
  by (auto simp: sound_file_def file_ok_def stored_ok_def revision_ok_def list_all_iff label_of_Ok_iff dest: get_SomeD)

definition selection_ok :: "resolver_selection \<Rightarrow> bool" where
  "selection_ok selection \<longleftrightarrow>
     (case selection of Assigned r rule tied \<Rightarrow> str_ok r \<and> (\<forall>l \<in> set tied. str_ok l) | Unresolved \<Rightarrow> True)"

lemma select_resolver_ok:
  assumes "sound_file P f" "select_resolver P ctx policy left right f = Ok selection"
  shows "selection_ok selection"
proof (cases selection)
  case (Assigned r rule tied)
  have owner: "str_ok l" if "owner P ctx policy f i l" for i l
    using that label_of_str_ok [OF assms(1)] by (auto simp: owner_def)
  from sound_dag [OF assms(1)] assms(2) show ?thesis
  proof (rule select_resolver_Ok, elim disjE exE conjE)
    fix a b history
    assume ab: "label_of f left = Ok a" "label_of f right = Ok b"
      and h: "set history = {l. \<exists>i. owner P ctx policy f i l} \<union> {a, b}"
      and s: "select_senior policy (distinct_labels [a, b]) history = selection"
    have ok: "str_ok l" if "l \<in> set history" for l
      using that h owner label_of_str_ok [OF assms(1)] ab by auto
    have "str_ok r"
    proof (cases "rule = LowestCommonSeniorAncestor")
      case True
      with select_senior_sound [of policy "distinct_labels [a, b]" history r rule tied] s Assigned
      obtain l where "l \<in> set history" "is_ancestor_or_self r l" by (auto simp: neq_Nil_conv)
      with ok str_ok_ancestor show ?thesis by blast
    next
      case False
      with select_senior_sound [of policy "distinct_labels [a, b]" history r rule tied] s Assigned ok show ?thesis by auto
    qed
    moreover have "\<forall>l \<in> set tied. str_ok l"
    proof (cases "rule = LowestCommonSeniorAncestor")
      case True
      with select_senior_sound [of policy "distinct_labels [a, b]" history r rule tied] s Assigned ok show ?thesis by auto
    next
      case False
      with s Assigned have "tied = []"
        by (auto simp: select_senior_def escalate_def Let_def split: if_splits list.splits option.splits)
      then show ?thesis by simp
    qed
    ultimately show ?thesis by (simp add: selection_ok_def Assigned)
  qed (auto simp: selection_ok_def dest: owner)
qed (simp add: selection_ok_def)

lemma keeps_event_by:
  assumes "prims_ok P" "new_revision_ok new" "k \<noteq> ContentDestroyed" "opt_sized 32 i"
    "list_all (\<lambda>(k, v). str_ok k \<and> str_ok v) details"
  shows "keeps_sound P (append_event P (event_by new k i outcome details)) (\<lambda>_. True)"
  by (rule keeps_weaken [OF keeps_append_event [OF assms(1) event_by_ok [OF assms(2,4,5)]]]) (simp_all add: assms(3))

text \<open>The rules for steps whose results carry no obligation.\<close>

lemma keeps_if:
  "(b \<Longrightarrow> keeps_sound P m Q) \<Longrightarrow> (\<not> b \<Longrightarrow> keeps_sound P m' Q) \<Longrightarrow> keeps_sound P (if b then m else m') Q"
  by simp

lemmas keeps_steps = keeps_ret keeps_if keeps_event_by keeps_bind [of _ _ "\<lambda>_. True"]

lemma growing_record_selection [growing]: "growing_steps (record_selection P ctx new selection)"
  unfolding record_selection_def by (cases selection) (auto intro!: growing)

lemma keeps_record_selection:
  assumes "prims_ok P" "new_revision_ok new" "selection_ok selection"
  shows "keeps_sound P (record_selection P ctx new selection) (\<lambda>_. True)"
proof (cases selection)
  case (Assigned r rule tied)
  have "str_ok (rule_name rule)" by (cases rule) (simp_all add: str_ok_ascii)
  moreover have "str_ok (join '','' tied)" using assms(3) Assigned by (intro str_ok_join) (auto simp: selection_ok_def str_ok_ascii)
  moreover have "str_ok r" using assms(3) Assigned by (simp add: selection_ok_def)
  ultimately show ?thesis
    unfolding record_selection_def Assigned using assms(1,2)
    by (auto intro!: keeps_steps simp: opt_sized_def str_ok_ascii)
qed (use assms in \<open>auto simp: record_selection_def opt_sized_def str_ok_ascii intro!: keeps_steps\<close>)

lemma keeps_recorded_conflict:
  assumes "prims_ok P" "new_revision_ok new" "plan_ok auto" "selection_ok selection"
  shows "keeps_sound P
     (bind_op (append_event P (event_by new HistoryForkDetected None Info
         [(''revision_a'', hex_encode P left), (''revision_b'', hex_encode P right)])) (\<lambda>_.
      bind_op (append_event P (event_by new ContentConflictDetected None Info
         ([(''revision_a'', hex_encode P left), (''revision_b'', hex_encode P right)]
          @ [(''reason'', am_reason auto)]))) (\<lambda>_.
      bind_op (record_selection P ctx new selection) (\<lambda>_.
      ret \<lparr>dv_auto = auto, dv_selection = Some selection\<rparr>)))) (\<lambda>_. True)"
  using assms hex_str_ok [OF assms(1)]
  by (auto intro!: keeps_steps keeps_record_selection simp: plan_ok_def opt_sized_def str_ok_ascii)

lemma keeps_auto_merge:
  assumes "prims_ok P" "new_revision_ok new" "length left = 32" "length right = 32"
  shows "keeps_sound P (auto_merge P left right allowed new) plan_ok"
  unfolding auto_merge_def
  by (rule keeps_atomically [OF merging.growing_steps_axioms keeps_auto_merge_steps [OF assms]])

lemma keeps_resolve_divergence_steps:
  assumes "prims_ok P" "new_revision_ok new" "length left = 32" "length right = 32"
  shows "keeps_sound P (resolve_divergence_steps P ctx policy left right allowed new) (\<lambda>_. True)"
  unfolding resolve_divergence_steps_def Let_def
  by (rule keeps_bind [OF keeps_auto_merge [OF assms]], rule keeps_if, rule keeps_ret, simp,
      rule keeps_bind [OF keeps_lift [of P _ "\<lambda>_. True"]], simp, rule keeps_if, rule keeps_ret, simp,
      rule keeps_bind [OF keeps_lift [of P _ selection_ok]], erule (1) select_resolver_ok)
     (rule keeps_recorded_conflict [OF assms(1,2)])

interpretation diverging: sound_steps "resolve_divergence_steps P ctx policy left right allowed new" P
    "prims_ok P \<and> new_revision_ok new \<and> length left = 32 \<and> length right = 32"
  for P ctx policy left right allowed new
proof (rule sound_stepsI [where Q = "\<lambda>_. True"])
  show "growing_steps (resolve_divergence_steps P ctx policy left right allowed new)"
    unfolding resolve_divergence_steps_def auto_merge_def Let_def by (auto intro!: growing merging.growing_steps_axioms)
qed (auto intro: keeps_resolve_divergence_steps)


section \<open>Settling a conflict\<close>

lemma may_decide_True:
  assumes "may_decide P ctx policy left right label f = Ok True"
  shows "label_of f left \<noteq> Ok label \<and> label_of f right \<noteq> Ok label"
  using assms by (auto simp: may_decide_def split: if_splits)

lemma heads_subset: "set (heads g) \<subseteq> ids g"
  by (auto simp: heads_def ids_def Let_def)

lemma id_sized: "sound_file P f \<Longrightarrow> i \<in> ids (tf_revisions f) \<Longrightarrow> length i = 32"
  by (auto simp: sound_file_def file_ok_def ids_def list_all_iff stored_ok_def revision_ok_def)

text \<open>A resolution builds on all the heads there are.\<close>

lemma open_conflict_parents:
  assumes "open_conflict P allowed f = Ok (Some c)"
  shows "oc_parents c = heads (tf_revisions f)"
  using assms by (auto simp: open_conflict_def Let_def split: list.splits if_splits option.splits)

lemma keeps_resolve_conflict_steps:
  assumes "prims_ok P" "new_revision_ok new"
  shows "keeps_sound P (resolve_conflict_steps P ctx policy resolution new) (\<lambda>_. True)"
proof -
  have settled: "keeps_sound P (bind_op (check_in P (new\<lparr>nr_parent_revision_ids := oc_parents c\<rparr>) bs) (\<lambda>i.
      bind_op (append_event P (event_by new ConflictResolved (Some i) Success
             [(''revision_a'', hex_encode P (oc_left c)), (''revision_b'', hex_encode P (oc_right c)),
              (''resolution'', resolution_name resolution), (''reviewer'', nr_author_hcp_label new),
              (''trust_state'', ''PENDING'')])) (\<lambda>_. ret i))) (\<lambda>_. True)"
    if c: "list_all (\<lambda>p. length p = 32) (oc_parents c)" for c bs
  proof (rule keeps_bind [OF keeps_check_in [OF assms(1)]])
    show "new_revision_ok (new\<lparr>nr_parent_revision_ids := oc_parents c\<rparr>)"
      using c assms(2) by (simp add: new_revision_ok_def)
    have "str_ok (resolution_name resolution)" by (cases resolution) (simp_all add: str_ok_ascii)
    then show "length i = 32 \<Longrightarrow> keeps_sound P (bind_op (append_event P (event_by new ConflictResolved (Some i) Success
             [(''revision_a'', hex_encode P (oc_left c)), (''revision_b'', hex_encode P (oc_right c)),
              (''resolution'', resolution_name resolution), (''reviewer'', nr_author_hcp_label new),
              (''trust_state'', ''PENDING'')])) (\<lambda>_. ret i)) (\<lambda>_. True)" for i
      using assms hex_str_ok [OF assms(1)]
      by (auto intro!: keeps_steps simp: opt_sized_def str_ok_ascii new_revision_ok_def)
  qed
  have "list_all (\<lambda>p. length p = 32) (oc_parents c)" if "sound_file P f" "open_conflict P allowed f = Ok (Some c)" for f allowed c
    using that heads_subset [of "tf_revisions f"] id_sized [OF that(1)] by (auto simp: open_conflict_parents list_all_iff)
  then show ?thesis
    unfolding resolve_conflict_steps_def
    by (intro keeps_bind [OF keeps_lift [of P _ "\<lambda>x. \<forall>c. x = Some c \<longrightarrow> list_all (\<lambda>p. length p = 32) (oc_parents c)"]])
       (auto split: option.split intro!: keeps_fail keeps_if keeps_bind [OF keeps_lift [of P _ "\<lambda>_. True"]] settled)
qed

interpretation resolving: sound_steps "resolve_conflict_steps P ctx policy resolution new" P
    "prims_ok P \<and> new_revision_ok new"
  for P ctx policy resolution new
proof (rule sound_stepsI [where Q = "\<lambda>_. True"])
  show "growing_steps (resolve_conflict_steps P ctx policy resolution new)"
    unfolding resolve_conflict_steps_def by (auto intro!: growing)
qed (auto intro: keeps_resolve_conflict_steps)

text \<open>
  C18. Resolving a conflict is all or nothing. When it succeeds there was an open conflict, whoever
  decided it wrote neither side and was allowed to decide, and the file has exactly one head: the
  new revision, whose parents are all the heads there were, whose content is the chosen side's or
  the reviewer's own, and which no store trusts yet.
\<close>

theorem resolve_conflict_settles:
  assumes "sound_file P f" "resolve_conflict P ctx policy resolution new f = (r, f')"
  shows "case r of
      Inl e \<Rightarrow> f' = f
    | Inr i \<Rightarrow> current_revision f' = Some i \<and> (\<forall>ctx policy. \<not> is_trusted P ctx policy f' i)
        \<and> (\<exists>s c bs. tf_revisions f' = tf_revisions f @ [s] \<and> rev_id s = i
             \<and> open_conflict P (fp_auto_merge policy) f = Ok (Some c)
             \<and> rev_parents s = heads (tf_revisions f) \<and> s_payload s = Some bs \<and> resolved_content resolution c f = Ok bs
             \<and> r_author_hcp_label (s_revision s) = nr_author_hcp_label new
             \<and> may_decide P ctx policy (oc_left c) (oc_right c) (nr_author_hcp_label new) f = Ok True
             \<and> label_of f (oc_left c) \<noteq> Ok (nr_author_hcp_label new) \<and> label_of f (oc_right c) \<noteq> Ok (nr_author_hcp_label new))"
proof (cases r)
  case (Inl e)
  with assms(2) resolving.undone show ?thesis by (auto simp: resolve_conflict_def)
next
  case (Inr i)
  with assms(2) have "resolve_conflict_steps P ctx policy resolution new f = (Inr i, f')"
    by (simp add: resolve_conflict_def resolving.done_iff)
  then obtain c bs f1 n e where c: "open_conflict P (fp_auto_merge policy) f = Ok (Some c)"
    and d: "may_decide P ctx policy (oc_left c) (oc_right c) (nr_author_hcp_label new) f = Ok True"
    and bs: "resolved_content resolution c f = Ok bs"
    and i: "check_in P (new\<lparr>nr_parent_revision_ids := oc_parents c\<rparr>) bs f = (Inr i, f1)"
    and e: "append_event P n f1 = (Inr e, f')"
    by (auto simp: resolve_conflict_steps_def bind_op_Ok_iff split: option.splits if_splits sum.splits)
  note f' = append_event_revisions [OF e]
  from assms(1) i show ?thesis
  proof (rule check_in_heads)
    fix s
    assume s: "tf_revisions f1 = tf_revisions f @ [s]" "rev_id s = i" 
      "rev_parents s = nr_parent_revision_ids (new\<lparr>nr_parent_revision_ids := oc_parents c\<rparr>)"
      "s_payload s = Some bs" "r_author_hcp_label (s_revision s) = nr_author_hcp_label (new\<lparr>nr_parent_revision_ids := oc_parents c\<rparr>)"
      "heads (tf_revisions f1) = filter (\<lambda>h. h \<notin> set (nr_parent_revision_ids (new\<lparr>nr_parent_revision_ids := oc_parents c\<rparr>))) (heads (tf_revisions f)) @ [i]"
      "tf_proofs f1 = tf_proofs f"
      and untrusted: "\<And>g ctx policy. tf_proofs g = tf_proofs f \<Longrightarrow> \<not> is_trusted P ctx policy g i"
    have "heads (tf_revisions f') = [i]" using f' s open_conflict_parents [OF c] by simp
    then show ?thesis
      using c d bs s f' untrusted may_decide_True [OF d] open_conflict_parents [OF c] Inr
      by (auto simp: current_revision_def)
  qed
qed


text \<open>A conflict that is left for a person changes no revision and no proof: both heads stay.\<close>

lemma record_selection_revisions:
  "record_selection P ctx new selection f = (Inr u, f') \<Longrightarrow> tf_revisions f' = tf_revisions f \<and> tf_proofs f' = tf_proofs f"
  by (auto simp: record_selection_def bind_op_Ok_iff split: resolver_selection.splits if_splits dest!: append_event_revisions)

lemma auto_merge_stopped:
  assumes "auto_merge P left right allowed new f = (Inr result, f')" "needs_person (am_outcome result)"
  shows "tf_revisions f' = tf_revisions f \<and> tf_proofs f' = tf_proofs f"
proof -
  from assms(1) have "auto_merge_steps P left right allowed new f = (Inr result, f')"
    by (simp add: auto_merge_def merging.done_iff)
  then show ?thesis
    by (rule auto_merge_steps_Ok)
       (use assms(2) in \<open>auto simp: check_in_merge_def needs_person_def bind_op_Ok_iff split: option.splits if_splits\<close>)
qed

lemma resolve_divergence_keeps_heads:
  assumes "resolve_divergence P ctx policy left right allowed new f = (Inr d, f')" "dv_selection d \<noteq> None"
  shows "tf_revisions f' = tf_revisions f \<and> tf_proofs f' = tf_proofs f"
proof -
  from assms(1) have "resolve_divergence_steps P ctx policy left right allowed new f = (Inr d, f')"
    by (simp add: resolve_divergence_def diverging.done_iff)
  then obtain auto f1 where "auto_merge P left right allowed new f = (Inr auto, f1)" "needs_person (am_outcome auto)"
    and "tf_revisions f' = tf_revisions f1 \<and> tf_proofs f' = tf_proofs f1"
    using assms(2)
    by (auto simp: resolve_divergence_steps_def bind_op_Ok_iff Let_def simp del: bind_op_lift split: if_splits
        dest!: append_event_revisions record_selection_revisions)
  with auto_merge_stopped show ?thesis by metis
qed

interpretation rejecting: sound_op P "prims_ok P \<and> new_event_ok actor \<and> length merge = 32"
    "reject_merge P ctx policy merge actor"
  for P ctx policy merge actor
proof
  fix f
  assume pre: "prims_ok P \<and> new_event_ok actor \<and> length merge = 32" and f: "sound_file P f"
  show "sound_file P (snd (reject_merge P ctx policy merge actor f))"
  proof (cases "reject_merge P ctx policy merge actor f")
    case (Pair r f')
    show ?thesis
    proof (cases r)
      case (Inl e)
      with Pair have "f' = f"
        by (auto simp: reject_merge_def bind_op_def dest: append_event_Err
            split: option.splits list.splits if_splits sum.splits prod.splits)
      with Pair f show ?thesis by simp
    next
      case (Inr u)
      with Pair obtain left right label e where label: "n_actor_label actor = Some label"
        and e: "append_event P (actor\<lparr>n_revision_id := Some merge, n_event_type := MergeRejected,
            n_outcome := Event.Denied, n_details := [(''revision_a'', hex_encode P left),
            (''revision_b'', hex_encode P right), (''reviewer'', label)]\<rparr>) f = (Inr e, f')"
        by (auto simp: reject_merge_def bind_op_Ok_iff split: option.splits list.splits if_splits sum.splits)
      have "keeps_sound P (append_event P (actor\<lparr>n_revision_id := Some merge, n_event_type := MergeRejected,
            n_outcome := Event.Denied, n_details := [(''revision_a'', hex_encode P left),
            (''revision_b'', hex_encode P right), (''reviewer'', label)]\<rparr>)) event_ok"
        using pre label hex_str_ok
        by (intro keeps_append_event) (auto simp: new_event_ok_def opt_sized_def opt_str_ok_def str_ok_ascii)
      with e f Pair show ?thesis by (auto simp: keeps_sound_def)
    qed
  qed
qed

end
