(* ===== verification/Sync.thy ===== *)
theory Sync
  imports Atomic
begin

text \<open>
  Exchanging copies of a tracked file, \<open>src/file_history/sync.rs\<close>: cutting out the copy that a
  sender delivers, and importing another copy's revisions and proofs.
\<close>

section \<open>Extracting a revision\<close>

text \<open>Whether an event may travel with the kept revisions.\<close>

definition travels :: "bytes set \<Rightarrow> history_event \<Rightarrow> bool" where
  "travels kept e =
     (case e_revision_id e of Some i \<Rightarrow> i \<in> kept | None \<Rightarrow> e_event_type e = FileRenamed)"

definition prune :: "bytes set \<Rightarrow> tracked_file \<Rightarrow> tracked_file" where
  "prune kept f =
     (let events = takeWhile (travels kept) (tf_events f) in
      f\<lparr>tf_revisions := filter (\<lambda>stored. rev_id stored \<in> kept) (tf_revisions f),
        tf_proofs := filter (\<lambda>p. p_revision_id p \<in> kept) (tf_proofs f),
        tf_events := events,
        tf_event_proofs := filter (\<lambda>p. unat (ep_sequence p) < length events) (tf_event_proofs f)\<rparr>)"

definition extract_revision :: "prims \<Rightarrow> bytes \<Rightarrow> tracked_file \<Rightarrow> tracked_file result" where
  "extract_revision P revision_id f =
     (if is_destroyed f then Err FileExpired
      else and_then (verify_structure P f) (\<lambda>_.
      and_then (ok_or InvalidTrackedFile (get (tf_revisions f) revision_id)) (\<lambda>_.
      let pruned = prune (ancestor_set (tf_revisions f) revision_id) f in
      and_then (verify_structure P pruned) (\<lambda>_. Ok pruned))))"

section \<open>Importing a copy\<close>

datatype history_relation = Identical | LocalAhead | RemoteAhead | DivergedCopies

fun relation_name :: "history_relation \<Rightarrow> str" where
  "relation_name Identical = ''Identical''"
| "relation_name LocalAhead = ''LocalAhead''"
| "relation_name RemoteAhead = ''RemoteAhead''"
| "relation_name DivergedCopies = ''Diverged''"

record history_merge =
  hm_relation :: history_relation
  hm_revisions_added :: nat
  hm_proofs_added :: nat

record import_context =
  ic_actor_identity :: "bytes option"
  ic_actor_label :: str
  ic_occurred_at :: str
  ic_topology_generation :: u64

text \<open>The map from ids to revisions, collected in order: a later entry replaces an earlier one.\<close>

definition local_index :: "graph \<Rightarrow> bytes \<Rightarrow> stored_revision option" where
  "local_index g = map_of (rev (map (\<lambda>stored. (rev_id stored, stored)) g))"

definition compare_copies :: "graph \<Rightarrow> graph \<Rightarrow> history_relation" where
  "compare_copies mine other =
     (let other_new = length (filter (\<lambda>stored. local_index mine (rev_id stored) = None) other);
          local_new = length (filter (\<lambda>stored. rev_id stored \<notin> ids other) mine) in
      if local_new = 0 \<and> other_new = 0 then Identical
      else if other_new = 0 then LocalAhead
      else if local_new = 0 then RemoteAhead
      else DivergedCopies)"

fun incoming :: "(bytes \<Rightarrow> stored_revision option) \<Rightarrow> graph \<Rightarrow> graph result" where
  "incoming index [] = Ok []"
| "incoming index (stored # rest) =
     (case index (rev_id stored) of
        Some existing \<Rightarrow> if existing = stored then incoming index rest else Err InvalidTrackedFile
      | None \<Rightarrow> and_then (incoming index rest) (\<lambda>new. Ok (stored # new)))"

type_synonym held = "bytes \<times> u8 \<times> str \<Rightarrow> bytes list"

fun hold :: "held \<Rightarrow> revision_proof list \<Rightarrow> held" where
  "hold held [] = held"
| "hold held (p # ps) = hold (held(slot_key p := held (slot_key p) @ [p_signature p])) ps"

fun import_proofs :: "held \<Rightarrow> revision_proof list \<Rightarrow> revision_proof list" where
  "import_proofs held [] = []"
| "import_proofs held (p # ps) =
     (let signatures = held (slot_key p) in
      if p_signature p \<notin> set signatures \<and> length signatures < MAX_PROOFS_PER_SLOT
      then p # import_proofs (held(slot_key p := signatures @ [p_signature p])) ps
      else import_proofs held ps)"

text \<open>What an import adds, before it is verified and recorded.\<close>

definition take_in :: "tracked_file \<Rightarrow> (tracked_file, nat \<times> nat) op" where
  "take_in other f =
     (case incoming (local_index (tf_revisions f)) (tf_revisions other) of
        Inl e \<Rightarrow> (Err e, f)
      | Inr new \<Rightarrow>
          let proofs = import_proofs (hold (\<lambda>_. []) (tf_proofs f)) (tf_proofs other) in
          (Ok (length new, length proofs),
           f\<lparr>tf_revisions := tf_revisions f @ new, tf_proofs := tf_proofs f @ proofs\<rparr>))"

definition import_event ::
    "prims \<Rightarrow> tracked_file \<Rightarrow> import_context \<Rightarrow> history_relation \<Rightarrow> nat \<Rightarrow> nat \<Rightarrow> new_event" where
  "import_event P other context relation revisions_added proofs_added =
     \<lparr>n_revision_id = None, n_occurred_at = ic_occurred_at context,
      n_actor_identity = ic_actor_identity context, n_actor_label = Some (ic_actor_label context),
      n_topology_generation = Some (ic_topology_generation context), n_event_type = HistoryImported,
      n_outcome = Success,
      n_details = [(''from_history_root'', hex_encode P (history_root P other)),
                   (''relation'', relation_name relation),
                   (''revisions_added'', nat_str revisions_added), (''proofs_added'', nat_str proofs_added)]\<rparr>"

definition merge_history_steps ::
    "prims \<Rightarrow> tracked_file \<Rightarrow> import_context \<Rightarrow> (tracked_file, history_merge) op" where
  "merge_history_steps P other context =
     bind_op (lift (\<lambda>f. Ok (compare_copies (tf_revisions f) (tf_revisions other)))) (\<lambda>relation.
     bind_op (take_in other) (\<lambda>(revisions_added, proofs_added).
     bind_op (lift (verify_structure P)) (\<lambda>_.
     bind_op (if revisions_added > 0 \<or> proofs_added > 0
              then bind_op (append_event P (import_event P other context relation revisions_added proofs_added)) (\<lambda>_. ret ())
              else ret ()) (\<lambda>_.
     ret \<lparr>hm_relation = relation, hm_revisions_added = revisions_added, hm_proofs_added = proofs_added\<rparr>))))"

definition merge_history ::
    "prims \<Rightarrow> tracked_file \<Rightarrow> import_context \<Rightarrow> (tracked_file, history_merge) op" where
  "merge_history P other context f =
     (if tf_file_id f \<noteq> tf_file_id other \<or> tf_policy f \<noteq> tf_policy other then (Err InvalidTrackedFile, f)
      else if is_destroyed f \<or> is_destroyed other then (Err FileExpired, f)
      else case verify_structure P f of
        Inl e \<Rightarrow> (Err e, f)
      | Inr _ \<Rightarrow>
          (case verify_structure P other of
             Inl e \<Rightarrow> (Err e, f)
           | Inr _ \<Rightarrow> atomically (merge_history_steps P other context) f))"

end
