(* ===== verification/SyncFacts.thy ===== *)
theory SyncFacts
  imports Sync MergeFacts
begin

text \<open>
  What exchanging copies guarantees: an extracted copy holds a revision with its ancestors, their
  proofs and nothing newer, verifies, and is trusted exactly as the original; importing a copy is
  atomic, keeps everything held, adds exactly what was missing, and is idempotent.
\<close>

section \<open>Pruning\<close>

definition parent_closed :: "graph \<Rightarrow> bytes set \<Rightarrow> bool" where
  "parent_closed g kept \<longleftrightarrow> (\<forall>s \<in> set g. rev_id s \<in> kept \<longrightarrow> set (rev_parents s) \<subseteq> kept)"

abbreviation kept_of :: "bytes set \<Rightarrow> graph \<Rightarrow> graph" where
  "kept_of kept g \<equiv> filter (\<lambda>s. rev_id s \<in> kept) g"

lemma parents_first_kept:
  "parents_first seen g \<Longrightarrow> parent_closed g kept \<Longrightarrow> parents_first (filter (\<lambda>i. i \<in> kept) seen) (kept_of kept g)"
proof (induction g arbitrary: seen)
  case (Cons s g)
  then have "parents_first (filter (\<lambda>i. i \<in> kept) (rev_id s # seen)) (kept_of kept g)"
    by (intro Cons.IH) (auto simp: parent_closed_def)
  with Cons.prems show ?case by (auto simp: parent_closed_def list_all_iff split: if_splits)
qed simp

lemma dag_ok_kept: "dag_ok g \<Longrightarrow> parent_closed g kept \<Longrightarrow> dag_ok (kept_of kept g)"
  using parents_first_kept [of "[]" g kept] by (simp add: dag_ok_def)

lemma single_root_kept:
  assumes "dag_ok g" "parent_closed g kept" "single_root g"
  shows "single_root (kept_of kept g)"
proof (cases "kept_of kept g")
  case (Cons t r)
  have "distinct (kept_of kept g)" "set (kept_of kept g) \<subseteq> set g"
    using dag_ok_distinct [OF assms(1)] by (auto simp: distinct_map)
  then have "t \<in> set g" "distinct (t # r)" "set r \<subseteq> set g" by (simp_all add: Cons)
  moreover have "rev_parents t = []" using dag_ok_kept [OF assms(1,2)] Cons
    by (cases "rev_parents t") (simp_all add: dag_ok_def)
  ultimately show ?thesis using assms(3) Cons by (cases g) (auto simp: single_root_def list_all_iff)
qed (simp add: single_root_def)

lemma ids_kept: "ids (kept_of kept g) = ids g \<inter> kept"
  by (auto simp: ids_def)

lemma get_kept: "i \<in> kept \<Longrightarrow> get (kept_of kept g) i = get g i"
  by (induction g) (auto simp: get_def)

lemma slot_signatures_kept:
  "slot_signatures k (filter (\<lambda>p. p_revision_id p \<in> kept) ps) = (if fst k \<in> kept then slot_signatures k ps else [])"
  by (induction ps) (auto simp: slot_signatures_def slot_key_def)

lemma proofs_ok_kept:
  assumes "proofs_ok g ps"
  shows "proofs_ok (kept_of kept g) (filter (\<lambda>p. p_revision_id p \<in> kept) ps)"
  using assms by (auto simp: proofs_ok_def proof_known_def list_all_iff get_kept slot_signatures_kept)

lemma event_proofs_ok_prefix:
  assumes "event_proofs_ok es ps" "es = xs @ ys"
  shows "event_proofs_ok xs (filter (\<lambda>p. unat (ep_sequence p) < length xs) ps)"
  using assms
  by (auto simp: event_proofs_ok_def event_proof_by_actor_def event_at_def list_all_iff nth_append distinct_map
      intro: inj_on_subset)

lemma prune_structure:
  assumes "verify_structure P f = Ok r" "\<not> is_destroyed f" "parent_closed (tf_revisions f) kept"
  shows "\<exists>r. verify_structure P (prune kept f) = Ok r"
proof -
  let ?es = "takeWhile (travels kept) (tf_events f)"
  have es: "tf_events f = ?es @ dropWhile (travels kept) (tf_events f)" by simp
  from assms(1) have f: "dag_ok (tf_revisions f)" "single_root (tf_revisions f)"
    "list_all (revision_valid P (tf_file_id f)) (tf_revisions f)" "proofs_ok (tf_revisions f) (tf_proofs f)"
    "payloads_ok f" "events_known (tf_revisions f) (tf_events f)" "event_proofs_ok (tf_events f) (tf_event_proofs f)"
    "verify_chain P (tf_file_id f) (tf_events f) = Ok r"
    by (simp_all add: verify_structure_iff revisions_ok_def)
  have "revisions_ok P (tf_file_id f) (kept_of kept (tf_revisions f))"
    using f(1,2,3) assms(3) by (auto simp: revisions_ok_def dag_ok_kept single_root_kept list_all_iff)
  moreover have "events_known (kept_of kept (tf_revisions f)) ?es"
    using f(6) by (auto simp: events_known_def list_all_iff ids_kept travels_def split: option.splits dest!: set_takeWhileD)
  moreover have "payloads_ok (prune kept f)"
    using f(5) assms(2)
    by (auto simp: payloads_ok_def prune_def is_destroyed_def list_all_iff list_ex_iff Let_def dest!: set_takeWhileD)
  moreover obtain q where "verify_chain P (tf_file_id f) ?es = Ok q"
    using f(8) verify_chain_prefix [of P "tf_file_id f" ?es] es by metis
  ultimately show ?thesis
    using f(4,7) event_proofs_ok_prefix [OF _ es] by (auto simp: verify_structure_iff prune_def Let_def proofs_ok_kept)
qed


lemma trust_cong:
  assumes "get (tf_revisions g) i = get (tf_revisions f) i" "\<And>k. proofs_for g i k = proofs_for f i k"
  shows "evaluate_revision_trust P ctx policy g i = evaluate_revision_trust P ctx policy f i"
proof -
  have "author_proofs g i = author_proofs f i" by (rule ext) (simp add: author_proofs_def assms(2))
  moreover have "judge_countersignature P ctx g i = judge_countersignature P ctx f i"
    unfolding judge_countersignature_def assms(2) by (rule refl)
  ultimately show ?thesis unfolding evaluate_revision_trust_def assms(1) by (simp only:)
qed

lemma prune_trust:
  "i \<in> kept \<Longrightarrow> evaluate_revision_trust P ctx policy (prune kept f) i = evaluate_revision_trust P ctx policy f i"
  by (rule trust_cong)
     (auto simp: prune_def Let_def get_kept proofs_for_def intro: filter_cong)

lemma prune_file_ok: "file_ok f \<Longrightarrow> file_ok (prune kept f)"
  by (auto simp: file_ok_def prune_def Let_def list_all_iff dest: set_takeWhileD)

section \<open>Extraction\<close>

lemma parent_relI: "s \<in> set g \<Longrightarrow> p \<in> set (rev_parents s) \<Longrightarrow> (rev_id s, p) \<in> parent_rel g"
  by (auto simp: parent_rel_def)

lemma dag_acyclic: "dag_ok g \<Longrightarrow> (x, x) \<notin> (parent_rel g)\<^sup>+"
proof
  assume g: "dag_ok g" and loop: "(x, x) \<in> (parent_rel g)\<^sup>+"
  obtain i where i: "i < length g" "x = rev_id (g ! i)" using tranclD [OF loop] parent_rel_child by blast
  from reach_decreases [OF g loop i(2,1)] obtain j where "j < i" "x = rev_id (g ! j)" by blast
  with i rev_id_nth_inject [OF dag_ok_distinct [OF g], of i j] show False by simp
qed

lemma ancestors_parent_closed:
  assumes "dag_ok g"
  shows "parent_closed g (ancestor_set g i)"
  unfolding parent_closed_def ancestor_set_eq [OF dag_ok_distinct [OF assms]]
  using dag_parents_known [OF assms] by (auto dest: parent_relI intro: rtrancl_into_rtrancl)

lemma ancestors_heads:
  assumes "dag_ok g" "i \<in> ids g"
  shows "heads (kept_of (ancestor_set g i) g) = [i]"
proof -
  let ?k = "ancestor_set g i" and ?r = "(parent_rel g)\<^sup>*"
  note k = ancestor_set_eq [OF dag_ok_distinct [OF assms(1)], of i]
  have "h = i" if h: "h \<in> set (heads (kept_of ?k g))" for h
  proof (rule ccontr)
    assume "h \<noteq> i"
    from h have "(i, h) \<in> ?r" by (auto simp: heads_def Let_def k)
    with \<open>h \<noteq> i\<close> obtain c where c: "(i, c) \<in> ?r" "(c, h) \<in> parent_rel g" by (auto elim: rtranclE)
    then obtain s where "s \<in> set g" "rev_id s = c" "h \<in> set (rev_parents s)" by (auto simp: parent_rel_def)
    moreover from this have "c \<in> ?k" using c(1) by (auto simp: k ids_def)
    ultimately show False using h by (auto simp: heads_def Let_def)
  qed
  moreover have "i \<in> set (heads (kept_of ?k g))"
  proof -
    have "i \<notin> set (rev_parents s)" if "s \<in> set g" "rev_id s \<in> ?k" for s
    proof
      assume "i \<in> set (rev_parents s)"
      with that have "(rev_id s, i) \<in> parent_rel g" "(i, rev_id s) \<in> ?r" by (auto simp: k dest: parent_relI)
      with dag_acyclic [OF assms(1)] show False by (meson rtrancl_into_trancl1)
    qed
    then show ?thesis using assms(2) by (auto simp: heads_def Let_def k ids_def)
  qed
  moreover have "distinct (heads (kept_of ?k g))"
    using dag_ok_distinct [OF dag_ok_kept [OF assms(1) ancestors_parent_closed [OF assms(1)]]]
    unfolding heads_def Let_def by (rule distinct_filter)
  ultimately have "set (heads (kept_of ?k g)) = {i}" "distinct (heads (kept_of ?k g))" by auto
  then show ?thesis by (cases "heads (kept_of ?k g)") (auto simp: subset_singleton_iff dest: card_distinct)
qed

lemma extract_revision_pruned:
  assumes "sound_file P f" "\<not> is_destroyed f" "i \<in> ids (tf_revisions f)"
  defines "g \<equiv> prune (ancestor_set (tf_revisions f) i) f"
  shows "extract_revision P i f = Ok g" and "sound_file P g" and "current_revision g = Some i"
proof -
  have dag: "dag_ok (tf_revisions f)" using assms(1) by (rule sound_dag)
  obtain r where r: "verify_structure P f = Ok r" using assms(1) by (auto simp: sound_file_def)
  from prune_structure [OF r assms(2) ancestors_parent_closed [OF dag, of i]] obtain q where
    q: "verify_structure P g = Ok q" by (auto simp: g_def)
  show "extract_revision P i f = Ok g"
    using assms(2,3) r q by (cases "get (tf_revisions f) i") (auto simp: extract_revision_def Let_def get_None_iff g_def)
  show "sound_file P g" using q assms(1) prune_file_ok by (auto simp: sound_file_def g_def)
  show "current_revision g = Some i"
    using ancestors_heads [OF dag assms(3)] by (simp add: current_revision_def prune_def Let_def g_def)
qed

text \<open>
  C20. Extracting a known revision of a verified file that still has its content always succeeds.
  The copy verifies, holds exactly the revision and its ancestors with their proofs, has it as its
  only head, keeps only a prefix of the events, and is trusted by every store exactly as the
  original is. Nothing newer leaves with it.
\<close>

theorem extract_revision_exact:
  assumes "sound_file P f" "\<not> is_destroyed f" "i \<in> ids (tf_revisions f)"
  shows "\<exists>g. extract_revision P i f = Ok g \<and> sound_file P g \<and> current_revision g = Some i
    \<and> tf_revisions g = filter (\<lambda>s. graph_ancestor_or_self (tf_revisions f) (rev_id s) i) (tf_revisions f)
    \<and> tf_proofs g = filter (\<lambda>p. graph_ancestor_or_self (tf_revisions f) (p_revision_id p) i) (tf_proofs f)
    \<and> (\<exists>n. tf_events g = take n (tf_events f))
    \<and> (\<forall>e \<in> set (tf_events g). \<forall>j. e_revision_id e = Some j \<longrightarrow> graph_ancestor_or_self (tf_revisions f) j i)
    \<and> (\<forall>ctx policy a. graph_ancestor_or_self (tf_revisions f) a i \<longrightarrow>
         evaluate_revision_trust P ctx policy g a = evaluate_revision_trust P ctx policy f a)"
proof -
  let ?k = "ancestor_set (tf_revisions f) i" and ?g = "prune (ancestor_set (tf_revisions f) i) f"
  have dag: "dag_ok (tf_revisions f)" using assms(1) by (rule sound_dag)
  have k: "a \<in> ?k \<longleftrightarrow> graph_ancestor_or_self (tf_revisions f) a i" for a by (rule ancestor_set_iff [OF dag])
  note extract_revision_pruned [OF assms]
  moreover have "\<forall>e \<in> set (tf_events ?g). \<forall>j. e_revision_id e = Some j \<longrightarrow> graph_ancestor_or_self (tf_revisions f) j i"
    by (auto simp: prune_def Let_def travels_def k dest!: set_takeWhileD)
  moreover have "\<exists>n. tf_events ?g = take n (tf_events f)"
    by (intro exI [of _ "length (takeWhile (travels ?k) (tf_events f))"])
       (simp add: prune_def Let_def takeWhile_eq_take [symmetric])
  moreover have "tf_revisions ?g = filter (\<lambda>s. graph_ancestor_or_self (tf_revisions f) (rev_id s) i) (tf_revisions f)"
    "tf_proofs ?g = filter (\<lambda>p. graph_ancestor_or_self (tf_revisions f) (p_revision_id p) i) (tf_proofs f)"
    by (simp_all add: prune_def Let_def k)
  moreover have "\<forall>ctx policy a. graph_ancestor_or_self (tf_revisions f) a i \<longrightarrow>
         evaluate_revision_trust P ctx policy ?g a = evaluate_revision_trust P ctx policy f a"
    by (simp add: prune_trust k)
  ultimately show ?thesis by blast
qed

section \<open>Importing\<close>

lemma local_index_get:
  assumes "distinct (map rev_id g)"
  shows "local_index g = get g"
proof
  fix i
  have "map_of (rev (map (\<lambda>s. (rev_id s, s)) g)) i = Some s \<longleftrightarrow> s \<in> set g \<and> rev_id s = i" for s
    using assms by (subst map_of_eq_Some_iff) (auto simp: rev_map [symmetric] o_def)
  then have "local_index g i = Some s \<longleftrightarrow> get g i = Some s" for s
    by (simp add: local_index_def get_Some_iff [OF assms])
  then show "local_index g i = get g i" by (metis option.exhaust)
qed

lemma incoming_Ok_iff:
  "incoming index g = Ok new \<longleftrightarrow>
     (\<forall>s \<in> set g. index (rev_id s) \<in> {None, Some s}) \<and> new = filter (\<lambda>s. index (rev_id s) = None) g"
  by (induction g arbitrary: new) (auto simp: and_then_Ok_iff split: option.splits)

lemma hold_eq: "hold held ps k = held k @ slot_signatures k ps"
  by (induction ps arbitrary: held) (auto simp: slot_signatures_Cons slot_signatures_def)

lemma set_import_proofs: "set (import_proofs held ps) \<subseteq> set ps"
  by (induction ps arbitrary: held) (auto simp: Let_def le_supI2 subset_insertI2)

lemma import_proofs_slots:
  assumes "distinct (held k)" "length (held k) \<le> MAX_PROOFS_PER_SLOT"
  shows "distinct (held k @ slot_signatures k (import_proofs held ps))
    \<and> length (held k @ slot_signatures k (import_proofs held ps)) \<le> MAX_PROOFS_PER_SLOT"
  using assms
proof (induction ps arbitrary: held)
  case (Cons p ps)
  show ?case
  proof (cases "p_signature p \<notin> set (held (slot_key p)) \<and> length (held (slot_key p)) < MAX_PROOFS_PER_SLOT")
    case True
    define h where "h = held(slot_key p := held (slot_key p) @ [p_signature p])"
    have h: "h k = held k @ (if slot_key p = k then [p_signature p] else [])" by (simp add: h_def)
    have "import_proofs held (p # ps) = p # import_proofs h ps" using True by (simp add: Let_def h_def)
    moreover have "distinct (h k)" "length (h k) \<le> MAX_PROOFS_PER_SLOT" using True Cons.prems h by auto
    note Cons.IH [of h, OF this]
    ultimately show ?thesis by (simp add: slot_signatures_Cons h)
  next
    case False
    then show ?thesis using Cons.IH [of held] Cons.prems by (auto simp: Let_def)
  qed
qed (simp add: slot_signatures_def)

text \<open>After an import every proof offered is held, or its slot is full.\<close>

definition settled :: "held \<Rightarrow> revision_proof \<Rightarrow> bool" where
  "settled held p \<longleftrightarrow> p_signature p \<in> set (held (slot_key p)) \<or> length (held (slot_key p)) \<ge> MAX_PROOFS_PER_SLOT"

lemma import_settled: "\<forall>p \<in> set ps. settled held p \<Longrightarrow> import_proofs held ps = []"
  by (induction ps) (auto simp: settled_def Let_def)

lemma import_settles:
  "p \<in> set ps \<Longrightarrow> settled (\<lambda>k. held k @ slot_signatures k (import_proofs held ps)) p"
proof (induction ps arbitrary: held)
  case (Cons q ps)
  let ?held = "held(slot_key q := held (slot_key q) @ [p_signature q])"
  show ?case
  proof (cases "p_signature q \<notin> set (held (slot_key q)) \<and> length (held (slot_key q)) < MAX_PROOFS_PER_SLOT")
    case True
    then have "(\<lambda>k. held k @ slot_signatures k (import_proofs held (q # ps)))
        = (\<lambda>k. ?held k @ slot_signatures k (import_proofs ?held ps))"
      by (auto simp: slot_signatures_Cons Let_def)
    moreover have "settled (\<lambda>k. ?held k @ slot_signatures k (import_proofs ?held ps)) p" if "p \<in> set ps"
      using Cons.IH that .
    ultimately show ?thesis using Cons.prems by (auto simp: settled_def)
  next
    case False
    then have "import_proofs held (q # ps) = import_proofs held ps" by (auto simp: Let_def)
    then show ?thesis using Cons.IH [of held] Cons.prems False by (auto simp: settled_def)
  qed
qed simp


lemma take_in_Ok_iff:
  assumes "dag_ok (tf_revisions f)"
  shows "take_in other f = (Inr (n, m), f') \<longleftrightarrow>
    (\<forall>s \<in> set (tf_revisions other). get (tf_revisions f) (rev_id s) \<in> {None, Some s})
    \<and> (let new = filter (\<lambda>s. rev_id s \<notin> ids (tf_revisions f)) (tf_revisions other);
           ps = import_proofs (\<lambda>k. slot_signatures k (tf_proofs f)) (tf_proofs other) in
       n = length new \<and> m = length ps
       \<and> f' = f\<lparr>tf_revisions := tf_revisions f @ new, tf_proofs := tf_proofs f @ ps\<rparr>)"
proof -
  have held: "hold (\<lambda>_. []) (tf_proofs f) = (\<lambda>k. slot_signatures k (tf_proofs f))" by (rule ext) (simp add: hold_eq)
  have inc: "incoming (local_index (tf_revisions f)) (tf_revisions other) = Ok new \<longleftrightarrow>
      (\<forall>s \<in> set (tf_revisions other). get (tf_revisions f) (rev_id s) \<in> {None, Some s})
      \<and> new = filter (\<lambda>s. rev_id s \<notin> ids (tf_revisions f)) (tf_revisions other)" for new
    by (simp add: incoming_Ok_iff local_index_get [OF dag_ok_distinct [OF assms]] get_None_iff)
  show ?thesis
  proof (cases "incoming (local_index (tf_revisions f)) (tf_revisions other)")
    case (Inl e)
    with inc have "\<not> (\<forall>s \<in> set (tf_revisions other). get (tf_revisions f) (rev_id s) \<in> {None, Some s})" by fastforce
    then show ?thesis by (simp only: take_in_def Inl sum.case Pair_inject) simp
  next
    case (Inr new)
    with inc have "\<forall>s \<in> set (tf_revisions other). get (tf_revisions f) (rev_id s) \<in> {None, Some s}"
      "new = filter (\<lambda>s. rev_id s \<notin> ids (tf_revisions f)) (tf_revisions other)" by blast+
    then show ?thesis unfolding take_in_def Inr held Let_def by auto
  qed
qed

lemma growing_take_in [growing]: "growing_steps (take_in other)"
  by (auto simp: growing_steps_def take_in_def grows_def Let_def split: sum.splits)

lemma growing_merge_history_steps: "growing_steps (merge_history_steps P other c)"
  unfolding merge_history_steps_def by (auto intro!: growing)

lemma nat_str_ok: "str_ok (nat_str n)"
proof (rule str_ok_ascii, induction n rule: nat_str.induct)
  case (1 n)
  then show ?case by (subst nat_str.simps) (auto simp: of_char_of)
qed

lemma import_event_ok:
  assumes "prims_ok P" "opt_sized 16 (ic_actor_identity c)" "str_ok (ic_actor_label c)" "str_ok (ic_occurred_at c)"
  shows "new_event_ok (import_event P other c rel n m)"
  using assms hex_str_ok nat_str_ok
  by (cases rel) (auto simp: new_event_ok_def import_event_def opt_sized_def opt_str_ok_def str_ok_ascii)

lemma merge_history_steps_Ok:
  assumes "merge_history_steps P other c f = (Inr r, f')"
  obtains n m f1 x where "take_in other f = (Inr (n, m), f1)" and "verify_structure P f1 = Ok x"
    and "r = \<lparr>hm_relation = compare_copies (tf_revisions f) (tf_revisions other), hm_revisions_added = n, hm_proofs_added = m\<rparr>"
    and "if n = 0 \<and> m = 0 then f' = f1
         else \<exists>e. append_event P (import_event P other c (hm_relation r) n m) f1 = (Inr e, f')"
  using assms
  by (auto simp: merge_history_steps_def bind_op_Ok_iff simp del: bind_op_lift split: if_splits)

definition import_context_ok :: "import_context \<Rightarrow> bool" where
  "import_context_ok c \<longleftrightarrow> opt_sized 16 (ic_actor_identity c) \<and> str_ok (ic_actor_label c) \<and> str_ok (ic_occurred_at c)"

lemma take_in_file_ok:
  "take_in other f = (Inr r, f') \<Longrightarrow> file_ok f \<Longrightarrow> file_ok other \<Longrightarrow> file_ok f'"
  using set_import_proofs
  by (fastforce simp: take_in_def file_ok_def list_all_iff incoming_Ok_iff Let_def split: sum.splits)

interpretation importing: sound_steps "merge_history_steps P other c" P
    "prims_ok P \<and> file_ok other \<and> import_context_ok c"
  for P other c
proof (unfold_locales)
  fix f show "grows f (snd (merge_history_steps P other c f))"
    using growing_merge_history_steps by (auto simp: growing_steps_def)
next
  fix f r f'
  assume pre: "prims_ok P \<and> file_ok other \<and> import_context_ok c" and f: "sound_file P f"
    and "merge_history_steps P other c f = (Inr r, f')"
  from this(3) show "sound_file P f'"
  proof (rule merge_history_steps_Ok)
    fix n m f1 x
    assume t: "take_in other f = (Inr (n, m), f1)" and x: "verify_structure P f1 = Ok x"
      and f': "if n = 0 \<and> m = 0 then f' = f1
         else \<exists>e. append_event P (import_event P other c (hm_relation r) n m) f1 = (Inr e, f')"
    have f1: "sound_file P f1" using take_in_file_ok [OF t] f pre x by (auto simp: sound_file_def)
    have "keeps_sound P (append_event P (import_event P other c (hm_relation r) n m)) event_ok"
      using pre by (intro keeps_append_event import_event_ok) (auto simp: import_context_ok_def import_event_def)
    with f1 f' show ?thesis by (auto simp: keeps_sound_def split: if_splits)
  qed
qed


lemma slot_signatures_append: "slot_signatures k (ps @ qs) = slot_signatures k ps @ slot_signatures k qs"
  by (simp add: slot_signatures_def)

lemma taken_in:
  assumes "dag_ok (tf_revisions f)" "take_in other f = (Inr (n, m), f1)" "dag_ok (tf_revisions f1)"
  shows "set (tf_revisions other) \<subseteq> set (tf_revisions f1)"
    and "\<forall>s \<in> set (tf_revisions other). get (tf_revisions f1) (rev_id s) = Some s"
proof -
  from assms(2) have known: "\<forall>s \<in> set (tf_revisions other). get (tf_revisions f) (rev_id s) \<in> {None, Some s}"
    and f1: "tf_revisions f1 = tf_revisions f @ filter (\<lambda>s. rev_id s \<notin> ids (tf_revisions f)) (tf_revisions other)"
    by (auto simp: take_in_Ok_iff [OF assms(1)] Let_def)
  show sub: "set (tf_revisions other) \<subseteq> set (tf_revisions f1)"
  proof
    fix s assume s: "s \<in> set (tf_revisions other)"
    with known get_SomeD get_None_iff [of "tf_revisions f" "rev_id s"] show "s \<in> set (tf_revisions f1)"
      by (cases "get (tf_revisions f) (rev_id s)") (force simp: f1)+
  qed
  then show "\<forall>s \<in> set (tf_revisions other). get (tf_revisions f1) (rev_id s) = Some s"
    by (auto simp: get_Some_iff [OF dag_ok_distinct [OF assms(3)]])
qed

lemma take_in_again:
  assumes "dag_ok (tf_revisions f)" "take_in other f = (Inr (n, m), f1)" "dag_ok (tf_revisions g)"
    "tf_revisions g = tf_revisions f1" "tf_proofs g = tf_proofs f1"
  shows "take_in other g = (Inr (0, 0), g)"
proof -
  let ?held = "\<lambda>k. slot_signatures k (tf_proofs f)"
  note taken = taken_in [OF assms(1,2)] assms(3,4)
  have "\<forall>s \<in> set (tf_revisions other). get (tf_revisions g) (rev_id s) = Some s" using taken by simp
  moreover have none: "filter (\<lambda>s. rev_id s \<notin> ids (tf_revisions g)) (tf_revisions other) = []"
    using taken by (auto simp: filter_empty_conv ids_def)
  moreover have "tf_proofs g = tf_proofs f @ import_proofs ?held (tf_proofs other)"
    using assms(2,5) by (simp add: take_in_Ok_iff [OF assms(1)] Let_def)
  then have "(\<lambda>k. slot_signatures k (tf_proofs g)) = (\<lambda>k. ?held k @ slot_signatures k (import_proofs ?held (tf_proofs other)))"
    by (simp add: slot_signatures_append)
  then have "import_proofs (\<lambda>k. slot_signatures k (tf_proofs g)) (tf_proofs other) = []"
    using import_settled [OF ballI, OF import_settles [of _ "tf_proofs other" ?held]] by (simp only:)
  ultimately show ?thesis by (simp add: take_in_Ok_iff [OF assms(3)] Let_def)
qed

lemma import_event_live: "append_event P (import_event P other c rel n m) f = (Inr e, f') \<Longrightarrow> is_destroyed f' = is_destroyed f"
  using append_event_Ok [of P "import_event P other c rel n m" f e f'] seal_event_facts
  by (fastforce simp: is_destroyed_def destroys_this_content_def import_event_def)

lemma merge_history_steps_facts:
  assumes "dag_ok (tf_revisions f)" "merge_history_steps P other c f = (Inr m, f')" "dag_ok (tf_revisions f')"
  shows "take_in other f' = (Inr (0, 0), f')" and "is_destroyed f' = is_destroyed f"
    and "set (tf_revisions other) \<subseteq> set (tf_revisions f')"
    and "tf_revisions f' = tf_revisions f @ filter (\<lambda>s. rev_id s \<notin> ids (tf_revisions f)) (tf_revisions other)"
    and "tf_proofs f' = tf_proofs f @ import_proofs (\<lambda>k. slot_signatures k (tf_proofs f)) (tf_proofs other)"
    and "hm_revisions_added m = length (tf_revisions f') - length (tf_revisions f)"
    and "hm_proofs_added m = length (tf_proofs f') - length (tf_proofs f)"
proof -
  from assms(2) obtain n k f1 where t: "take_in other f = (Inr (n, k), f1)"
    and m: "hm_revisions_added m = n" "hm_proofs_added m = k"
    and f': "if n = 0 \<and> k = 0 then f' = f1
       else \<exists>e. append_event P (import_event P other c (hm_relation m) n k) f1 = (Inr e, f')"
    by (rule merge_history_steps_Ok) simp
  have same: "tf_revisions f' = tf_revisions f1" "tf_proofs f' = tf_proofs f1"
    using f' by (auto split: if_splits dest: append_event_revisions)
  show "take_in other f' = (Inr (0, 0), f')" by (rule take_in_again [OF assms(1) t assms(3) same])
  show "set (tf_revisions other) \<subseteq> set (tf_revisions f')" using taken_in(1) [OF assms(1) t] assms(3) same by simp
  have "is_destroyed f1 = is_destroyed f" using t by (auto simp: take_in_Ok_iff [OF assms(1)] Let_def is_destroyed_def)
  with f' show "is_destroyed f' = is_destroyed f" by (auto split: if_splits dest: import_event_live)
  show revs: "tf_revisions f' = tf_revisions f @ filter (\<lambda>s. rev_id s \<notin> ids (tf_revisions f)) (tf_revisions other)"
    and prfs: "tf_proofs f' = tf_proofs f @ import_proofs (\<lambda>k. slot_signatures k (tf_proofs f)) (tf_proofs other)"
    using t same by (simp_all add: take_in_Ok_iff [OF assms(1)] Let_def)
  show "hm_revisions_added m = length (tf_revisions f') - length (tf_revisions f)"
    "hm_proofs_added m = length (tf_proofs f') - length (tf_proofs f)"
    unfolding revs prfs using t m by (simp_all add: take_in_Ok_iff [OF assms(1)] Let_def)
qed

text \<open>
  C8. Importing a copy is all or nothing. When it succeeds, everything held stays as it was and in
  place; the revisions are those of both copies, each once; no proof appears that neither copy
  held; and importing the same copy again adds nothing and records nothing.
\<close>

theorem merge_history_union:
  assumes "prims_ok P" "sound_file P f" "sound_file P other" "import_context_ok c"
    "merge_history P other c f = (r, f')"
  shows "case r of
      Inl e \<Rightarrow> f' = f
    | Inr m \<Rightarrow> sound_file P f' \<and> grows f f'
        \<and> tf_revisions f' = tf_revisions f @ filter (\<lambda>s. rev_id s \<notin> ids (tf_revisions f)) (tf_revisions other)
        \<and> set (tf_revisions other) \<subseteq> set (tf_revisions f')
        \<and> set (tf_proofs f') \<subseteq> set (tf_proofs f) \<union> set (tf_proofs other)
        \<and> (hm_revisions_added m, hm_proofs_added m)
            = (length (tf_revisions f') - length (tf_revisions f), length (tf_proofs f') - length (tf_proofs f))
        \<and> (\<exists>rel. merge_history P other c f'
              = (Ok \<lparr>hm_relation = rel, hm_revisions_added = 0, hm_proofs_added = 0\<rparr>, f'))"
proof (cases r)
  case (Inl e)
  with assms(5) importing.undone show ?thesis by (auto simp: merge_history_def split: if_splits sum.splits)
next
  case (Inr m)
  with assms(5) have live: "\<not> is_destroyed f" "\<not> is_destroyed other" "tf_file_id f = tf_file_id other" "tf_policy f = tf_policy other"
    and steps: "merge_history_steps P other c f = (Inr m, f')"
    by (auto simp: merge_history_def importing.done_iff split: if_splits sum.splits)
  have sound: "sound_file P f'"
    using importing.sound_when_done [OF _ assms(2) steps] assms(1,3,4) by (simp add: sound_file_def)
  have "grows f f'" using importing.grows_steps [of f P other c] steps by simp
  have dags: "dag_ok (tf_revisions f)" "dag_ok (tf_revisions f')" using assms(2) sound sound_dag by blast+
  note facts = merge_history_steps_facts [OF dags(1) steps dags(2)]
  obtain x y where verified: "verify_structure P f' = Ok x" "verify_structure P other = Ok y"
    using sound assms(3) by (auto simp: sound_file_def)
  with facts(1) obtain rel where "merge_history_steps P other c f'
      = (Ok \<lparr>hm_relation = rel, hm_revisions_added = 0, hm_proofs_added = 0\<rparr>, f')"
    by (simp add: merge_history_steps_def bind_op_def)
  with live verified facts(2) \<open>grows f f'\<close> have "\<exists>rel. merge_history P other c f'
      = (Ok \<lparr>hm_relation = rel, hm_revisions_added = 0, hm_proofs_added = 0\<rparr>, f')"
    by (auto simp: merge_history_def grows_def importing.done_iff)
  then show ?thesis
    using Inr sound \<open>grows f f'\<close> facts(3-7) set_import_proofs [of _ "tf_proofs other"] by auto
qed

section \<open>Samples\<close>

theorem extract_revision_exact_witness:
  "\<exists>f g root left right. heads (tf_revisions f) = [left, right] \<and> extract_revision toy_prims left f = Ok g
     \<and> current_revision g = Some left \<and> right \<notin> ids (tf_revisions g)"
proof -
  obtain f root left right where f: "forked f root left right" using forked_exists by blast
  note facts = forked_facts [OF f]
  have sound: "sound_file toy_prims f" "\<not> is_destroyed f" using facts(8) by (auto simp: sample_like_def is_destroyed_def)
  have "left \<in> ids (tf_revisions f)" using facts(7) by simp
  from extract_revision_exact [OF sound this] obtain g where g: "extract_revision toy_prims left f = Ok g"
    "current_revision g = Some left"
    "tf_revisions g = filter (\<lambda>s. graph_ancestor_or_self (tf_revisions f) (rev_id s) left) (tf_revisions f)" by blast
  have "\<not> graph_ancestor_or_self (tf_revisions f) right left"
    using head_reached_only_from_itself [of left right "tf_revisions f"] facts(1,4)
      graph_ancestor_or_self_iff [OF dag_ok_distinct [OF sound_dag [OF sound(1)]]] by auto
  then have "right \<notin> ids (tf_revisions g)" by (auto simp: g(3) ids_def)
  with facts(1) g(1,2) show ?thesis by blast
qed

definition sample_import :: import_context where
  "sample_import = \<lparr>ic_actor_identity = None, ic_actor_label = ''A.1'', ic_occurred_at = ''2026-01-01T00:00:00Z'',
     ic_topology_generation = 3\<rparr>"

lemma sample_import_ok: "import_context_ok sample_import"
  by (simp add: import_context_ok_def sample_import_def opt_sized_def str_ok_ascii)

lemma prune_root:
  assumes "forked f root left right"
  shows "\<exists>a b c. tf_revisions f = [a, b, c] \<and> rev_id a = root \<and> rev_id b = left \<and> rev_id c = right
    \<and> prune {root} f = f\<lparr>tf_revisions := [a]\<rparr> \<and> sound_file toy_prims (prune {root} f)"
proof -
  from assms obtain a b c where f: "tf_revisions f = [a, b, c]" "rev_id a = root" "rev_id b = left" "rev_id c = right"
    "rev_parents a = []" and d: "distinct [root, left, right]"
    and rest: "tf_proofs f = []" "tf_event_proofs f = []" "tf_events f = []" "sound_file toy_prims f"
    by (auto simp: forked_def sample_like_def)
  have "parent_closed (tf_revisions f) {root}" using f d by (auto simp: parent_closed_def)
  moreover have "\<not> is_destroyed f" using rest by (simp add: is_destroyed_def)
  ultimately have "sound_file toy_prims (prune {root} f)"
    using rest(4) prune_structure prune_file_ok by (auto simp: sound_file_def)
  moreover have "prune {root} f = f\<lparr>tf_revisions := [a]\<rparr>" using f d rest by (auto simp: prune_def Let_def)
  ultimately show ?thesis using f by blast
qed

lemma forked_import:
  assumes "forked f root left right"
  shows "\<exists>m f'. merge_history toy_prims f sample_import (prune {root} f) = (Ok m, f') \<and> hm_revisions_added m = 2"
proof -
  from prune_root [OF assms] obtain a b c where f: "tf_revisions f = [a, b, c]" "rev_id a = root" "rev_id b = left" "rev_id c = right"
    and g: "prune {root} f = f\<lparr>tf_revisions := [a]\<rparr>" "sound_file toy_prims (prune {root} f)" by blast
  have d: "distinct [root, left, right]" and rest: "tf_proofs f = []" "tf_events f = []" and sound: "sound_file toy_prims f"
    using assms by (auto simp: forked_def sample_like_def)
  have live: "\<not> is_destroyed f" "\<not> is_destroyed (prune {root} f)" using rest g(1) by (simp_all add: is_destroyed_def)
  have t: "take_in f (prune {root} f) = (Inr (2, 0), f)"
    unfolding take_in_Ok_iff [OF sound_dag [OF g(2)]] using f d rest by (auto simp: g(1) ids_def get_def)
  let ?rel = "compare_copies (tf_revisions (prune {root} f)) (tf_revisions f)"
  let ?e = "import_event toy_prims f sample_import ?rel 2 0"
  have "length (history_root toy_prims f) = 32"
    using sound by (intro history_root_length) (auto simp: sound_file_def)
  then have "event_fits ?e" "unsafe_key (n_details ?e) = None"
    by (cases ?rel; simp add: event_fits_def import_event_def sample_import_def toy_hex_length nat_str.simps
        unsafe_key_def SAFE_DETAIL_KEYS_def)+
  moreover have "n_revision_id ?e = None" by (simp add: import_event_def)
  ultimately obtain e where e: "append_event toy_prims ?e f = (Ok e, f\<lparr>tf_events := tf_events f @ [e]\<rparr>)"
    using sound_append_succeeds [OF sound, of ?e] by blast
  obtain x y where "verify_structure toy_prims f = Ok x" "verify_structure toy_prims (prune {root} f) = Ok y"
    using sound g(2) by (auto simp: sound_file_def)
  with t e have "merge_history_steps toy_prims f sample_import (prune {root} f)
      = (Ok \<lparr>hm_relation = ?rel, hm_revisions_added = 2, hm_proofs_added = 0\<rparr>, f\<lparr>tf_events := tf_events f @ [e]\<rparr>)"
    by (simp add: merge_history_steps_def bind_op_def)
  with live \<open>verify_structure toy_prims f = Ok x\<close> \<open>verify_structure toy_prims (prune {root} f) = Ok y\<close>
  show ?thesis by (auto simp: merge_history_def g(1) importing.done_iff)
qed

theorem merge_history_union_witness:
  "\<exists>f other m f'. merge_history toy_prims other sample_import f = (Ok m, f') \<and> hm_revisions_added m = 2
     \<and> set (tf_revisions other) \<subseteq> set (tf_revisions f') \<and> grows f f'"
proof -
  obtain f root left right where f: "forked f root left right" using forked_exists by blast
  obtain m f' where m: "merge_history toy_prims f sample_import (prune {root} f) = (Ok m, f')" "hm_revisions_added m = 2"
    using forked_import [OF f] by blast
  have "sound_file toy_prims (prune {root} f)" "sound_file toy_prims f"
    using prune_root [OF f] f by (auto simp: forked_def sample_like_def)
  from merge_history_union [OF toy_prims_ok this sample_import_ok m(1)] m show ?thesis by auto
qed

end
