(* ===== verification/Reviewed.thy ===== *)
theory Reviewed
  imports Governed ResolveFacts SyncFacts
begin

text \<open>
  The properties of reviewers on concrete files: an endorsed revision whose author is assigned a
  later conflict, and a fork that the owner of the scope settles.
\<close>

section \<open>An assigned reviewer\<close>

text \<open>A later revision of an endorsed one, by somebody else.\<close>

definition followed_by :: "stored_revision \<Rightarrow> stored_revision" where
  "followed_by s = s\<lparr>s_revision := (s_revision s)\<lparr>r_revision_id := 0 # rev_id s,
     r_parent_revision_ids := [rev_id s], r_author_hcp_label := ''A.2''\<rparr>\<rparr>"

lemma followed_by_simps [simp]:
  "rev_id (followed_by s) = 0 # rev_id s" "rev_parents (followed_by s) = [rev_id s]"
  "r_author_hcp_label (s_revision (followed_by s)) = ''A.2''"
  by (simp_all add: followed_by_def)

lemma without_bridges_office: "without_bridges office = office"
  by (simp add: without_bridges_def office_def default_context_def)

lemma followed_trusted:
  assumes "endorsed f s"
  shows "trusted_owners toy_prims office (standard ''A'') (f\<lparr>tf_revisions := [s, followed_by s]\<rparr>) = [(rev_id s, ''A.1'')]"
proof -
  let ?g = "f\<lparr>tf_revisions := [s, followed_by s]\<rparr>"
  have "is_trusted toy_prims office (standard ''A'') ?g (rev_id s)
      \<longleftrightarrow> is_trusted toy_prims office (standard ''A'') f (rev_id s)"
    using endorsed_heads(3) [OF assms] trust_cong [of ?g "rev_id s" f toy_prims office "standard ''A''"]
    by (simp add: get_def [of "[s, followed_by s]"] proofs_for_def)
  moreover have "\<not> is_trusted toy_prims office (standard ''A'') ?g (0 # rev_id s)"
    using assms by (intro untrusted_without_proofs) (simp add: endorsed_def office_proofs)
  ultimately show ?thesis using assms by (simp add: trusted_owners_def endorsed_def)
qed

lemma followed_ancestor:
  assumes "endorsed f s"
  shows "dag_ok [s, followed_by s]" "rev_id s \<in> ancestor_set [s, followed_by s] (0 # rev_id s)"
proof -
  show d: "dag_ok [s, followed_by s]"
    using assms by (auto simp: endorsed_def dag_ok_def)
  have "(0 # rev_id s, rev_id s) \<in> parent_rel [s, followed_by s]"
    using parent_relI [of "followed_by s" "[s, followed_by s]" "rev_id s"] by simp
  then show "rev_id s \<in> ancestor_set [s, followed_by s] (0 # rev_id s)"
    by (auto simp: ancestor_set_eq [OF dag_ok_distinct [OF d]] ids_def)
qed


section \<open>A settled fork\<close>

definition cautious :: file_policy where
  "cautious = (standard ''A'')\<lparr>fp_auto_merge := False\<rparr>"

definition settling :: "bytes list \<Rightarrow> new_revision" where
  "settling parents = (sample_rev parents 3)\<lparr>nr_author_hcp_label := ''A''\<rparr>"

lemma superior_label:
  "generated_label toy_prims ''report.txt'' ''2026-01-01T00:00:00Z'' ''A'' = Ok ''Rreport-20260101T000000Z-A''"
  by (simp add: generated_label_def sample_compact_utc normalize_name_def stem_def rsplit_once_def split_once_def
   trim_matches_def cont_char_def toy_prims_def ascii_alnum_def)

lemma settling_create:
  assumes "length parents < 2 ^ 16"
  shows "\<exists>r. create_revision toy_prims fid ''report.txt'' payload (settling parents) = Ok r
    \<and> drop 2 (r_revision_id r) = replicate 30 3"
  using assms
  by (simp add: create_revision_def settling_def sample_rev_def sample_new_revision_def superior_label compute_id_def
      revision_body_def Let_def eval_simps)

lemma settling_ok: "list_all (\<lambda>p. length p = 32) parents \<Longrightarrow> new_revision_ok (settling parents)"
  using sample_rev_ok [of parents 3] by (simp add: new_revision_ok_def settling_def str_ok_ascii)

lemma forked_open:
  assumes "forked f root left right"
  shows "open_conflict toy_prims (fp_auto_merge cautious) f = Ok (Some \<lparr>oc_left = left, oc_right = right, oc_parents = [left, right]\<rparr>)"
proof -
  have "plan_auto_merge toy_prims left right False f = Ok (am_stop PolicyBlocked ''AUTO_MERGE_DISABLED'' None)"
    using forked_facts [OF assms] forked_diverged [OF assms]
    by (auto simp: plan_auto_merge_def Let_def sample_like_def sound_file_def)
  then show ?thesis
    using forked_facts(1) [OF assms] forked_diverged [OF assms]
    by (simp add: open_conflict_def cautious_def Let_def am_stop_def needs_person_def)
qed

lemma forked_owner_decides:
  assumes "forked f root left right"
  shows "may_decide toy_prims office cautious left right ''A'' f = Ok True"
proof -
  have "trusted_owners toy_prims ctx cautious f = []" for ctx
    using assms untrusted_without_proofs [of _ f toy_prims ctx cautious]
    by (auto simp: trusted_owners_def forked_def filter_empty_conv)
  moreover have "label_of f left = Ok ''A.1''" "label_of f right = Ok ''A.1''"
    using assms by (auto simp: forked_def sample_like_def label_of_def get_def)
  moreover have "is_ancestor_or_self ''A'' ''A''" by (simp add: is_ancestor_or_self_def is_well_formed_def)
  ultimately show ?thesis
    by (simp add: may_decide_def select_resolver_def Let_def distinct_labels_def select_senior_def eligible_def
        cautious_def standard_def)
qed

lemma forked_settled:
  assumes "forked f root left right"
  shows "\<exists>i f'. resolve_conflict toy_prims office cautious (Edited [5]) (settling []) f = (Ok i, f')"
proof -
  note f = forked_facts [OF assms]
  obtain r where r: "create_revision toy_prims (tf_file_id f) (tf_logical_name f) [5] (settling [left, right]) = Ok r"
    "drop 2 (r_revision_id r) = replicate 30 3"
    using settling_create [of "[left, right]" "tf_file_id f" "[5]"] f(8) by (auto simp: sample_like_def)
  have ok: "sound_file toy_prims f" "\<not> is_destroyed f" using f(8) by (auto simp: sample_like_def is_destroyed_def)
  have new: "r_revision_id r \<notin> ids (tf_revisions f)" using r(2) f(8) by (auto simp: sample_like_def)
  have "nr_parent_revision_ids (settling [left, right]) = [left, right]" by (simp add: settling_def sample_rev_def)
  moreover have "set [left, right] \<subseteq> ids (tf_revisions f)" "distinct [left, right]" "([left, right] = []) = (tf_revisions f = [])"
    using f by (auto simp: ids_def)
  moreover have "new_revision_ok (settling [left, right])" using f(5,6) by (simp add: settling_ok)
  ultimately have ci: "check_in toy_prims (settling [left, right]) [5] f
      = (Ok (r_revision_id r), f\<lparr>tf_revisions := tf_revisions f @ [\<lparr>s_revision = r, s_payload = Some [5]\<rparr>]\<rparr>)"
    and ok1: "sound_file toy_prims (f\<lparr>tf_revisions := tf_revisions f @ [\<lparr>s_revision = r, s_payload = Some [5]\<rparr>]\<rparr>)"
    using fresh_check_in [OF ok _ r(1) new] by blast+
  let ?n = "event_by (settling []) ConflictResolved (Some (r_revision_id r)) Success
     [(''revision_a'', hex_encode toy_prims left), (''revision_b'', hex_encode toy_prims right),
      (''resolution'', ''EDITED''), (''reviewer'', ''A''), (''trust_state'', ''PENDING'')]"
  have "event_fits ?n" "unsafe_key (n_details ?n) = None"
    using f(5,6) by (simp_all add: event_fits_def event_by_def settling_def sample_rev_def sample_new_revision_def
        whole_seconds_def split_once_def toy_hex_length unsafe_key_def SAFE_DETAIL_KEYS_def)
  from sound_append_succeeds [OF ok1 this] obtain e f' where
    e: "append_event toy_prims ?n (f\<lparr>tf_revisions := tf_revisions f @ [\<lparr>s_revision = r, s_payload = Some [5]\<rparr>]\<rparr>) = (Ok e, f')"
    by (auto simp: ids_def event_by_def)
  have "(settling [])\<lparr>nr_parent_revision_ids := [left, right]\<rparr> = settling [left, right]" "nr_author_hcp_label (settling []) = ''A''"
    by (simp_all add: settling_def sample_rev_def)
  then have "resolve_conflict_steps toy_prims office cautious (Edited [5]) (settling []) f = (Ok (r_revision_id r), f')"
    using forked_open [OF assms] forked_owner_decides [OF assms] ci e
    by (simp add: resolve_conflict_steps_def bind_op_def lift_def resolved_content_def ret_def)
  then show ?thesis by (auto simp: resolve_conflict_def resolving.done_iff)
qed

theorem resolve_conflict_settles_witness:
  "\<exists>(f :: tracked_file) f' i left right s. heads (tf_revisions f) = [left, right] \<and> current_revision f' = Some i
     \<and> tf_revisions f' = tf_revisions f @ [s] \<and> s_payload s = Some [5]
     \<and> \<not> is_trusted toy_prims office cautious f' i"
proof -
  obtain f root left right where f: "forked f root left right" using forked_exists by blast
  obtain i f' where r: "resolve_conflict toy_prims office cautious (Edited [5]) (settling []) f = (Inr i, f')"
    using forked_settled [OF f] by blast
  have "sound_file toy_prims f" using forked_facts(8) [OF f] by (simp add: sample_like_def)
  from resolve_conflict_settles [OF this r] obtain s bs c where
    "current_revision f' = Some i" "\<not> is_trusted toy_prims office cautious f' i"
    "tf_revisions f' = tf_revisions f @ [s]" "s_payload s = Some bs" "resolved_content (Edited [5]) c f = Ok bs"
    by auto
  with forked_facts(1) [OF f] show ?thesis by (auto simp: resolved_content_def Let_def)
qed

end
