(* ===== verification/Expiry.thy ===== *)
theory Expiry
  imports MergeFacts
begin

text \<open>
  Expiry, \<open>src/file_history/expiry.rs\<close>: scheduling an expiry, destroying every retained payload
  at once, and recording later attempts to use the content.
\<close>

section \<open>Model\<close>

record expiry_context =
  xc_actor_identity :: "bytes option"
  xc_actor_label :: "str option"
  xc_occurred_at :: str
  xc_topology_generation :: "u64 option"

definition expiry_event ::
    "expiry_context \<Rightarrow> history_event_type \<Rightarrow> history_outcome \<Rightarrow> event_details \<Rightarrow> new_event" where
  "expiry_event context k outcome details =
     \<lparr>n_revision_id = None, n_occurred_at = xc_occurred_at context,
      n_actor_identity = xc_actor_identity context, n_actor_label = xc_actor_label context,
      n_topology_generation = xc_topology_generation context, n_event_type = k, n_outcome = outcome,
      n_details = details\<rparr>"

text \<open>
  \<open>digits(a..b)\<close> and \<open>num(a..b)\<close> read bytes of the value; the length test comes first, so they
  never index out of range, and the digit tests come before \<open>num\<close>, so the slices it takes are at
  character boundaries.
\<close>

definition sub_str :: "str \<Rightarrow> nat \<Rightarrow> nat \<Rightarrow> str" where
  "sub_str s lo hi = take (hi - lo) (drop lo s)"

definition digits_at :: "str \<Rightarrow> nat \<Rightarrow> nat \<Rightarrow> bool" where
  "digits_at s lo hi = list_all is_ascii_digit (sub_str s lo hi)"

definition num_at :: "str \<Rightarrow> nat \<Rightarrow> nat \<Rightarrow> nat" where
  "num_at s lo hi = number (sub_str s lo hi)"

definition is_instant :: "str \<Rightarrow> bool" where
  "is_instant v \<longleftrightarrow>
     length v = 20
     \<and> digits_at v 0 4 \<and> v ! 4 = CHR ''-''
     \<and> digits_at v 5 7 \<and> v ! 7 = CHR ''-''
     \<and> digits_at v 8 10 \<and> v ! 10 = CHR ''T''
     \<and> digits_at v 11 13 \<and> v ! 13 = CHR '':''
     \<and> digits_at v 14 16 \<and> v ! 16 = CHR '':''
     \<and> digits_at v 17 19 \<and> v ! 19 = CHR ''Z''
     \<and> 1 \<le> num_at v 5 7 \<and> num_at v 5 7 \<le> 12
     \<and> 1 \<le> num_at v 8 10 \<and> num_at v 8 10 \<le> 31
     \<and> num_at v 11 13 < 24 \<and> num_at v 14 16 < 60 \<and> num_at v 17 19 < 60"

definition expires_at :: "tracked_file \<Rightarrow> str option" where
  "expires_at f =
     (case List.find (\<lambda>e. e_event_type e = ExpiryScheduled) (rev (tf_events f)) of
        None \<Rightarrow> None
      | Some event \<Rightarrow> map_option snd (List.find (\<lambda>(key, _). key = ''expires_at'') (e_details event)))"

text \<open>Strings compare by their bytes.\<close>

fun str_le :: "str \<Rightarrow> str \<Rightarrow> bool" where
  "str_le [] t = True"
| "str_le (c # s) [] = False"
| "str_le (c # s) (d # t) =
     ((of_char c :: nat) < of_char d \<or> (of_char c :: nat) = of_char d \<and> str_le s t)"

definition is_expired_at :: "str \<Rightarrow> tracked_file \<Rightarrow> bool" where
  "is_expired_at now f = (case expires_at f of None \<Rightarrow> False | Some at \<Rightarrow> str_le at now)"

definition schedule_expiry :: "prims \<Rightarrow> str \<Rightarrow> expiry_context \<Rightarrow> (tracked_file, unit) op" where
  "schedule_expiry P at context f =
     (if is_destroyed f \<or> \<not> is_instant at then (Err InvalidTrackedFile, f)
      else bind_op (append_event P (expiry_event context ExpiryScheduled Info [(''expires_at'', at)]))
             (\<lambda>_. ret ()) f)"

text \<open>The steps \<open>destroy_content\<close> runs once the payloads are gone.\<close>

definition record_destruction :: "prims \<Rightarrow> str \<Rightarrow> nat \<Rightarrow> expiry_context \<Rightarrow> (tracked_file, unit) op" where
  "record_destruction P reason destroyed context =
     bind_op (lift (\<lambda>f. Ok (expires_at f))) (\<lambda>at.
     bind_op (append_event P (expiry_event context FileExpiredEvent Info
         ([(''reason'', reason)] @ (case at of Some t \<Rightarrow> [(''expires_at'', t)] | None \<Rightarrow> [])))) (\<lambda>_.
     bind_op (append_event P (expiry_event context ContentDestroyed Success
         [(''revisions_destroyed'', nat_str destroyed)])) (\<lambda>_.
     bind_op (lift (verify_structure P)) (\<lambda>_. ret ()))))"

fun restore_payloads :: "graph \<Rightarrow> bytes option list \<Rightarrow> graph" where
  "restore_payloads (s # g) (p # ps) = s\<lparr>s_payload := p\<rparr> # restore_payloads g ps"
| "restore_payloads g ps = g"

definition destroy_content :: "prims \<Rightarrow> str \<Rightarrow> expiry_context \<Rightarrow> (tracked_file, nat) op" where
  "destroy_content P reason context f =
     (if is_destroyed f then (Err FileExpired, f)
      else
        let payloads = map s_payload (tf_revisions f);
            destroyed = length (filter (\<lambda>p. p \<noteq> None) payloads);
            emptied = f\<lparr>tf_revisions := map (s_payload_update (\<lambda>_. None)) (tf_revisions f)\<rparr> in
        case atomically (record_destruction P reason destroyed context) emptied of
          (Inl e, f') \<Rightarrow> (Err e, f'\<lparr>tf_revisions := restore_payloads (tf_revisions f') payloads\<rparr>)
        | (Inr _, f') \<Rightarrow> (Ok destroyed, f'))"

definition expire_if_due :: "prims \<Rightarrow> str \<Rightarrow> expiry_context \<Rightarrow> (tracked_file, bool) op" where
  "expire_if_due P now context f =
     (if is_destroyed f \<or> \<not> is_expired_at now f then (Ok False, f)
      else bind_op (destroy_content P ''scheduled expiry passed'' context) (\<lambda>_. ret True) f)"

definition record_expired_access :: "prims \<Rightarrow> str \<Rightarrow> expiry_context \<Rightarrow> (tracked_file, unit) op" where
  "record_expired_access P action context =
     bind_op (append_event P (expiry_event context ExpiredAccessAttempt Event.Denied [(''action'', action)]))
       (\<lambda>_. ret ())"

end
