(* ===== verification/ExpiryFacts.thy ===== *)
theory ExpiryFacts
  imports Expiry
begin

text \<open>
  Expiry is right: comparing times as strings compares the times, an expiry that is due takes
  effect, destroying the content is atomic, and it is final.
\<close>

section \<open>String order is time order\<close>

lemma str_le_refl [simp]: "str_le s s"
  by (induction s) auto

lemma str_le_append:
  "length x = length y \<Longrightarrow> str_le (x @ s) (y @ t) \<longleftrightarrow> (if x = y then str_le s t else str_le x y)"
proof (induction x y rule: list_induct2)
  case (Cons c x d y)
  then show ?case by auto
qed simp

definition digits_val :: "str \<Rightarrow> nat" where
  "digits_val s = foldl (\<lambda>a c. a * 10 + digit_val c) 0 s"

lemma foldl_digits: "foldl (\<lambda>a c. a * 10 + digit_val c) n s = n * 10 ^ length s + digits_val s"
proof (induction s arbitrary: n)
  case (Cons c s)
  have "digits_val (c # s) = foldl (\<lambda>a c. a * 10 + digit_val c) (digit_val c) s" by (simp add: digits_val_def)
  also have "\<dots> = digit_val c * 10 ^ length s + digits_val s" by (rule Cons.IH)
  finally show ?case unfolding foldl_Cons Cons.IH by (simp add: algebra_simps)
qed (simp add: digits_val_def)

lemma digits_val_Cons: "digits_val (c # s) = digit_val c * 10 ^ length s + digits_val s"
  using foldl_digits [of "digit_val c" s] by (simp add: digits_val_def)

lemma digits_val_bound: "list_all is_ascii_digit s \<Longrightarrow> digits_val s < 10 ^ length s"
proof (induction s)
  case (Cons c s)
  then have "digit_val c \<le> 9" "digits_val s < 10 ^ length s" by (auto simp: is_ascii_digit_def digit_val_def)
  then have "digit_val c * 10 ^ length s + digits_val s < 9 * 10 ^ length s + 10 ^ length s"
    by (meson add_le_less_mono mult_le_mono1)
  then show ?case by (simp add: digits_val_Cons)
qed (simp add: digits_val_def)

lemma digits_order:
  "length x = length y \<Longrightarrow> list_all is_ascii_digit x \<Longrightarrow> list_all is_ascii_digit y
    \<Longrightarrow> (str_le x y \<longleftrightarrow> digits_val x \<le> digits_val y) \<and> (x = y \<longleftrightarrow> digits_val x = digits_val y)"
proof (induction x y rule: list_induct2)
  case (Cons c x d y)
  let ?n = "10 ^ length y :: nat"
  have dig: "48 \<le> (of_char c :: nat)" "48 \<le> (of_char d :: nat)" using Cons.prems by (auto simp: is_ascii_digit_def)
  have b: "digits_val x < ?n" "digits_val y < ?n"
    using digits_val_bound [of x] digits_val_bound [of y] Cons by auto
  have less: "p * ?n + u < q * ?n + v" if "p < q" "u < ?n" for p q u v :: nat
  proof -
    have "p * ?n + u < (p + 1) * ?n" using that(2) by simp
    also have "\<dots> \<le> q * ?n" using that(1) by (intro mult_le_mono1) simp
    finally show ?thesis by simp
  qed
  consider "(of_char c :: nat) < of_char d" | "c = d" | "(of_char d :: nat) < of_char c"
    by (metis linorder_cases of_char_eq_iff)
  then show ?case
  proof cases
    case 1
    then have "digit_val c < digit_val d" using dig by (simp add: digit_val_def)
    from less [OF this b(1), of "digits_val y"] 1 Cons.hyps show ?thesis by (auto simp: digits_val_Cons)
  next
    case 2
    with Cons show ?thesis by (auto simp: digits_val_Cons)
  next
    case 3
    then have "digit_val d < digit_val c" using dig by (simp add: digit_val_def)
    from less [OF this b(2), of "digits_val x"] 3 Cons.hyps show ?thesis by (auto simp: digits_val_Cons)
  qed
qed (simp add: digits_val_def)

lemma number_digits:
  assumes "list_all is_ascii_digit s" "s \<noteq> []" "length s \<le> 9"
  shows "number s = digits_val s"
proof -
  have "(10::nat) ^ length s \<le> 10 ^ 9" using assms(3) by (intro power_increasing) auto
  then have "digits_val s < 2 ^ 32" using digits_val_bound [OF assms(1)] by simp
  moreover have "(case s of c # r \<Rightarrow> if c = CHR ''+'' then r else s | [] \<Rightarrow> s) = s"
    using assms(1,2) by (cases s) (auto simp: is_ascii_digit_def)
  ultimately show ?thesis
    using assms(1,2) by (simp add: number_def parse_u32_def Let_def digits_val_def [symmetric])
qed

lemma field_split: "lo \<le> n \<Longrightarrow> n < length v \<Longrightarrow> drop lo v = sub_str v lo n @ v ! n # drop (n + 1) v"
  using append_take_drop_id [of "n - lo" "drop lo v"] by (simp add: sub_str_def Cons_nth_drop_Suc)

text \<open>Year, month, day, hour, minute and second.\<close>

definition instant_fields :: "str \<Rightarrow> nat \<times> nat \<times> nat \<times> nat \<times> nat \<times> nat" where
  "instant_fields v = (num_at v 0 4, num_at v 5 7, num_at v 8 10, num_at v 11 13, num_at v 14 16, num_at v 17 19)"

lemma instant_split:
  assumes "is_instant v"
  shows "v = sub_str v 0 4 @ CHR ''-'' # sub_str v 5 7 @ CHR ''-'' # sub_str v 8 10 @ CHR ''T'' # sub_str v 11 13
    @ CHR '':'' # sub_str v 14 16 @ CHR '':'' # sub_str v 17 19 @ [CHR ''Z'']"
proof -
  from assms have "length v = 20" by (simp add: is_instant_def)
  then show ?thesis
    using assms field_split [of 0 4 v] field_split [of 5 7 v] field_split [of 8 10 v] field_split [of 11 13 v]
      field_split [of 14 16 v] field_split [of 17 19 v]
    by (simp add: is_instant_def)
qed

lemma field_order:
  assumes "digits_at a lo hi" "digits_at b lo hi" "length a = 20" "length b = 20" "lo < hi \<and> hi \<le> 20 \<and> hi - lo \<le> 9"
  shows "str_le (sub_str a lo hi @ c # s) (sub_str b lo hi @ c # t)
    \<longleftrightarrow> num_at a lo hi < num_at b lo hi \<or> num_at a lo hi = num_at b lo hi \<and> str_le s t"
proof -
  have len: "length (sub_str a lo hi) = hi - lo" "length (sub_str b lo hi) = hi - lo"
    using assms(3,4,5) by (auto simp: sub_str_def)
  then have "sub_str a lo hi \<noteq> []" "sub_str b lo hi \<noteq> []" using assms(5) by auto
  then have "num_at a lo hi = digits_val (sub_str a lo hi)" "num_at b lo hi = digits_val (sub_str b lo hi)"
    using assms len number_digits by (auto simp: num_at_def digits_at_def)
  with digits_order [of "sub_str a lo hi" "sub_str b lo hi"] len assms(1,2)
  show ?thesis by (auto simp: digits_at_def str_le_append)
qed

text \<open>
  Two times in the form expiry accepts compare as strings exactly as their years, months,
  days, hours, minutes and seconds compare, so a string comparison decides whether a file has
  expired.
\<close>

lemma instant_order:
  assumes "is_instant a" "is_instant b"
  shows "str_le a b \<longleftrightarrow> instant_fields a \<le> instant_fields b"
proof -
  have len: "length a = 20" "length b = 20" using assms by (simp_all add: is_instant_def)
  have d: "digits_at a 0 4" "digits_at a 5 7" "digits_at a 8 10" "digits_at a 11 13" "digits_at a 14 16" "digits_at a 17 19"
    "digits_at b 0 4" "digits_at b 5 7" "digits_at b 8 10" "digits_at b 11 13" "digits_at b 14 16" "digits_at b 17 19"
    using assms by (simp_all add: is_instant_def)
  note f = field_order [OF d(1,7) len] field_order [OF d(2,8) len] field_order [OF d(3,9) len]
    field_order [OF d(4,10) len] field_order [OF d(5,11) len] field_order [OF d(6,12) len]
  have "str_le a b \<longleftrightarrow> str_le (sub_str a 0 4 @ CHR ''-'' # sub_str a 5 7 @ CHR ''-'' # sub_str a 8 10 @ CHR ''T''
      # sub_str a 11 13 @ CHR '':'' # sub_str a 14 16 @ CHR '':'' # sub_str a 17 19 @ [CHR ''Z''])
     (sub_str b 0 4 @ CHR ''-'' # sub_str b 5 7 @ CHR ''-'' # sub_str b 8 10 @ CHR ''T''
      # sub_str b 11 13 @ CHR '':'' # sub_str b 14 16 @ CHR '':'' # sub_str b 17 19 @ [CHR ''Z''])"
    using instant_split [OF assms(1)] instant_split [OF assms(2)] by simp
  also have "\<dots> \<longleftrightarrow> instant_fields a \<le> instant_fields b"
    by (simp add: f instant_fields_def le_less) blast
  finally show ?thesis .
qed

section \<open>Destroying content\<close>

lemma growing_record_destruction [growing]: "growing_steps (record_destruction P reason n context)"
  unfolding record_destruction_def by (intro growing)

interpretation destruction: growing_steps "record_destruction P reason n ctx" for P reason n ctx
  by (rule growing)

definition emptied :: "tracked_file \<Rightarrow> tracked_file" where
  "emptied f = f\<lparr>tf_revisions := map (s_payload_update (\<lambda>_. None)) (tf_revisions f)\<rparr>"

lemma restore_emptied:
  "restore_payloads (map (s_payload_update (\<lambda>_. None)) g) (map s_payload g) = g"
  by (induction g) auto

definition held_payloads :: "tracked_file \<Rightarrow> nat" where
  "held_payloads f = length (filter (\<lambda>s. s_payload s \<noteq> None) (tf_revisions f))"

lemma destroy_content_eq:
  "destroy_content P reason context f =
     (if is_destroyed f then (Err FileExpired, f)
      else case atomically (record_destruction P reason (held_payloads f) context) (emptied f) of
          (Inl e, f') \<Rightarrow> (Err e, f'\<lparr>tf_revisions := restore_payloads (tf_revisions f') (map s_payload (tf_revisions f))\<rparr>)
        | (Inr _, f') \<Rightarrow> (Ok (held_payloads f), f'))"
proof -
  have "length (filter (\<lambda>p. p \<noteq> None) (map s_payload (tf_revisions f))) = held_payloads f"
    by (simp add: held_payloads_def filter_map comp_def)
  then show ?thesis by (simp only: destroy_content_def Let_def emptied_def)
qed

lemma record_destruction_Ok:
  assumes "record_destruction P reason n context f = (Inr u, f')"
  obtains e1 e2 where "f' = f\<lparr>tf_events := tf_events f @ [e1, e2]\<rparr>" "verify_structure P f' = Ok (history_root P f')"
    "destroys_this_content e2"
proof -
  from assms obtain e1 f1 e2 r where
    1: "append_event P (expiry_event context FileExpiredEvent Info ([(''reason'', reason)]
          @ (case expires_at f of Some t \<Rightarrow> [(''expires_at'', t)] | None \<Rightarrow> []))) f = (Inr e1, f1)"
    and 2: "append_event P (expiry_event context ContentDestroyed Success [(''revisions_destroyed'', nat_str n)]) f1 = (Inr e2, f')"
    and r: "verify_structure P f' = Ok r"
    by (auto simp: record_destruction_def bind_op_Ok_iff simp del: bind_op_lift)
  have "f' = f\<lparr>tf_events := tf_events f @ [e1, e2]\<rparr>"
    using append_event_Ok(1) [OF 1] append_event_Ok(1) [OF 2] by simp
  moreover have "destroys_this_content e2"
    using seal_event_facts [OF append_event_Ok(2) [OF 2]] by (simp add: destroys_this_content_def expiry_event_def)
  moreover have "r = history_root P f'"
    using r chain_root_history_root [of P f'] by (auto simp: verify_structure_iff)
  ultimately show ?thesis using that r by blast
qed

lemma destroy_content_undone:
  assumes "destroy_content P reason context f = (Inl e, f')"
  shows "f' = f"
proof (cases "atomically (record_destruction P reason (held_payloads f) context) (emptied f)")
  case (Pair x g)
  with assms destruction.undone [of P reason "held_payloads f" "context" "emptied f" _ g] show ?thesis
    by (cases x) (auto simp: destroy_content_eq emptied_def restore_emptied split: if_splits)
qed

lemma destroy_content_done:
  assumes "destroy_content P reason context f = (Inr n, f')"
  shows "\<exists>e1 e2. f' = (emptied f)\<lparr>tf_events := tf_events f @ [e1, e2]\<rparr> \<and> destroys_this_content e2
    \<and> verify_structure P f' = Ok (history_root P f') \<and> n = held_payloads f"
proof -
  let ?m = "record_destruction P reason (held_payloads f) context"
  from assms have "atomically ?m (emptied f) = (Inr (), f')" and n: "n = held_payloads f"
    by (auto simp: destroy_content_eq split: if_splits prod.splits sum.splits)
  then have "?m (emptied f) = (Inr (), f')" by (simp add: destruction.done_iff)
  then show ?thesis by (rule record_destruction_Ok) (auto simp: n emptied_def)
qed


section \<open>Expiry takes effect\<close>

text \<open>What a verified chain says of each event: it was hashed, so its fields fit their lengths.\<close>

lemma chain_event_hashed:
  "verify_chain_from P i n p es = Ok r \<Longrightarrow> e \<in> set es \<Longrightarrow> \<exists>h. compute_hash P e = Ok h"
  by (induction es arbitrary: n p) (auto split: if_splits)

lemma push_str_Ok_length: "push_str s = Ok b \<Longrightarrow> length s < 2 ^ 16"
  by (auto simp: push_str_def push_len_prefixed_def as_bytes_def split: if_splits)

lemma details_fit:
  "encode_all push_detail ds = Ok b \<Longrightarrow> (k, v) \<in> set ds \<Longrightarrow> length v < 2 ^ 16"
  by (induction ds arbitrary: b)
     (auto simp: encode_all_Cons push_detail_def push_len_prefixed_def as_bytes_def split: if_splits)

lemma expires_at_fits:
  assumes "verify_chain P (tf_file_id f) (tf_events f) = Ok r" "expires_at f = Some t"
  shows "length t < 2 ^ 16"
proof -
  from assms(2) obtain e k where e: "e \<in> set (tf_events f)" "(k, t) \<in> set (e_details e)"
    by (auto simp: expires_at_def split: option.splits dest!: find_SomeD)
  with assms(1) obtain h where "compute_hash P e = Ok h"
    using chain_event_hashed by (fastforce simp: verify_chain_def)
  then obtain b where "encode_all push_detail (e_details e) = Ok b"
    by (auto simp: compute_hash_def event_body_def split: if_splits)
  from details_fit [OF this e(2)] show ?thesis .
qed

lemma emptied_structure:
  assumes "verify_structure P f = Ok r" "tf_events g = tf_events f @ es" "list_ex destroys_this_content es"
    "g\<lparr>tf_events := tf_events f\<rparr> = emptied f" "verify_chain P (tf_file_id f) (tf_events g) = Ok r'"
    "events_known (tf_revisions f) es"
  shows "verify_structure P g = Ok r'"
proof -
  let ?none = "s_payload_update (\<lambda>_. None) :: stored_revision \<Rightarrow> stored_revision"
  have g: "tf_file_id g = tf_file_id f" "tf_revisions g = map ?none (tf_revisions f)" "tf_proofs g = tf_proofs f"
    "tf_event_proofs g = tf_event_proofs f"
    using arg_cong [OF assms(4), of tf_file_id] arg_cong [OF assms(4), of tf_revisions]
      arg_cong [OF assms(4), of tf_proofs] arg_cong [OF assms(4), of tf_event_proofs] by (simp_all add: emptied_def)
  have ids: "ids (map ?none h) = ids h" for h by (simp add: ids_def image_image)
  have known: "events_known (map ?none h) = events_known h" for h by (simp only: events_known_def [abs_def] ids)
  have get: "get (map ?none h) i = map_option ?none (get h i)" for h i by (induction h) (simp_all add: get_def)
  have pf: "parents_first seen (map ?none h) = parents_first seen h" for h seen
    by (induction h arbitrary: seen) auto
  have "revisions_ok P (tf_file_id f) (map ?none (tf_revisions f))"
    using assms(1) pf by (auto simp: verify_structure_iff revisions_ok_def dag_ok_def single_root_def list_all_iff
        revision_valid_def split: list.splits)
  moreover have "proofs_ok (map ?none (tf_revisions f)) (tf_proofs f)"
    using assms(1) by (auto simp: verify_structure_iff proofs_ok_def proof_known_def get list_all_iff
        split: option.splits)
  moreover have "payloads_ok g" using assms(2,3) g by (auto simp: payloads_ok_def is_destroyed_def list_all_iff)
  moreover have "events_known (tf_revisions g) (tf_events g)" "event_proofs_ok (tf_events g) (tf_event_proofs g)"
    using assms(1,2,6) g event_proofs_ok_append known by (auto simp: verify_structure_iff) (simp add: events_known_def)
  ultimately show ?thesis using g assms(5) by (simp add: verify_structure_iff)
qed


definition context_fits :: "expiry_context \<Rightarrow> bool" where
  "context_fits c \<longleftrightarrow>
     length (xc_occurred_at c) < 2 ^ 16
     \<and> (case xc_actor_label c of None \<Rightarrow> True | Some l \<Rightarrow> length l < 2 ^ 16)"

lemma expiry_event_fits:
  "context_fits c \<Longrightarrow> length ds < 2 ^ 16 \<Longrightarrow> list_all (\<lambda>(k, v). length k < 2 ^ 16 \<and> length v < 2 ^ 16) ds
    \<Longrightarrow> event_fits (expiry_event c k w ds)"
  by (simp add: event_fits_def expiry_event_def context_fits_def)

lemma expiry_event_simps [simp]:
  "n_details (expiry_event c k w ds) = ds" "n_revision_id (expiry_event c k w ds) = None"
  "n_event_type (expiry_event c k w ds) = k"
  by (simp_all add: expiry_event_def)

lemma nat_str_length: "n < 10 ^ k \<Longrightarrow> 0 < k \<Longrightarrow> length (nat_str n) \<le> k"
proof (induction n arbitrary: k rule: nat_str.induct)
  case (1 n)
  show ?case
  proof (cases "n < 10")
    case False
    from "1.prems"(2) obtain m where m: "k = Suc m" by (cases k) auto
    with False "1.prems"(1) have "0 < m" by (cases m) auto
    moreover have "n div 10 < 10 ^ m" using "1.prems"(1) m by (simp add: div_less_iff_less_mult mult.commute)
    ultimately have "length (nat_str (n div 10)) \<le> m" using "1.IH" [OF False] by blast
    with m False show ?thesis by (subst nat_str.simps) simp
  qed (use "1.prems" in \<open>subst nat_str.simps, simp\<close>)
qed

lemma record_destruction_succeeds:
  assumes "verify_structure P f = Ok r" "context_fits c" "length reason < 2 ^ 16" "n < 10 ^ 100"
  shows "\<exists>g. record_destruction P reason n c (emptied f) = (Ok (), g)"
proof -
  let ?ds = "[(''reason'', reason)] @ (case expires_at (emptied f) of Some t \<Rightarrow> [(''expires_at'', t)] | None \<Rightarrow> [])"
  let ?n1 = "expiry_event c FileExpiredEvent Info ?ds"
    and ?n2 = "expiry_event c ContentDestroyed Success [(''revisions_destroyed'', nat_str n)]"
  have chain: "verify_chain P (tf_file_id (emptied f)) (tf_events (emptied f)) = Ok r"
    using assms(1) by (simp add: verify_structure_iff emptied_def)
  have "event_fits ?n1"
    using assms(2,3) expires_at_fits [OF chain] by (intro expiry_event_fits) (auto split: option.splits)
  moreover have "unsafe_key (n_details ?n1) = None"
    by (simp add: unsafe_key_def SAFE_DETAIL_KEYS_def split: option.split)
  ultimately obtain e1 where e1: "append_event P ?n1 (emptied f) = (Ok e1, (emptied f)\<lparr>tf_events := tf_events f @ [e1]\<rparr>)"
    using chain_append_succeeds [OF chain, of ?n1] by (auto simp: emptied_def)
  let ?g1 = "(emptied f)\<lparr>tf_events := tf_events f @ [e1]\<rparr>"
  have chain1: "verify_chain P (tf_file_id ?g1) (tf_events ?g1) = Ok (e_event_hash e1)"
    using append_event_chain [OF e1] by (simp add: emptied_def)
  have "length (nat_str n) \<le> 100" by (rule nat_str_length [OF assms(4)]) simp
  then have "event_fits ?n2" using assms(2) by (intro expiry_event_fits) auto
  moreover have "unsafe_key (n_details ?n2) = None" by (simp add: unsafe_key_def SAFE_DETAIL_KEYS_def)
  ultimately obtain e2 where e2: "append_event P ?n2 ?g1 = (Ok e2, ?g1\<lparr>tf_events := tf_events f @ [e1, e2]\<rparr>)"
    using chain_append_succeeds [OF chain1, of ?n2] by auto
  let ?g2 = "?g1\<lparr>tf_events := tf_events f @ [e1, e2]\<rparr>"
  note s = seal_event_facts [OF append_event_Ok(2) [OF e1]] seal_event_facts [OF append_event_Ok(2) [OF e2]]
  have "verify_structure P ?g2 = Ok (e_event_hash e2)"
    by (rule emptied_structure [OF assms(1), of _ "[e1, e2]"])
       (use s append_event_chain [OF e2] in \<open>simp_all add: emptied_def destroys_this_content_def events_known_def\<close>)
  with e1 e2 show ?thesis by (simp add: record_destruction_def bind_op_def emptied_def)
qed


lemma destroy_content_succeeds:
  assumes "verify_structure P f = Ok r" "\<not> is_destroyed f" "context_fits c" "length reason < 2 ^ 16"
    "length (tf_revisions f) < 2 ^ 64"
  shows "\<exists>f'. destroy_content P reason c f = (Ok (held_payloads f), f')"
proof -
  have "held_payloads f \<le> length (tf_revisions f)" by (simp add: held_payloads_def)
  also have "\<dots> < 10 ^ 100" using assms(5) by simp
  finally obtain g where "record_destruction P reason (held_payloads f) c (emptied f) = (Ok (), g)"
    using record_destruction_succeeds [OF assms(1,3,4)] by blast
  then show ?thesis using assms(2) by (simp add: destroy_content_eq atomically_def)
qed

text \<open>
  C29. An expiry that is due takes effect: on a verified file whose scheduled expiry has passed,
  \<open>expire_if_due\<close> succeeds, leaves no payload, and leaves a file that verifies.
\<close>

theorem expiry_takes_effect:
  assumes "verify_structure P f = Ok r" "\<not> is_destroyed f" "is_expired_at now f" "context_fits c"
    "length (tf_revisions f) < 2 ^ 64"
  shows "\<exists>f'. expire_if_due P now c f = (Ok True, f') \<and> is_destroyed f'
    \<and> (\<forall>s \<in> set (tf_revisions f'). s_payload s = None) \<and> verify_structure P f' = Ok (history_root P f')"
proof -
  obtain f' where f': "destroy_content P ''scheduled expiry passed'' c f = (Ok (held_payloads f), f')"
    using destroy_content_succeeds [OF assms(1,2,4) _ assms(5)] by fastforce
  then have "expire_if_due P now c f = (Ok True, f')"
    using assms(2,3) by (simp add: expire_if_due_def bind_op_def)
  with destroy_content_done [OF f'] show ?thesis by (auto simp: emptied_def is_destroyed_def)
qed

text \<open>
  Destruction is final: in every file that extends a destroyed one, checking in, destroying
  again and rescheduling are refused and change nothing.
\<close>

lemma destroyed_is_final:
  assumes "is_destroyed f" "grows f g"
  shows "is_destroyed g \<and> check_in P new payload g = (Err FileExpired, g)
    \<and> destroy_content P reason c g = (Err FileExpired, g) \<and> schedule_expiry P at c g = (Err InvalidTrackedFile, g)"
proof -
  from assms have "is_destroyed g"
    by (auto simp: is_destroyed_def grows_def list_ex_iff) (metis in_set_takeD)
  then show ?thesis by (simp add: check_in_def destroy_content_def schedule_expiry_def Let_def)
qed

section \<open>Sample\<close>

definition sample_context :: expiry_context where
  "sample_context =
     \<lparr>xc_actor_identity = Some (replicate 16 2), xc_actor_label = Some ''A.1'',
      xc_occurred_at = ''2026-01-02T00:00:00Z'', xc_topology_generation = Some 3\<rparr>"

lemma sample_instant: "is_instant ''2026-01-01T12:00:00Z''"
  by (simp add: is_instant_def digits_at_def num_at_def sub_str_def number_def parse_u32_def is_ascii_digit_def
      digit_val_def nth_Cons')

lemma sample_file_sound: "sound_file toy_prims sample_file"
  using sample_file_ok sample_file_structure by (simp add: sound_file_def)

lemma sample_file_live: "\<not> is_destroyed sample_file" "length (tf_revisions sample_file) < 2 ^ 64" "tf_events sample_file = []"
    "tf_revisions sample_file \<noteq> []"
proof -
  obtain s where s: "sample_file = sample_start\<lparr>tf_revisions := [s]\<rparr>"
    using sample_check_in by (auto elim!: check_in_Ok simp: sample_start_def new_file_def)
  show "\<not> is_destroyed sample_file" "length (tf_revisions sample_file) < 2 ^ 64" "tf_events sample_file = []"
    "tf_revisions sample_file \<noteq> []"
    by (simp_all add: s is_destroyed_def sample_start_def new_file_def)
qed

lemma sample_scheduled:
  "\<exists>f. schedule_expiry toy_prims ''2026-01-01T12:00:00Z'' sample_context sample_file = (Ok (), f)
     \<and> sound_file toy_prims f \<and> \<not> is_destroyed f \<and> length (tf_revisions f) < 2 ^ 64
     \<and> is_expired_at ''2026-01-02T00:00:00Z'' f"
proof -
  let ?n = "expiry_event sample_context ExpiryScheduled Info [(''expires_at'', ''2026-01-01T12:00:00Z'')]"
  have "event_fits ?n" by (simp add: event_fits_def expiry_event_def sample_context_def)
  moreover have "unsafe_key (n_details ?n) = None" by (simp add: unsafe_key_def SAFE_DETAIL_KEYS_def)
  ultimately obtain e where e: "append_event toy_prims ?n sample_file = (Ok e, sample_file\<lparr>tf_events := [e]\<rparr>)"
    using sound_append_succeeds [OF sample_file_sound, of ?n] sample_file_live(3) by auto
  let ?f = "sample_file\<lparr>tf_events := [e]\<rparr>"
  note s = seal_event_facts [OF append_event_Ok(2) [OF e]]
  have "keeps_sound toy_prims (append_event toy_prims ?n) event_ok"
    by (rule keeps_append_event)
       (simp_all add: new_event_ok_def expiry_event_def sample_context_def opt_sized_def opt_str_ok_def str_ok_ascii)
  then have "sound_file toy_prims ?f" using e sample_file_sound by (auto simp: keeps_sound_def)
  moreover have "is_expired_at ''2026-01-02T00:00:00Z'' ?f"
    using s by (simp add: is_expired_at_def expires_at_def)
  moreover have "\<not> is_destroyed ?f" using s by (simp add: is_destroyed_def destroys_this_content_def)
  ultimately show ?thesis
    using e sample_instant sample_file_live by (auto simp: schedule_expiry_def bind_op_def)
qed

lemma sample_later: "is_instant ''2026-01-02T00:00:00Z''"
  by (simp add: is_instant_def digits_at_def num_at_def sub_str_def number_def parse_u32_def is_ascii_digit_def
      digit_val_def nth_Cons')

theorem expiry_takes_effect_witness:
  "\<exists>f f'. expire_if_due toy_prims ''2026-01-02T00:00:00Z'' sample_context f = (Ok True, f') \<and> is_destroyed f'"
proof -
  obtain f r where f: "verify_structure toy_prims f = Ok r" "\<not> is_destroyed f" "is_expired_at ''2026-01-02T00:00:00Z'' f"
    "length (tf_revisions f) < 2 ^ 64"
    using sample_scheduled by (auto simp: sound_file_def)
  have "context_fits sample_context" by (simp add: context_fits_def sample_context_def)
  from expiry_takes_effect [OF f(1-3) this f(4)] show ?thesis by blast
qed

lemma sample_destroyed: "\<exists>f. destroy_content toy_prims ''test'' sample_context sample_file = (Ok (held_payloads sample_file), f)"
proof -
  have "context_fits sample_context" by (simp add: context_fits_def sample_context_def)
  with sample_file_sound sample_file_live show ?thesis
    using destroy_content_succeeds [of toy_prims sample_file _ sample_context "''test''"] by (auto simp: sound_file_def)
qed


end
