(* ===== verification/Snapshot.thy ===== *)
theory Snapshot
  imports ContainerCodec Atomic
begin

text \<open>
  The portable event history of a file, \<open>src/file_history/snapshot.rs\<close>: the KQHS encoding and the
  test whether a snapshot is a point another history passed through.
\<close>

definition SNAPSHOT_MAGIC :: bytes where "SNAPSHOT_MAGIC = as_bytes ''KQHS''"
definition SNAPSHOT_VERSION :: u8 where "SNAPSHOT_VERSION = 1"

record snapshot =
  hs_file_id :: bytes
  hs_history_root :: bytes
  hs_events :: "history_event list"

definition history_snapshot :: "prims \<Rightarrow> tracked_file \<Rightarrow> snapshot" where
  "history_snapshot P f =
     \<lparr>hs_file_id = tf_file_id f, hs_history_root = history_root P f, hs_events = tf_events f\<rparr>"

definition snapshot_encode :: "prims \<Rightarrow> snapshot \<Rightarrow> bytes result" where
  "snapshot_encode P s =
     and_then (verify_chain P (hs_file_id s) (hs_events s)) (\<lambda>root.
     if root \<noteq> hs_history_root s then Err InvalidTrackedFile
     else and_then (count_u32 (hs_events s)) (\<lambda>count.
       and_then (encode_all encode_event (hs_events s)) (\<lambda>events.
       Ok (SNAPSHOT_MAGIC @ [SNAPSHOT_VERSION] @ hs_file_id s @ hs_history_root s @ count @ events))))"

definition snapshot_decode :: "prims \<Rightarrow> bytes \<Rightarrow> snapshot result" where
  "snapshot_decode P bs =
     and_then (take_fixed 4 bs) (\<lambda>(magic, data).
     if magic \<noteq> SNAPSHOT_MAGIC then Err InvalidTrackedFile
     else and_then (take_fixed 1 data) (\<lambda>(version, data).
     if version \<noteq> [SNAPSHOT_VERSION] then Err InvalidTrackedFile
     else and_then (take_fixed 16 data) (\<lambda>(file_id, data).
     and_then (take_fixed 32 data) (\<lambda>(root, data).
     and_then (take_count data) (\<lambda>(count, data).
     and_then (decode_many decode_event count data) (\<lambda>(events, data).
     if data \<noteq> [] then Err InvalidTrackedFile
     else and_then (verify_chain P file_id events) (\<lambda>found.
       if found \<noteq> root then Err InvalidTrackedFile
       else Ok \<lparr>hs_file_id = file_id, hs_history_root = root, hs_events = events\<rparr>)))))))"

definition is_prefix_of_events :: "prims \<Rightarrow> snapshot \<Rightarrow> bytes \<Rightarrow> history_event list \<Rightarrow> bool" where
  "is_prefix_of_events P s i events \<longleftrightarrow>
     hs_file_id s = i \<and> length events \<ge> length (hs_events s)
     \<and> take (length (hs_events s)) events = hs_events s
     \<and> (hs_events s = [] \<and> hs_history_root s = genesis_hash P (hs_file_id s)
        \<or> (if hs_events s = [] then None else Some (e_event_hash (last (hs_events s)))) = Some (hs_history_root s))"

definition is_prefix_of :: "prims \<Rightarrow> snapshot \<Rightarrow> tracked_file \<Rightarrow> bool" where
  "is_prefix_of P s f = is_prefix_of_events P s (tf_file_id f) (tf_events f)"

definition is_prefix_of_snapshot :: "prims \<Rightarrow> snapshot \<Rightarrow> snapshot \<Rightarrow> bool" where
  "is_prefix_of_snapshot P s later = is_prefix_of_events P s (hs_file_id later) (hs_events later)"

definition from_events :: "prims \<Rightarrow> bytes \<Rightarrow> history_event list \<Rightarrow> snapshot result" where
  "from_events P history_id events =
     and_then (verify_chain P history_id events) (\<lambda>root.
     Ok \<lparr>hs_file_id = history_id, hs_history_root = root, hs_events = events\<rparr>)"

section \<open>Properties\<close>

definition snapshot_ok :: "snapshot \<Rightarrow> bool" where
  "snapshot_ok s \<longleftrightarrow> length (hs_file_id s) = 16 \<and> length (hs_history_root s) = 32 \<and> list_all event_ok (hs_events s)"

lemma snapshot_encode_Ok_iff:
  "snapshot_encode P s = Ok b \<longleftrightarrow>
     verify_chain P (hs_file_id s) (hs_events s) = Ok (hs_history_root s)
     \<and> (\<exists>c. encode_counted encode_event (hs_events s) = Ok c
          \<and> b = SNAPSHOT_MAGIC @ [SNAPSHOT_VERSION] @ hs_file_id s @ hs_history_root s @ c)"
  by (auto simp: snapshot_encode_def encode_counted_def split: if_splits)

lemma decode_encode_snapshot:
  assumes "snapshot_encode P s = Ok b" "snapshot_ok s"
  shows "snapshot_decode P b = Ok s"
proof -
  from assms(1) obtain c where chain: "verify_chain P (hs_file_id s) (hs_events s) = Ok (hs_history_root s)"
    and c: "encode_counted encode_event (hs_events s) = Ok c"
    and b: "b = SNAPSHOT_MAGIC @ [SNAPSHOT_VERSION] @ hs_file_id s @ hs_history_root s @ c"
    by (auto simp: snapshot_encode_Ok_iff)
  from take_count_counted [OF c] obtain e where e: "encode_all encode_event (hs_events s) = Ok e"
    "\<And>rest. take_count (c @ rest) = Ok (length (hs_events s), e @ rest)" by blast
  have "decode_many decode_event (length (hs_events s)) (e @ []) = Ok (hs_events s, [])"
    by (rule event_codec.decode_all [OF _ e(1)]) (use assms(2) in \<open>simp add: snapshot_ok_def list_all_iff\<close>)
  moreover have "length SNAPSHOT_MAGIC = 4" by (simp add: SNAPSHOT_MAGIC_def)
  ultimately show ?thesis
    using assms(2) chain e(2) [of "[]"] by (simp add: snapshot_decode_def b take_fixed_append take_fixed_1 snapshot_ok_def)
qed


lemma snapshot_decode_OkD:
  assumes "snapshot_decode P b = Ok s"
  shows "snapshot_encode P s = Ok b \<and> snapshot_ok s"
proof -
  from assms obtain d n d' where b: "b = SNAPSHOT_MAGIC @ [SNAPSHOT_VERSION] @ hs_file_id s @ hs_history_root s @ d"
    and sizes: "length (hs_file_id s) = 16" "length (hs_history_root s) = 32"
    and events: "take_count d = Ok (n, d')" "decode_many decode_event n d' = Ok (hs_events s, [])"
    and chain: "verify_chain P (hs_file_id s) (hs_events s) = Ok (hs_history_root s)"
    by (auto simp: snapshot_decode_def dest!: take_fixed_OkD split: if_splits)
  from decode_counted_OkD [OF event_codec.canonical_codec_axioms events]
  show ?thesis using b sizes chain by (auto simp: snapshot_encode_Ok_iff snapshot_ok_def)
qed

text \<open>
  C24. A snapshot has one encoding, and only verified snapshots have one: bytes decode to a
  snapshot exactly when they are what it encodes to.
\<close>

theorem snapshot_canonical:
  "snapshot_decode P b = Ok s \<longleftrightarrow> snapshot_ok s \<and> snapshot_encode P s = Ok b"
  using decode_encode_snapshot snapshot_decode_OkD by blast

text \<open>
  A file's snapshot is a point that every extension of the file passes through, and a snapshot that
  is a prefix of a file is the file's own snapshot at that point.
\<close>

lemma snapshot_prefix_of_extension:
  "tf_file_id f' = tf_file_id f \<Longrightarrow> tf_events f' = tf_events f @ es \<Longrightarrow> is_prefix_of P (history_snapshot P f) f'"
  by (auto simp: is_prefix_of_def is_prefix_of_events_def history_snapshot_def history_root_def
      dest: take_eq_length)

lemma prefix_is_own_snapshot:
  assumes "is_prefix_of P s f"
  shows "s = history_snapshot P (f\<lparr>tf_events := take (length (hs_events s)) (tf_events f)\<rparr>)"
  using assms
  by (auto simp: is_prefix_of_def is_prefix_of_events_def history_snapshot_def history_root_def split: if_splits list.splits)

end
