(* ===== verification/Workflow.thy ===== *)
theory Workflow
  imports ProofFacts ResolveFacts SyncFacts ExpiryFacts Snapshot
begin

text \<open>
  The life of a tracked file: the operations of \<open>src/file_history\<close> that change a file, as the
  steps of one transition system. Every file that a sequence of operations can reach verifies, its
  history is only ever extended, and destroyed content never returns.
\<close>

section \<open>The expiry operations keep a file sound\<close>

definition expiry_context_ok :: "expiry_context \<Rightarrow> bool" where
  "expiry_context_ok c \<longleftrightarrow>
     opt_sized 16 (xc_actor_identity c) \<and> opt_str_ok (xc_actor_label c) \<and> str_ok (xc_occurred_at c)"

lemma expiry_event_ok:
  assumes "expiry_context_ok c" "list_all (\<lambda>(k, v). str_ok k \<and> str_ok v) details"
  shows "new_event_ok (expiry_event c k outcome details)"
  using assms by (simp add: new_event_ok_def expiry_event_def expiry_context_ok_def opt_sized_def)

lemma keeps_sound_op:
  assumes "pre \<Longrightarrow> keeps_sound P m Q" "\<And>f e f'. m f = (Inl e, f') \<Longrightarrow> f' = f"
  shows "sound_op P pre m"
proof
  fix f assume "pre" "sound_file P f"
  with assms(1) assms(2) [of f] show "sound_file P (snd (m f))"
    by (cases "m f"; cases "fst (m f)") (auto simp: keeps_sound_def)
qed

lemma append_then_ret_undone: "bind_op (append_event P n) (\<lambda>_. ret x) f = (Inl e, f') \<Longrightarrow> f' = f"
  by (auto simp: bind_op_def dest: append_event_Err split: prod.splits sum.splits)

lemma keeps_expiry_event:
  assumes "prims_ok P" "expiry_context_ok c" "k \<noteq> ContentDestroyed" "list_all (\<lambda>(k, v). str_ok k \<and> str_ok v) details"
  shows "keeps_sound P (bind_op (append_event P (expiry_event c k outcome details)) (\<lambda>_. ret ())) (\<lambda>_. True)"
  by (rule keeps_bind [OF keeps_append_event [OF assms(1) expiry_event_ok [OF assms(2,4)]]])
     (simp_all add: assms(3) keeps_ret)

interpretation accessing: sound_op P "prims_ok P \<and> expiry_context_ok c \<and> str_ok action" "record_expired_access P action c"
  for P c action
  unfolding record_expired_access_def
  by (rule keeps_sound_op [where Q = "\<lambda>_. True"])
     (auto intro: keeps_expiry_event append_then_ret_undone simp: str_ok_ascii)

interpretation scheduling: sound_op P "prims_ok P \<and> expiry_context_ok c \<and> str_ok at" "schedule_expiry P at c"
  for P c at
proof
  fix f assume pre: "prims_ok P \<and> expiry_context_ok c \<and> str_ok at" and f: "sound_file P f"
  let ?m = "bind_op (append_event P (expiry_event c ExpiryScheduled Info [(''expires_at'', at)])) (\<lambda>_. ret ())"
  have "sound_op P True ?m"
    using pre by (intro keeps_sound_op [where Q = "\<lambda>_. True"] keeps_expiry_event append_then_ret_undone)
      (auto simp: str_ok_ascii)
  from sound_op.keeps [OF this _ f] f show "sound_file P (snd (schedule_expiry P at c f))"
    by (simp add: schedule_expiry_def)
qed

lemma expires_at_ok: "file_ok f \<Longrightarrow> expires_at f = Some t \<Longrightarrow> str_ok t"
  by (fastforce simp: expires_at_def file_ok_def event_ok_def list_all_iff split: option.splits dest!: find_SomeD)

lemma record_destruction_file_ok:
  assumes "record_destruction P reason n c f = (Inr u, f')" "prims_ok P" "expiry_context_ok c" "str_ok reason" "file_ok f"
  shows "file_ok f'"
proof -
  from assms(1) obtain e1 f1 e2 where
    1: "append_event P (expiry_event c FileExpiredEvent Info ([(''reason'', reason)]
          @ (case expires_at f of Some t \<Rightarrow> [(''expires_at'', t)] | None \<Rightarrow> []))) f = (Inr e1, f1)"
    and 2: "append_event P (expiry_event c ContentDestroyed Success [(''revisions_destroyed'', nat_str n)]) f1 = (Inr e2, f')"
    by (auto simp: record_destruction_def bind_op_Ok_iff simp del: bind_op_lift)
  have sized: "sized_prims P" using assms(2) by (simp add: prims_ok_def)
  have "file_ok f1"
    using assms(3,4) expires_at_ok [OF assms(5)]
    by (intro append_event_file_ok(1) [OF 1 assms(5) _ sized] expiry_event_ok) (auto simp: str_ok_ascii split: option.split)
  then show ?thesis
    using assms(3) nat_str_ok by (intro append_event_file_ok(1) [OF 2 _ _ sized] expiry_event_ok) (auto simp: str_ok_ascii)
qed

interpretation destroying: sound_op P "prims_ok P \<and> expiry_context_ok c \<and> str_ok reason" "destroy_content P reason c"
  for P c reason
proof
  fix f assume pre: "prims_ok P \<and> expiry_context_ok c \<and> str_ok reason" and f: "sound_file P f"
  show "sound_file P (snd (destroy_content P reason c f))"
  proof (cases "destroy_content P reason c f")
    case (Pair r f')
    show ?thesis
    proof (cases r)
      case (Inl e)
      with Pair f destroy_content_undone [of P reason c f e f'] show ?thesis by simp
    next
      case (Inr n)
      with Pair have "record_destruction P reason (held_payloads f) c (emptied f) = (Inr (), f')"
        by (auto simp: destroy_content_eq destruction.done_iff [symmetric] split: if_splits prod.splits sum.splits)
      moreover have "file_ok (emptied f)"
        using f by (auto simp: sound_file_def file_ok_def emptied_def list_all_iff stored_ok_def)
      ultimately have "file_ok f'" using record_destruction_file_ok pre by blast
      with destroy_content_done [of P reason c f n f'] Pair Inr show ?thesis by (auto simp: sound_file_def)
    qed
  qed
qed

lemma snd_bind_ret: "snd (bind_op m (\<lambda>_. ret x) f) = snd (m f)"
  by (cases "m f"; cases "fst (m f)") (auto simp: bind_op_def)

interpretation expiring: sound_op P "prims_ok P \<and> expiry_context_ok c" "expire_if_due P now c"
  for P c now
proof
  fix f assume pre: "prims_ok P \<and> expiry_context_ok c" and f: "sound_file P f"
  have "sound_file P (snd (destroy_content P ''scheduled expiry passed'' c f))"
    using pre f by (intro destroying.keeps) (simp_all add: str_ok_ascii)
  with f show "sound_file P (snd (expire_if_due P now c f))" by (simp add: expire_if_due_def snd_bind_ret)
qed


section \<open>Steps\<close>

text \<open>
  One rule per operation, with the arguments an operation is called with: identities, ids and
  signatures of their sizes, and valid strings. An operation that fails is a step too; its file is
  the one it leaves behind. Recording an arbitrary event leaves out the event that declares the
  content destroyed, which only \<open>destroy_content\<close> writes.
\<close>

inductive step :: "prims \<Rightarrow> tracked_file \<Rightarrow> tracked_file \<Rightarrow> bool" for P where
  check_in: "new_revision_ok new \<Longrightarrow> step P f (snd (check_in P new payload f))"
| append: "new_event_ok n \<Longrightarrow> n_event_type n \<noteq> ContentDestroyed \<Longrightarrow> step P f (snd (append_event P n f))"
| sign_event: "length who = 16 \<Longrightarrow> str_ok label \<Longrightarrow> step P f (snd (sign_event P k who label secret f))"
| sign_revision: "length who = 16 \<Longrightarrow> str_ok label \<Longrightarrow> step P f (snd (sign_revision P i who label secret f))"
| finalize: "length who = 16 \<Longrightarrow> str_ok label \<Longrightarrow> step P f (snd (finalize_revision P i who label secret f))"
| countersign: "length who = 16 \<Longrightarrow> str_ok label \<Longrightarrow>
    step P f (snd (countersign_revision_checked P ctx i who label secret f))"
| coauthor: "length who = 16 \<Longrightarrow> str_ok label \<Longrightarrow> step P f (snd (coauthor_revision P ctx i who label secret f))"
| attach: "length who = 16 \<Longrightarrow> str_ok label \<Longrightarrow> length h = 32 \<Longrightarrow> length sig = 64 \<Longrightarrow>
    step P f (snd (attach_coauthor_signature P i h who label sig f))"
| auto_merge: "new_revision_ok new \<Longrightarrow> length left = 32 \<Longrightarrow> length right = 32 \<Longrightarrow>
    step P f (snd (auto_merge P left right allowed new f))"
| resolve_divergence: "new_revision_ok new \<Longrightarrow> length left = 32 \<Longrightarrow> length right = 32 \<Longrightarrow>
    step P f (snd (resolve_divergence P ctx policy left right allowed new f))"
| resolve_conflict: "new_revision_ok new \<Longrightarrow> step P f (snd (resolve_conflict P ctx policy resolution new f))"
| reject_merge: "new_event_ok actor \<Longrightarrow> length i = 32 \<Longrightarrow> step P f (snd (reject_merge P ctx policy i actor f))"
| merge_history: "file_ok other \<Longrightarrow> import_context_ok ic \<Longrightarrow> step P f (snd (merge_history P other ic f))"
| schedule_expiry: "expiry_context_ok c \<Longrightarrow> str_ok at \<Longrightarrow> step P f (snd (schedule_expiry P at c f))"
| destroy_content: "expiry_context_ok c \<Longrightarrow> str_ok reason \<Longrightarrow> step P f (snd (destroy_content P reason c f))"
| expire_if_due: "expiry_context_ok c \<Longrightarrow> step P f (snd (expire_if_due P now c f))"
| record_expired_access: "expiry_context_ok c \<Longrightarrow> str_ok action \<Longrightarrow> step P f (snd (record_expired_access P action c f))"

text \<open>A file starts empty, with or without a policy.\<close>

inductive reachable :: "prims \<Rightarrow> tracked_file \<Rightarrow> bool" for P where
  start: "length i = 16 \<Longrightarrow> str_ok name \<Longrightarrow> reachable P (new_file i name)"
| start_with_policy: "length i = 16 \<Longrightarrow> str_ok name \<Longrightarrow> policy_ok policy \<Longrightarrow> reachable P (with_policy i name policy)"
| step: "reachable P f \<Longrightarrow> step P f g \<Longrightarrow> reachable P g"

lemma keeps_sound_snd:
  assumes "keeps_sound P m Q" "\<And>e f'. m f = (Inl e, f') \<Longrightarrow> f' = f" "sound_file P f"
  shows "sound_file P (snd (m f))"
  using assms(1,3) assms(2) by (cases "m f"; cases "fst (m f)") (auto simp: keeps_sound_def)

lemma merge_history_sound:
  assumes "prims_ok P" "file_ok other" "import_context_ok c" "sound_file P f"
  shows "sound_file P (snd (merge_history P other c f))"
  using assms importing.all_or_nothing.keeps [of P other c f] by (auto simp: merge_history_def split: sum.split)

lemma step_sound:
  assumes "step P f g" "prims_ok P" "sound_file P f"
  shows "sound_file P g"
  using assms
proof (induction rule: step.induct)
  case (check_in new f payload)
  then show ?case by (intro keeps_sound_snd [OF keeps_check_in]) (auto dest: check_in_Err)
next
  case (append n f)
  then show ?case by (intro keeps_sound_snd [OF keeps_append_event]) (auto dest: append_event_Err)
qed (auto simp: auto_merge_def resolve_divergence_def resolve_conflict_def
    intro: signing.keeps event_signing.keeps finalizing.keeps countersigning.keeps coauthoring.keeps attaching.keeps
      merging.all_or_nothing.keeps diverging.all_or_nothing.keeps resolving.all_or_nothing.keeps rejecting.keeps
      merge_history_sound scheduling.keeps destroying.keeps expiring.keeps accessing.keeps)

lemma new_file_sound: "length i = 16 \<Longrightarrow> str_ok name \<Longrightarrow> sound_file P (new_file i name)"
  by (simp add: sound_file_def file_ok_def new_file_def verify_structure_def verify_chain_def)

lemma with_policy_sound: "length i = 16 \<Longrightarrow> str_ok name \<Longrightarrow> policy_ok p \<Longrightarrow> sound_file P (with_policy i name p)"
  by (simp add: sound_file_def file_ok_def new_file_def with_policy_def verify_structure_def verify_chain_def)

lemma reachable_sound: "reachable P f \<Longrightarrow> prims_ok P \<Longrightarrow> sound_file P f"
  by (induction rule: reachable.induct) (auto intro: new_file_sound with_policy_sound step_sound)

end
