(* ===== verification/Ledger.thy ===== *)
theory Ledger
  imports Workflow
begin

text \<open>
  What a tracked file promises, without its proofs and checks: a ledger of revisions and
  events that is only ever extended, that takes new revisions only while its content is there, and
  whose sealing, the destruction of the content, erases every payload and is one-way. Every operation of the file refines a
  step of the ledger.
\<close>

section \<open>The ledger\<close>

record ledger =
  lg_file :: "bytes \<times> str \<times> file_policy option"
  lg_revisions :: "stored_revision list"
  lg_events :: "history_event list"
  lg_sealed :: bool

inductive ledger_step :: "ledger \<Rightarrow> ledger \<Rightarrow> bool" where
  log: "ledger_step l (l\<lparr>lg_events := lg_events l @ es\<rparr>)"
| extend: "\<not> lg_sealed l \<Longrightarrow>
    ledger_step l (l\<lparr>lg_revisions := lg_revisions l @ rs, lg_events := lg_events l @ es\<rparr>)"
| seal: "\<not> lg_sealed l \<Longrightarrow>
    ledger_step l (l\<lparr>lg_revisions := map (s_payload_update (\<lambda>_. None)) (lg_revisions l),
      lg_events := lg_events l @ es, lg_sealed := True\<rparr>)"

inductive_cases ledger_stepE: "ledger_step l m"

definition ledger_of :: "tracked_file \<Rightarrow> ledger" where
  "ledger_of f =
     \<lparr>lg_file = (tf_file_id f, tf_logical_name f, tf_policy f), lg_revisions = tf_revisions f,
      lg_events = tf_events f, lg_sealed = is_destroyed f\<rparr>"

text \<open>What the steps of a ledger, any number of them, keep.\<close>

lemma ledger_steps_keep:
  assumes "ledger_step\<^sup>*\<^sup>* l m"
  shows "lg_file m = lg_file l \<and> prefix (map s_revision (lg_revisions l)) (map s_revision (lg_revisions m)) \<and> prefix (lg_events l) (lg_events m)
    \<and> (lg_sealed l \<longrightarrow> lg_sealed m \<and> lg_revisions m = lg_revisions l)"
  using assms
proof (induction rule: rtranclp_induct)
  case (step m n)
  from step.hyps(2) show ?case
    by (rule ledger_stepE) (use step.IH in \<open>auto simp: comp_def intro: prefix_order.trans\<close>)
qed simp

definition erased :: "ledger \<Rightarrow> bool" where
  "erased l \<longleftrightarrow> (lg_sealed l \<longrightarrow> (\<forall>s \<in> set (lg_revisions l). s_payload s = None))"

lemma ledger_step_erased: "ledger_step l m \<Longrightarrow> erased l \<Longrightarrow> erased m"
  by (erule ledger_stepE) (auto simp: erased_def)

section \<open>Lawful operations\<close>

text \<open>
  An operation that neither seals nor unseals, and adds revisions only while the content is there,
  whether it succeeds or fails.
\<close>

definition lawful :: "(tracked_file, 'a) op \<Rightarrow> bool" where
  "lawful m \<longleftrightarrow> (\<forall>f. grows f (snd (m f)) \<and> is_destroyed (snd (m f)) = is_destroyed f
     \<and> (is_destroyed f \<longrightarrow> tf_revisions (snd (m f)) = tf_revisions f))"

named_theorems lawful_intros

lemma lawful_basic [lawful_intros]: "lawful (ret x)" "lawful (fail e)" "lawful (lift g)"
  by (auto simp: lawful_def ret_def fail_def lift_def)

lemma lawful_bind [lawful_intros]:
  assumes "lawful m" "\<And>x. lawful (k x)"
  shows "lawful (bind_op m k)"
  unfolding lawful_def
proof
  fix f
  have m: "grows f (snd (m f))" "is_destroyed (snd (m f)) = is_destroyed f"
    "is_destroyed f \<longrightarrow> tf_revisions (snd (m f)) = tf_revisions f"
    using assms(1) by (auto simp: lawful_def)
  have k: "grows g (snd (k x g))" "is_destroyed (snd (k x g)) = is_destroyed g"
    "is_destroyed g \<longrightarrow> tf_revisions (snd (k x g)) = tf_revisions g" for x g
    using assms(2) by (auto simp: lawful_def)
  show "grows f (snd (bind_op m k f)) \<and> is_destroyed (snd (bind_op m k f)) = is_destroyed f
     \<and> (is_destroyed f \<longrightarrow> tf_revisions (snd (bind_op m k f)) = tf_revisions f)"
    using m k by (cases "m f"; cases "fst (m f)") (auto simp: bind_op_def intro: grows_trans)
qed

lemma lawful_split [lawful_intros]:
  "(b \<Longrightarrow> lawful m) \<Longrightarrow> (\<not> b \<Longrightarrow> lawful m') \<Longrightarrow> lawful (if b then m else m')"
  "lawful m1 \<Longrightarrow> (\<And>x. lawful (m2 x)) \<Longrightarrow> lawful (case y of None \<Rightarrow> m1 | Some x \<Rightarrow> m2 x)"
  "(\<And>a b. lawful (m3 a b)) \<Longrightarrow> lawful (case z of (a, b) \<Rightarrow> m3 a b)"
  by (auto split: option.split prod.split)

lemma lawful_atomically [lawful_intros]:
  assumes "lawful m"
  shows "lawful (atomically m)"
proof -
  from assms have g: "growing_steps m" by (auto simp: lawful_def growing_steps_def)
  have "snd (atomically m f) = f \<or> snd (atomically m f) = snd (m f)" for f
  proof (cases "atomically m f")
    case (Pair r f')
    show ?thesis
    proof (cases r)
      case (Inl e)
      with Pair growing_steps.undone [OF g, of f e f'] show ?thesis by simp
    next
      case (Inr x)
      with Pair have "m f = (Inr x, f')" using growing_steps.done_iff [OF g, of f x f'] by simp
      with Pair show ?thesis by simp
    qed
  qed
  then show ?thesis
    unfolding lawful_def using assms [unfolded lawful_def] grows_refl by metis
qed

lemma lawful_append_event [lawful_intros]:
  assumes "n_event_type n \<noteq> ContentDestroyed"
  shows "lawful (append_event P n)"
  unfolding lawful_def
proof
  fix f
  show "grows f (snd (append_event P n f)) \<and> is_destroyed (snd (append_event P n f)) = is_destroyed f
     \<and> (is_destroyed f \<longrightarrow> tf_revisions (snd (append_event P n f)) = tf_revisions f)"
  proof (cases "append_event P n f")
    case (Pair r f')
    show ?thesis
    proof (cases r)
      case (Inl e)
      with Pair append_event_Err [of P n f e f'] show ?thesis by simp
    next
      case (Inr e)
      with Pair have e: "append_event P n f = (Inr e, f')" by simp
      have "\<not> destroys_this_content e"
        using seal_event_facts [OF append_event_Ok(2) [OF e]] assms by (simp add: destroys_this_content_def)
      with Pair append_event_Ok(1) [OF e] grows_append_event [OF e] show ?thesis by (simp add: is_destroyed_def)
    qed
  qed
qed

lemma lawful_check_in [lawful_intros]: "lawful (check_in P new payload)"
proof -
  have "grows f (snd (check_in P new payload f))" for f
    using grows_check_in [of P new payload f] by (cases "check_in P new payload f") simp
  moreover have "tf_events (snd (check_in P new payload f)) = tf_events f
      \<and> (is_destroyed f \<longrightarrow> snd (check_in P new payload f) = f)" for f
    by (auto simp: check_in_def Let_def split: sum.split)
  ultimately show ?thesis by (auto simp: lawful_def is_destroyed_def)
qed


lemma lawful_auto_merge [lawful_intros]: "lawful (auto_merge P left right allowed new)"
proof -
  have "lawful (check_in_merge P left right new p)" for p
    unfolding check_in_merge_def by (intro lawful_intros)
  moreover have "fst (merge_recorded p) \<noteq> ContentDestroyed" for p
    by (simp add: merge_recorded_def split: auto_merge_outcome.split)
  ultimately show ?thesis
    unfolding auto_merge_def auto_merge_steps_def Let_def by (auto intro!: lawful_intros simp: case_prod_unfold)
qed

lemma lawful_resolve [lawful_intros]:
  "lawful (resolve_divergence P ctx policy left right allowed new)"
  "lawful (resolve_conflict P ctx policy resolution new)"
proof -
  have "lawful (record_selection P ctx new selection)" for selection
    unfolding record_selection_def by (cases selection) (auto intro!: lawful_intros)
  then show "lawful (resolve_divergence P ctx policy left right allowed new)"
    unfolding resolve_divergence_def resolve_divergence_steps_def Let_def by (auto intro!: lawful_intros)
  show "lawful (resolve_conflict P ctx policy resolution new)"
    unfolding resolve_conflict_def resolve_conflict_steps_def by (auto intro!: lawful_intros)
qed

section \<open>Refinement\<close>

lemma ledger_step_refl: "ledger_step l l"
  using ledger_step.log [of l "[]"] by simp

lemma grows_refines:
  assumes "grows f g" "is_destroyed g = is_destroyed f" "is_destroyed f \<longrightarrow> tf_revisions g = tf_revisions f"
  shows "ledger_step (ledger_of f) (ledger_of g)"
proof -
  let ?es = "drop (length (tf_events f)) (tf_events g)" and ?rs = "drop (length (tf_revisions f)) (tf_revisions g)"
  have "tf_events g = tf_events f @ ?es" "tf_revisions g = tf_revisions f @ ?rs"
    using assms(1) append_take_drop_id by (metis grows_def)+
  then have g: "ledger_of g = (ledger_of f)\<lparr>lg_revisions := lg_revisions (ledger_of f) @ ?rs,
      lg_events := lg_events (ledger_of f) @ ?es\<rparr>"
    using assms(1,2) by (simp add: ledger_of_def grows_def)
  show ?thesis
  proof (cases "is_destroyed f")
    case True
    with assms(3) have "?rs = []" by simp
    then have "ledger_of g = (ledger_of f)\<lparr>lg_events := lg_events (ledger_of f) @ ?es\<rparr>" using g by simp
    then show ?thesis by (metis ledger_step.log)
  next
    case False
    then show ?thesis unfolding g by (intro ledger_step.extend) (simp add: ledger_of_def)
  qed
qed

lemma lawful_refines: "lawful m \<Longrightarrow> ledger_step (ledger_of f) (ledger_of (snd (m f)))"
  by (rule grows_refines) (auto simp: lawful_def)

text \<open>Signing leaves the ledger as it is.\<close>

lemma ledger_sign_and_add [simp]: "ledger_of (snd (sign_and_add P secret r p f)) = ledger_of f"
  by (auto simp: sign_and_add_def add_proof_def ledger_of_def is_destroyed_def Let_def split: sum.split)

lemma ledger_add_proof [simp]: "ledger_of (snd (add_proof p f)) = ledger_of f"
  by (simp add: add_proof_def ledger_of_def is_destroyed_def)

lemma ledger_signing:
  "ledger_of (snd (sign_event P k who label secret f)) = ledger_of f"
  "ledger_of (snd (sign_revision P i who label secret f)) = ledger_of f"
  "ledger_of (snd (finalize_revision P i who label secret f)) = ledger_of f"
  "ledger_of (snd (countersign_revision_checked P ctx i who label secret f)) = ledger_of f"
  "ledger_of (snd (coauthor_revision P ctx i who label secret f)) = ledger_of f"
  "ledger_of (snd (attach_coauthor_signature P i h who label sig f)) = ledger_of f"
  using ledger_add_proof
  by (auto simp: sign_event_def sign_revision_def finalize_revision_def countersign_revision_checked_def
      coauthor_revision_def attach_coauthor_signature_def Let_def case_prod_unfold split: option.split)
     (auto simp: ledger_of_def is_destroyed_def)

lemma reject_refines: "ledger_step (ledger_of f) (ledger_of (snd (reject_merge P ctx policy i actor f)))"
  unfolding reject_merge_def
  by (auto simp: snd_bind_ret ledger_step_refl intro!: lawful_refines lawful_append_event
      split: option.split list.split sum.split)

lemma merge_history_refines: "ledger_step (ledger_of f) (ledger_of (snd (merge_history P other c f)))"
proof (cases "is_destroyed f \<or> snd (merge_history P other c f) = f")
  case True
  then have "snd (merge_history P other c f) = f" by (auto simp: merge_history_def)
  then show ?thesis by (simp add: ledger_step_refl)
next
  case False
  then obtain x where x: "verify_structure P f = Ok x"
    and m: "snd (merge_history P other c f) = snd (atomically (merge_history_steps P other c) f)"
    by (auto simp: merge_history_def split: if_splits sum.splits)
  have dag: "dag_ok (tf_revisions f)" using x by (auto simp: verify_structure_iff revisions_ok_def)
  obtain r g where g: "atomically (merge_history_steps P other c) f = (r, g)" by fastforce
  have "is_destroyed g = is_destroyed f"
  proof (cases r)
    case (Inl e)
    with g importing.undone [of P other c f e g] show ?thesis by simp
  next
    case (Inr h)
    with g have "merge_history_steps P other c f = (Inr h, g)" by (simp add: importing.done_iff)
    then show ?thesis
      by (rule merge_history_steps_Ok)
         (auto simp: take_in_Ok_iff [OF dag] Let_def is_destroyed_def dest!: import_event_live split: if_splits)
  qed
  with g m False show ?thesis
    using importing.grows_atomically [of f P other c] by (auto intro: grows_refines)
qed

lemma destroy_refines: "ledger_step (ledger_of f) (ledger_of (snd (destroy_content P reason c f)))"
proof (cases "destroy_content P reason c f")
  case (Pair r g)
  show ?thesis
  proof (cases r)
    case (Inl e)
    with Pair destroy_content_undone [of P reason c f e g] show ?thesis by (simp add: ledger_step_refl)
  next
    case (Inr n)
    with Pair destroy_content_done [of P reason c f n g] obtain e1 e2 where
      g: "g = (emptied f)\<lparr>tf_events := tf_events f @ [e1, e2]\<rparr>" "destroys_this_content e2" by auto
    have "\<not> is_destroyed f" using Pair Inr by (auto simp: destroy_content_def)
    moreover have "ledger_of g = (ledger_of f)\<lparr>lg_revisions := map (s_payload_update (\<lambda>_. None)) (lg_revisions (ledger_of f)),
        lg_events := lg_events (ledger_of f) @ [e1, e2], lg_sealed := True\<rparr>"
      using g by (simp add: ledger_of_def emptied_def is_destroyed_def comp_def)
    ultimately show ?thesis
      using ledger_step.seal [of "ledger_of f" "[e1, e2]"] Pair by (simp add: ledger_of_def)
  qed
qed

lemma expiry_refines:
  "ledger_step (ledger_of f) (ledger_of (snd (schedule_expiry P at c f)))"
  "ledger_step (ledger_of f) (ledger_of (snd (expire_if_due P now c f)))"
  "ledger_step (ledger_of f) (ledger_of (snd (record_expired_access P action c f)))"
  using lawful_refines [OF lawful_append_event] destroy_refines ledger_step_refl
  by (auto simp: schedule_expiry_def expire_if_due_def record_expired_access_def snd_bind_ret)

lemma step_ledger:
  assumes "step P f g"
  shows "ledger_step (ledger_of f) (ledger_of g)"
  using assms
  by (induction rule: step.induct)
     (auto simp: ledger_signing ledger_step_refl reject_refines merge_history_refines destroy_refines expiry_refines
       intro: lawful_refines lawful_intros)

lemma steps_ledger: "(step P)\<^sup>*\<^sup>* f g \<Longrightarrow> ledger_step\<^sup>*\<^sup>* (ledger_of f) (ledger_of g)"
  by (induction rule: rtranclp_induct) (auto dest: step_ledger)

lemma reachable_erased: "reachable P f \<Longrightarrow> erased (ledger_of f)"
  by (induction rule: reachable.induct)
     (auto dest: step_ledger ledger_step_erased, auto simp: erased_def ledger_of_def new_file_def with_policy_def)

section \<open>Properties\<close>




section \<open>Sample\<close>

lemma sample_steps:
  "step toy_prims sample_start sample_file" "step toy_prims sample_file (snd (destroy_content toy_prims ''test'' sample_context sample_file))"
  "reachable toy_prims sample_file"
proof -
  show s: "step toy_prims sample_start sample_file"
    unfolding sample_file_def by (rule step.check_in [OF sample_new_revision_ok])
  have "expiry_context_ok sample_context" "str_ok ''test''"
    by (simp_all add: expiry_context_ok_def sample_context_def opt_sized_def opt_str_ok_def str_ok_ascii)
  then show "step toy_prims sample_file (snd (destroy_content toy_prims ''test'' sample_context sample_file))"
    by (rule step.destroy_content)
  have "reachable toy_prims sample_start"
    unfolding sample_start_def by (rule reachable.start) (simp_all add: str_ok_ascii)
  then show "reachable toy_prims sample_file" using s by (rule reachable.step)
qed

lemma sample_sealed: "\<exists>f. step toy_prims sample_file f \<and> is_destroyed f"
proof -
  obtain f where f: "destroy_content toy_prims ''test'' sample_context sample_file = (Ok (held_payloads sample_file), f)"
    using sample_destroyed by blast
  from destroy_content_done [OF f] have "is_destroyed f" by (auto simp: emptied_def is_destroyed_def)
  with f sample_steps(2) show ?thesis by auto
qed




end
