(* ===== verification/KeyStore.thy ===== *)
theory KeyStore
  imports Primitives
begin

text \<open>
  The part of the local database that key trees live in: the tables of \<open>src/db/schema.sql\<close> that
  \<open>src/key_tree.rs\<close> reads and writes, the hardware-key registry of \<open>src/keys.rs\<close> and the custody
  rules of \<open>src/device.rs\<close>. A table is the list of its rows. An SQL statement is written out as the
  function on the rows it stands for, with the constraints of the schema; a statement that violates
  one, or a \<open>query_row\<close> that finds nothing, is the error \<open>Db\<close>. Time stamps that nothing reads are
  left out.
\<close>

section \<open>Tables\<close>

datatype key_type = EncryptionKey | SigningKey

record hardware_key =
  hk_id :: int
  hk_label :: str
  hk_key_type :: key_type
  hk_fingerprint :: str
  hk_public_key :: bytes
  hk_revoked_at :: "str option"

record key_row =
  k_id :: int
  k_label :: str
  k_public_generation :: int
  k_custody_mode :: str
  k_minimum_physical_devices :: int
  k_unlock_approval :: str

record node_row =
  kn_id :: int
  kn_key_id :: int
  kn_parent_id :: "int option"
  kn_label :: str
  kn_threshold :: "int option"
  kn_hardware_key_id :: "int option"
  kn_wrapped_share :: "bytes option"
  kn_is_active :: bool

text \<open>
  Besides the tables, a store counts the uses of the random source, so that every dealing of
  shares has randomness of its own.
\<close>

record store =
  st_hardware_keys :: "hardware_key list"
  st_keys :: "key_row list"
  st_nodes :: "node_row list"
  st_bridges :: "(int \<times> str) list"
  st_links :: "(int \<times> int) list"
  st_placements :: "(int \<times> bytes \<times> str) list"
  st_identities :: "(bytes \<times> bytes) list"
  st_possession :: "(bytes \<times> str) list"
  st_generations :: "(int \<times> int) list"
  st_draws :: nat

text \<open>The row id SQLite gives a new row: one more than the largest in use.\<close>

definition next_id :: "int list \<Rightarrow> int" where
  "next_id ids = 1 + fold max ids 0"

text \<open>A transaction leaves the tables as they were when it fails.\<close>

definition transaction :: "(store, 'a) op \<Rightarrow> (store, 'a) op" where
  "transaction m st =
     (case m st of
        (Inl e, st') \<Rightarrow> (Inl e, st\<lparr>st_draws := st_draws st'\<rparr>)
      | (Inr x, st') \<Rightarrow> (Inr x, st'))"

definition draw :: "(store, nat) op" where
  "draw st = (Ok (st_draws st), st\<lparr>st_draws := Suc (st_draws st)\<rparr>)"

section \<open>Hardware keys\<close>

definition fingerprint :: "prims \<Rightarrow> bytes \<Rightarrow> str" where
  "fingerprint P public_key = hex_encode P (sha256 P public_key)"

definition get_key :: "int \<Rightarrow> store \<Rightarrow> hardware_key result" where
  "get_key i st = ok_or Db (List.find (\<lambda>k. hk_id k = i) (st_hardware_keys st))"

definition get_active_encryption_key :: "int \<Rightarrow> store \<Rightarrow> hardware_key result" where
  "get_active_encryption_key i st =
     and_then (get_key i st) (\<lambda>key.
     if hk_key_type key \<noteq> EncryptionKey then Err WrongKeyType
     else if hk_revoked_at key \<noteq> None then Err KeyRevoked
     else Ok key)"

definition get_key_by_public_key :: "bytes \<Rightarrow> store \<Rightarrow> hardware_key result" where
  "get_key_by_public_key public_key st =
     ok_or InvalidPublicKey (List.find (\<lambda>k. hk_public_key k = public_key) (st_hardware_keys st))"

definition get_key_by_fingerprint :: "str \<Rightarrow> store \<Rightarrow> hardware_key result" where
  "get_key_by_fingerprint fp st =
     ok_or InvalidPublicKey (List.find (\<lambda>k. hk_fingerprint k = fp) (st_hardware_keys st))"

definition register_key :: "prims \<Rightarrow> str \<Rightarrow> key_type \<Rightarrow> bytes \<Rightarrow> (store, int) op" where
  "register_key P label key_type public_key st =
     (if length public_key \<noteq> 32 then (Err InvalidPublicKey, st)
      else
        let fp = fingerprint P public_key; i = next_id (map hk_id (st_hardware_keys st)) in
        if list_ex (\<lambda>k. hk_fingerprint k = fp) (st_hardware_keys st) then (Err Db, st)
        else (Ok i, st\<lparr>st_hardware_keys := st_hardware_keys st @
               [\<lparr>hk_id = i, hk_label = label, hk_key_type = key_type, hk_fingerprint = fp,
                 hk_public_key = public_key, hk_revoked_at = None\<rparr>]\<rparr>))"

definition get_or_register :: "prims \<Rightarrow> str \<Rightarrow> key_type \<Rightarrow> bytes \<Rightarrow> (store, int) op" where
  "get_or_register P label key_type public_key st =
     (if length public_key \<noteq> 32 then (Err InvalidPublicKey, st)
      else case get_key_by_public_key public_key st of
        Inr existing \<Rightarrow> if hk_key_type existing \<noteq> key_type then (Err WrongKeyType, st) else (Ok (hk_id existing), st)
      | Inl e \<Rightarrow> if e = InvalidPublicKey then register_key P label key_type public_key st else (Err e, st))"

definition get_or_register_encryption :: "prims \<Rightarrow> str \<Rightarrow> bytes \<Rightarrow> (store, int) op" where
  "get_or_register_encryption P label public_key = get_or_register P label EncryptionKey public_key"

section \<open>Custody\<close>

datatype custody_mode = Hardware | Logical

datatype unlock_approval = NoApproval | ParentApproval

record custody_policy =
  cp_mode :: custody_mode
  cp_minimum_physical_devices :: nat
  cp_unlock_approval :: unlock_approval

fun custody_mode_name :: "custody_mode \<Rightarrow> str" where
  "custody_mode_name Hardware = ''hardware''"
| "custody_mode_name Logical = ''logical''"

definition custody_mode_parse :: "str \<Rightarrow> custody_mode result" where
  "custody_mode_parse value =
     (if value = ''hardware'' then Ok Hardware else if value = ''logical'' then Ok Logical else Err InvalidDevice)"

fun unlock_approval_name :: "unlock_approval \<Rightarrow> str" where
  "unlock_approval_name NoApproval = ''none''"
| "unlock_approval_name ParentApproval = ''parent''"

definition unlock_approval_parse :: "str \<Rightarrow> unlock_approval result" where
  "unlock_approval_parse value =
     (if value = ''none'' then Ok NoApproval else if value = ''parent'' then Ok ParentApproval else Err InvalidDevice)"

definition set_custody_policy :: "int \<Rightarrow> custody_policy \<Rightarrow> (store, unit) op" where
  "set_custody_policy key_id policy st =
     (if cp_minimum_physical_devices policy < 1 then (Err InvalidQuorumThreshold, st)
      else if length (filter (\<lambda>k. k_id k = key_id) (st_keys st)) \<noteq> 1 then (Err TreeNotFound, st)
      else (Ok (), st\<lparr>st_keys := map (\<lambda>k. if k_id k = key_id
               then k\<lparr>k_custody_mode := custody_mode_name (cp_mode policy),
                      k_minimum_physical_devices := int (cp_minimum_physical_devices policy),
                      k_unlock_approval := unlock_approval_name (cp_unlock_approval policy)\<rparr>
               else k) (st_keys st)\<rparr>))"

definition custody_policy_of :: "int \<Rightarrow> store \<Rightarrow> custody_policy result" where
  "custody_policy_of key_id st =
     and_then (ok_or TreeNotFound (List.find (\<lambda>k. k_id k = key_id) (st_keys st))) (\<lambda>row.
     let minimum = k_minimum_physical_devices row in
     if minimum < 0 \<or> 255 < minimum then Err InvalidDevice
     else and_then (custody_mode_parse (k_custody_mode row)) (\<lambda>mode.
       and_then (unlock_approval_parse (k_unlock_approval row)) (\<lambda>approval.
       Ok \<lparr>cp_mode = mode, cp_minimum_physical_devices = nat minimum, cp_unlock_approval = approval\<rparr>)))"

record used_leaf =
  ul_hardware_key_id :: int
  ul_leaf_label :: str

record presented_device =
  pd_device_id :: bytes
  pd_slot_label :: "str option"
  pd_hardware_key_ids :: "int list"
  pd_leaf_labels :: "str list"

definition SOLO_DOMAIN :: bytes where "SOLO_DOMAIN = as_bytes ''KQ-SOLO-DEVICE-v1''"

definition solo_device_id :: "prims \<Rightarrow> bytes \<Rightarrow> bytes" where
  "solo_device_id P public_key = take 16 (sha256 P (SOLO_DOMAIN @ public_key))"

definition device_for_key :: "prims \<Rightarrow> hardware_key \<Rightarrow> store \<Rightarrow> (bytes \<times> str option) result" where
  "device_for_key P key st =
     (case List.find (\<lambda>(i, _). i = hk_id key) (st_placements st) of
        Some (_, device_id, slot_label) \<Rightarrow>
          if length device_id \<noteq> 16 then Err InvalidDevice else Ok (device_id, Some slot_label)
      | None \<Rightarrow> Ok (solo_device_id P (hk_public_key key), None))"

text \<open>The join of possessions, identities and hardware keys, and its first row.\<close>

definition leaf_is_ghost :: "int \<Rightarrow> store \<Rightarrow> bool" where
  "leaf_is_ghost hardware_key_id st =
     (case concat (map (\<lambda>(identity, state).
             concat (map (\<lambda>(i, enc_public).
               concat (map (\<lambda>h. if i = identity \<and> hk_public_key h = enc_public \<and> hk_id h = hardware_key_id
                                then [state] else []) (st_hardware_keys st))) (st_identities st)))
           (st_possession st)) of
        [] \<Rightarrow> False
      | state # _ \<Rightarrow> state = ''ghost'')"

text \<open>Adding one contributing leaf to the devices seen so far.\<close>

fun add_to_group :: "bytes \<Rightarrow> str option \<Rightarrow> used_leaf \<Rightarrow> presented_device list \<Rightarrow> presented_device list" where
  "add_to_group device_id slot_label leaf [] =
     [\<lparr>pd_device_id = device_id, pd_slot_label = slot_label, pd_hardware_key_ids = [ul_hardware_key_id leaf],
       pd_leaf_labels = [ul_leaf_label leaf]\<rparr>]"
| "add_to_group device_id slot_label leaf (dev # devs) =
     (if pd_device_id dev = device_id
      then dev\<lparr>pd_hardware_key_ids := (if ul_hardware_key_id leaf \<in> set (pd_hardware_key_ids dev)
                   then pd_hardware_key_ids dev else pd_hardware_key_ids dev @ [ul_hardware_key_id leaf]),
                 pd_leaf_labels := pd_leaf_labels dev @ [ul_leaf_label leaf],
                 pd_slot_label := (if pd_slot_label dev = None then slot_label else pd_slot_label dev)\<rparr> # devs
      else dev # add_to_group device_id slot_label leaf devs)"

fun classify_loop :: "prims \<Rightarrow> store \<Rightarrow> presented_device list \<Rightarrow> used_leaf list \<Rightarrow> presented_device list result" where
  "classify_loop P st devs [] = Ok devs"
| "classify_loop P st devs (leaf # used) =
     (if leaf_is_ghost (ul_hardware_key_id leaf) st then Err GhostDenied
      else and_then (get_key (ul_hardware_key_id leaf) st) (\<lambda>key.
        and_then (device_for_key P key st) (\<lambda>(device_id, slot_label).
        classify_loop P st (add_to_group device_id slot_label leaf devs) used)))"

definition classify_devices :: "prims \<Rightarrow> int \<Rightarrow> used_leaf list \<Rightarrow> store \<Rightarrow> presented_device list result" where
  "classify_devices P key_id used st =
     (if used = [] then Err QuorumNotMet
      else and_then (custody_policy_of key_id st) (\<lambda>policy.
        and_then (classify_loop P st [] used) (\<lambda>devs.
        if cp_mode policy = Hardware \<and> list_ex (\<lambda>g. card (set (pd_hardware_key_ids g)) > 1) devs
        then Err CustodyViolation else Ok devs)))"

definition enforce_devices :: "prims \<Rightarrow> int \<Rightarrow> used_leaf list \<Rightarrow> store \<Rightarrow> presented_device list result" where
  "enforce_devices P key_id used st =
     and_then (classify_devices P key_id used st) (\<lambda>devs.
     and_then (custody_policy_of key_id st) (\<lambda>policy.
     if length devs < cp_minimum_physical_devices policy then Err PhysicalDevicesNotMet else Ok devs))"

section \<open>Nodes\<close>

text \<open>The checks, references and triggers of \<open>key_nodes\<close>.\<close>

definition node_fits :: "store \<Rightarrow> node_row \<Rightarrow> bool" where
  "node_fits st n \<longleftrightarrow>
     (case kn_threshold n of None \<Rightarrow> kn_hardware_key_id n \<noteq> None
      | Some t \<Rightarrow> 0 < t \<and> kn_hardware_key_id n = None \<and> kn_wrapped_share n = None)
     \<and> list_ex (\<lambda>k. k_id k = kn_key_id n) (st_keys st)
     \<and> (case kn_parent_id n of None \<Rightarrow> True | Some p \<Rightarrow> list_ex (\<lambda>m. kn_id m = p) (st_nodes st))
     \<and> (case kn_hardware_key_id n of None \<Rightarrow> True
        | Some h \<Rightarrow> list_ex (\<lambda>k. hk_id k = h \<and> hk_key_type k = EncryptionKey) (st_hardware_keys st))"

definition insert_node ::
    "int \<Rightarrow> int option \<Rightarrow> str \<Rightarrow> int option \<Rightarrow> int option \<Rightarrow> bytes option \<Rightarrow> bool \<Rightarrow> (store, int) op" where
  "insert_node key_id parent_id label threshold hardware_key_id wrapped_share is_active st =
     (let i = next_id (map kn_id (st_nodes st));
          n = \<lparr>kn_id = i, kn_key_id = key_id, kn_parent_id = parent_id, kn_label = label,
               kn_threshold = threshold, kn_hardware_key_id = hardware_key_id,
               kn_wrapped_share = wrapped_share, kn_is_active = is_active\<rparr> in
      if node_fits st n then (Ok i, st\<lparr>st_nodes := st_nodes st @ [n]\<rparr>) else (Err Db, st))"

definition insert_key :: "str \<Rightarrow> (store, int) op" where
  "insert_key label st =
     (let i = next_id (map k_id (st_keys st)) in
      (Ok i, st\<lparr>st_keys := st_keys st @
         [\<lparr>k_id = i, k_label = label, k_public_generation = 1, k_custody_mode = ''hardware'',
           k_minimum_physical_devices = 1, k_unlock_approval = ''none''\<rparr>]\<rparr>))"

end
