(* ===== verification/KeyTree.thy ===== *)
theory KeyTree
  imports KeyStore
begin

text \<open>
  Recursive key splitting, \<open>src/key_tree.rs\<close>: validating a tree specification, dealing a secret
  down it, loading the arena, and reconstructing the secret from the shares that holders present,
  with the search for a set of shares that meets the custody policy.
\<close>

section \<open>The dealer\<close>

text \<open>
  The secret sharing of the \<open>blahaj\<close> crate. A share is its byte encoding, the coordinate first:
  \<open>deal t secret k\<close> is what \<open>Sharks(t).dealer_rng(secret, rng)\<close> yields at the \<open>k\<close>-th use of the
  random source, \<open>share_ok\<close> whether \<open>Share::try_from\<close> accepts the bytes, and \<open>recover t\<close> is
  \<open>Sharks(t).recover\<close>.
\<close>

record shamir =
  deal :: "nat \<Rightarrow> bytes \<Rightarrow> nat \<Rightarrow> bytes list"
  share_ok :: "bytes \<Rightarrow> bool"
  recover :: "nat \<Rightarrow> bytes list \<Rightarrow> bytes option"

text \<open>
  The dealer yields 255 shares with the coordinates 1 to 255, each one byte longer than the
  secret, and any \<open>t\<close> or more of them give the secret back.
\<close>

definition shamir_law :: "shamir \<Rightarrow> bool" where
  "shamir_law S \<longleftrightarrow>
     (\<forall>t secret k. 1 \<le> t \<and> t \<le> 255 \<and> secret \<noteq> [] \<longrightarrow>
        length (deal S t secret k) = 255
        \<and> (\<forall>i < 255. share_ok S (deal S t secret k ! i) \<and> hd (deal S t secret k ! i) = word_of_nat (Suc i)
             \<and> length (deal S t secret k ! i) = Suc (length secret))
        \<and> (\<forall>sub. set sub \<subseteq> set (deal S t secret k) \<and> distinct sub \<and> t \<le> length sub \<longrightarrow>
             recover S t sub = Some secret))"

section \<open>Specifications\<close>

datatype node_spec =
    Leaf (spec_label: str) (spec_hardware_key_id: int) (allowed_bridges: "str list")
  | Split (spec_label: str) (spec_threshold: u8) (spec_children: "node_spec list") (allowed_bridges: "str list")

definition flat_split :: "str \<Rightarrow> u8 \<Rightarrow> (str \<times> int) list \<Rightarrow> node_spec" where
  "flat_split root threshold leaves = Split root threshold (map (\<lambda>(label, i). Leaf label i []) leaves) []"

fun validate_node :: "store \<Rightarrow> node_spec \<Rightarrow> nat \<Rightarrow> nat result"
and validate_nodes :: "store \<Rightarrow> node_spec list \<Rightarrow> nat \<Rightarrow> nat result" where
  "validate_node st (Leaf label hardware_key_id bridges) leaf_count =
     and_then (get_active_encryption_key hardware_key_id st) (\<lambda>_. Ok (leaf_count + 1))"
| "validate_node st (Split label threshold children bridges) leaf_count =
     (if children = [] \<or> threshold = 0 \<or> unat threshold > length children \<or> length children > 255
      then Err InvalidQuorumThreshold
      else validate_nodes st children leaf_count)"
| "validate_nodes st [] leaf_count = Ok leaf_count"
| "validate_nodes st (child # children) leaf_count =
     and_then (validate_node st child leaf_count) (\<lambda>leaf_count. validate_nodes st children leaf_count)"

fun collect_labels :: "node_spec \<Rightarrow> str set \<Rightarrow> str set result"
and collect_all_labels :: "node_spec list \<Rightarrow> str set \<Rightarrow> str set result" where
  "collect_labels (Leaf label hardware_key_id bridges) seen =
     (if label = [] \<or> label \<in> seen then Err DuplicateNodeLabel else Ok (insert label seen))"
| "collect_labels (Split label threshold children bridges) seen =
     (if label = [] \<or> label \<in> seen then Err DuplicateNodeLabel else collect_all_labels children (insert label seen))"
| "collect_all_labels [] seen = Ok seen"
| "collect_all_labels (child # children) seen =
     and_then (collect_labels child seen) (\<lambda>seen. collect_all_labels children seen)"

fun validate_bridges :: "str set \<Rightarrow> node_spec \<Rightarrow> unit result"
and validate_all_bridges :: "str set \<Rightarrow> node_spec list \<Rightarrow> unit result" where
  "validate_bridges labels (Leaf label hardware_key_id bridges) =
     guard (list_all (\<lambda>peer. peer \<noteq> label \<and> peer \<in> labels) bridges) InvalidBridge"
| "validate_bridges labels (Split label threshold children bridges) =
     and_then (guard (list_all (\<lambda>peer. peer \<noteq> label \<and> peer \<in> labels) bridges) InvalidBridge) (\<lambda>_.
     validate_all_bridges labels children)"
| "validate_all_bridges labels [] = Ok ()"
| "validate_all_bridges labels (child # children) =
     and_then (validate_bridges labels child) (\<lambda>_. validate_all_bridges labels children)"

definition validate :: "node_spec \<Rightarrow> store \<Rightarrow> unit result" where
  "validate spec st =
     and_then (validate_node st spec 0) (\<lambda>leaf_count.
     if leaf_count = 0 then Err InvalidQuorumThreshold
     else and_then (collect_labels spec {}) (\<lambda>labels. validate_bridges labels spec))"

section \<open>Splitting\<close>

definition seal_share :: "prims \<Rightarrow> hardware_key \<Rightarrow> bytes \<Rightarrow> bytes result" where
  "seal_share P hardware_key share =
     (if length (hk_public_key hardware_key) \<noteq> 32 then Err InvalidPublicKey
      else Ok (box_seal P (hk_public_key hardware_key) share))"

text \<open>A row of \<open>key_node_bridges\<close>: the pair is the primary key.\<close>

definition insert_bridge :: "int \<Rightarrow> str \<Rightarrow> (store, unit) op" where
  "insert_bridge node_id peer st =
     (if (node_id, peer) \<in> set (st_bridges st) \<or> \<not> list_ex (\<lambda>n. kn_id n = node_id) (st_nodes st) then (Err Db, st)
      else (Ok (), st\<lparr>st_bridges := st_bridges st @ [(node_id, peer)]\<rparr>))"

fun insert_allowed_bridges :: "int \<Rightarrow> str list \<Rightarrow> (store, unit) op" where
  "insert_allowed_bridges node_id [] = ret ()"
| "insert_allowed_bridges node_id (peer # peers) =
     bind_op (insert_bridge node_id peer) (\<lambda>_. insert_allowed_bridges node_id peers)"

fun split_node :: "prims \<Rightarrow> shamir \<Rightarrow> int \<Rightarrow> int option \<Rightarrow> bytes \<Rightarrow> node_spec \<Rightarrow> (store, unit) op"
and split_children :: "prims \<Rightarrow> shamir \<Rightarrow> int \<Rightarrow> int \<Rightarrow> bytes list \<Rightarrow> node_spec list \<Rightarrow> (store, unit) op" where
  "split_node P S key_id parent_id secret (Leaf label hardware_key_id bridges) =
     bind_op (lift (get_active_encryption_key hardware_key_id)) (\<lambda>hardware_key.
     bind_op (lift (\<lambda>_. seal_share P hardware_key secret)) (\<lambda>wrapped_share.
     bind_op (insert_node key_id parent_id label None (Some hardware_key_id) (Some wrapped_share) True) (\<lambda>node_id.
     insert_allowed_bridges node_id bridges)))"
| "split_node P S key_id parent_id secret (Split label threshold children bridges) =
     bind_op (insert_node key_id parent_id label (Some (int (unat threshold))) None None True) (\<lambda>node_id.
     bind_op (insert_allowed_bridges node_id bridges) (\<lambda>_.
     bind_op draw (\<lambda>k.
     let shares = take (length children) (deal S (unat threshold) secret k) in
     if length shares \<noteq> length children then fail InvalidQuorumThreshold
     else split_children P S key_id node_id shares children)))"
| "split_children P S key_id node_id shares [] = ret ()"
| "split_children P S key_id node_id shares (child # children) =
     (case shares of
        [] \<Rightarrow> ret ()
      | share # shares \<Rightarrow>
          bind_op (split_node P S key_id (Some node_id) share child) (\<lambda>_.
          split_children P S key_id node_id shares children))"

definition build_tree :: "prims \<Rightarrow> shamir \<Rightarrow> str \<Rightarrow> bytes \<Rightarrow> node_spec \<Rightarrow> (store, int) op" where
  "build_tree P S label secret spec =
     bind_op (lift (validate spec)) (\<lambda>_.
     bind_op (insert_key label) (\<lambda>key_id.
     bind_op (split_node P S key_id None secret spec) (\<lambda>_.
     ret key_id)))"

definition split_key :: "prims \<Rightarrow> shamir \<Rightarrow> str \<Rightarrow> bytes \<Rightarrow> node_spec \<Rightarrow> (store, int) op" where
  "split_key P S label secret spec = transaction (build_tree P S label secret spec)"

section \<open>The arena\<close>

record key_node =
  nd_db_id :: int
  nd_id :: str
  nd_parent_idx :: "nat option"
  nd_children :: "nat list"
  nd_threshold :: "nat option"
  nd_is_active :: bool
  nd_hardware_key_id :: "int option"
  nd_allowed_bridges :: "str set"

record key_tree =
  kt_nodes :: "key_node list"
  kt_root_index :: nat

fun position :: "('a \<Rightarrow> bool) \<Rightarrow> 'a list \<Rightarrow> nat option" where
  "position p [] = None"
| "position p (x # xs) = (if p x then Some 0 else map_option Suc (position p xs))"

definition tree_rows :: "int \<Rightarrow> store \<Rightarrow> node_row list" where
  "tree_rows key_id st = sort_key kn_id (filter (\<lambda>n. kn_key_id n = key_id) (st_nodes st))"

definition parent_index :: "node_row list \<Rightarrow> node_row \<Rightarrow> nat option result" where
  "parent_index rows row =
     (case kn_parent_id row of
        None \<Rightarrow> Ok None
      | Some p \<Rightarrow> and_then (ok_or NodeNotFound (position (\<lambda>r. kn_id r = p) rows)) (\<lambda>i. Ok (Some i)))"

definition arena_node :: "(int \<times> str) list \<Rightarrow> nat option list \<Rightarrow> node_row list \<Rightarrow> nat \<Rightarrow> key_node" where
  "arena_node bridges parents rows i =
     (let row = rows ! i in
      \<lparr>nd_db_id = kn_id row, nd_id = kn_label row, nd_parent_idx = parents ! i,
       nd_children = filter (\<lambda>j. parents ! j = Some i) [0..<length rows],
       nd_threshold = map_option nat (kn_threshold row), nd_is_active = kn_is_active row,
       nd_hardware_key_id = kn_hardware_key_id row,
       nd_allowed_bridges = set (map snd (filter (\<lambda>(node_id, _). node_id = kn_id row) bridges))\<rparr>)"

definition load :: "int \<Rightarrow> store \<Rightarrow> key_tree result" where
  "load key_id st =
     (let rows = tree_rows key_id st in
      if rows = [] then Err NodeNotFound
      else if \<not> distinct (map kn_label rows) then Err DuplicateNodeLabel
      else and_then (mapM (parent_index rows) rows) (\<lambda>parents.
        let nodes = map (arena_node (st_bridges st) parents rows) [0..<length rows] in
        and_then (ok_or NodeNotFound (position (\<lambda>n. nd_parent_idx n = None) nodes)) (\<lambda>root.
        Ok \<lparr>kt_nodes = nodes, kt_root_index = root\<rparr>)))"

definition index_by_label :: "key_tree \<Rightarrow> str \<Rightarrow> nat result" where
  "index_by_label tree label = ok_or NodeNotFound (position (\<lambda>n. nd_id n = label) (kt_nodes tree))"

definition index_by_db_id :: "key_tree \<Rightarrow> int \<Rightarrow> nat result" where
  "index_by_db_id tree i = ok_or NodeNotFound (position (\<lambda>n. nd_db_id n = i) (kt_nodes tree))"

text \<open>
  The path from a node to the root, following \<open>parent_idx\<close>. Nothing in an arena alone ends this
  walk, so it is bounded by \<open>fuel\<close>; \<open>None\<close> is a walk that did not come to an end.
\<close>

fun path_up :: "nat \<Rightarrow> key_node list \<Rightarrow> nat option \<Rightarrow> nat list option" where
  "path_up fuel nodes None = Some []"
| "path_up 0 nodes (Some idx) = None"
| "path_up (Suc fuel) nodes (Some idx) = map_option (Cons idx) (path_up fuel nodes (nd_parent_idx (nodes ! idx)))"

fun last_common :: "nat \<Rightarrow> (nat \<times> nat) list \<Rightarrow> nat" where
  "last_common lca_idx [] = lca_idx"
| "last_common lca_idx ((node_a, node_b) # pairs) = (if node_a = node_b then last_common node_a pairs else lca_idx)"

definition find_lowest_common_ancestor :: "key_tree \<Rightarrow> nat \<Rightarrow> nat \<Rightarrow> nat result" where
  "find_lowest_common_ancestor tree index_a index_b =
     (let nodes = kt_nodes tree in
      if index_a \<ge> length nodes \<or> index_b \<ge> length nodes then Err NodeNotFound
      else case (path_up (length nodes) nodes (Some index_a), path_up (length nodes) nodes (Some index_b)) of
        (Some path_a, Some path_b) \<Rightarrow> Ok (last_common (kt_root_index tree) (zip (rev path_a) (rev path_b)))
      | _ \<Rightarrow> Err Panic)"

fun lca_fold :: "key_tree \<Rightarrow> nat \<Rightarrow> nat list \<Rightarrow> nat result" where
  "lca_fold tree acc [] = Ok acc"
| "lca_fold tree acc (idx # indices) =
     and_then (find_lowest_common_ancestor tree acc idx) (\<lambda>acc. lca_fold tree acc indices)"

definition find_lowest_common_ancestor_of :: "key_tree \<Rightarrow> nat list \<Rightarrow> nat result" where
  "find_lowest_common_ancestor_of tree indices =
     (case indices of [] \<Rightarrow> Err NodeNotFound | first # rest \<Rightarrow> lca_fold tree first rest)"

section \<open>Choosing the shares of a split\<close>

text \<open>What a child of a split resolved to: its share and the leaves that contributed to it.\<close>

type_synonym resolved_child = "bytes \<times> used_leaf list"

definition flatten_children :: "resolved_child list \<Rightarrow> bytes list \<times> used_leaf list" where
  "flatten_children children = (map fst children, concat (map snd children))"

definition swap_remove :: "'a list \<Rightarrow> nat \<Rightarrow> 'a list" where
  "swap_remove xs i = butlast (xs[i := last xs])"

fun take_loop :: "'a list \<Rightarrow> nat list \<Rightarrow> (nat \<times> 'a) list" where
  "take_loop xs [] = []"
| "take_loop xs (i # order) = (i, xs ! i) # take_loop (swap_remove xs i) order"

definition take_indexed :: "resolved_child list \<Rightarrow> nat list \<Rightarrow> bytes list \<times> used_leaf list" where
  "take_indexed children indexes =
     flatten_children (map snd (sort_key fst (take_loop children (rev (sort indexes)))))"

text \<open>The loop of \<open>next_combination\<close>, with \<open>i\<close> counting down; \<open>None\<close> is \<open>false\<close>.\<close>

fun next_at :: "nat list \<Rightarrow> nat \<Rightarrow> nat \<Rightarrow> nat list option" where
  "next_at indexes n 0 = None"
| "next_at indexes n (Suc i) =
     (let k = length indexes; limit = n - (k - 1 - i) in
      if indexes ! i + 1 < limit then Some (take i indexes @ [indexes ! i + 1 ..< indexes ! i + 1 + (k - i)])
      else next_at indexes n i)"

definition next_combination :: "nat list \<Rightarrow> nat \<Rightarrow> nat list option" where
  "next_combination indexes n =
     (if indexes = [] \<or> length indexes > n then None else next_at indexes n (length indexes))"

definition MAX_EXAMINED :: nat where "MAX_EXAMINED = 100000"

definition settle_for :: "resolved_child list \<Rightarrow> (nat \<times> nat list) option \<Rightarrow> bool \<Rightarrow> (bytes list \<times> used_leaf list) result" where
  "settle_for children best saw_custody =
     (case best of
        Some (_, indexes) \<Rightarrow> Ok (take_indexed children indexes)
      | None \<Rightarrow> Err (if saw_custody then CustodyViolation else QuorumNotMet))"

function search_loop ::
    "prims \<Rightarrow> store \<Rightarrow> int \<Rightarrow> nat \<Rightarrow> resolved_child list \<Rightarrow> nat \<Rightarrow> (nat \<times> nat list) option \<Rightarrow> bool \<Rightarrow> nat list
      \<Rightarrow> (bytes list \<times> used_leaf list) result" where
  "search_loop P st key_id minimum children examined best saw_custody indexes =
     (if Suc examined > MAX_EXAMINED then settle_for children best saw_custody
      else
        let go_on = (\<lambda>best saw_custody.
              case next_combination indexes (length children) of
                None \<Rightarrow> settle_for children best saw_custody
              | Some indexes \<Rightarrow> search_loop P st key_id minimum children (Suc examined) best saw_custody indexes) in
        case classify_devices P key_id (concat (map (\<lambda>i. snd (children ! i)) indexes)) st of
          Inr devs \<Rightarrow>
            if length devs \<ge> minimum then Ok (take_indexed children indexes)
            else go_on (case best of
                          None \<Rightarrow> Some (length devs, indexes)
                        | Some (most, _) \<Rightarrow> if length devs > most then Some (length devs, indexes) else best) saw_custody
        | Inl e \<Rightarrow>
            if e = CustodyViolation then go_on best True
            else if e = QuorumNotMet \<or> e = GhostDenied then go_on best saw_custody
            else Err e)"
  by pat_completeness auto

termination
  by (relation "measure (\<lambda>(P, st, key_id, minimum, children, examined, best, saw, indexes). MAX_EXAMINED - examined)") auto

declare search_loop.simps [simp del]

definition select_child_subset ::
    "prims \<Rightarrow> (store \<times> int) option \<Rightarrow> nat \<Rightarrow> resolved_child list \<Rightarrow> (bytes list \<times> used_leaf list) result" where
  "select_child_subset P policy threshold children =
     (if threshold = 0 \<or> length children < threshold then Err QuorumNotMet
      else case policy of
        None \<Rightarrow> Ok (flatten_children (take threshold children))
      | Some (st, key_id) \<Rightarrow>
          and_then (custody_policy_of key_id st) (\<lambda>custody.
          search_loop P st key_id (cp_minimum_physical_devices custody) children 0 None False [0..<threshold]))"

section \<open>Reconstruction\<close>

text \<open>
  The recursion over the arena is bounded by \<open>fuel\<close>, since nothing in an arena alone keeps a node
  from being its own descendant; \<open>None\<close> is a recursion that did not come to an end.
\<close>

fun reconstruct_node ::
    "nat \<Rightarrow> prims \<Rightarrow> shamir \<Rightarrow> key_node list \<Rightarrow> (int \<Rightarrow> bytes option) \<Rightarrow> (store \<times> int) option \<Rightarrow> nat
      \<Rightarrow> resolved_child result option"
and resolve_children ::
    "nat \<Rightarrow> prims \<Rightarrow> shamir \<Rightarrow> key_node list \<Rightarrow> (int \<Rightarrow> bytes option) \<Rightarrow> (store \<times> int) option \<Rightarrow> nat list
      \<Rightarrow> resolved_child list option" where
  "reconstruct_node 0 P S nodes raw_shares policy idx = None"
| "reconstruct_node (Suc fuel) P S nodes raw_shares policy idx =
     (if length nodes \<le> idx then Some (Err NodeNotFound)
      else
        let node = nodes ! idx in
        if \<not> nd_is_active node then Some (Err QuorumNotMet)
        else case nd_hardware_key_id node of
          Some hardware_key_id \<Rightarrow>
            Some (if (case policy of Some (st, _) \<Rightarrow> leaf_is_ghost hardware_key_id st | None \<Rightarrow> False) then Err GhostDenied
                  else and_then (ok_or QuorumNotMet (raw_shares (nd_db_id node))) (\<lambda>share.
                    Ok (share, [\<lparr>ul_hardware_key_id = hardware_key_id, ul_leaf_label = nd_id node\<rparr>])))
        | None \<Rightarrow>
            (case nd_threshold node of
               None \<Rightarrow> Some (Err QuorumNotMet)
             | Some threshold \<Rightarrow>
                 (case resolve_children fuel P S nodes raw_shares policy (nd_children node) of
                    None \<Rightarrow> None
                  | Some resolved \<Rightarrow>
                      Some (and_then (select_child_subset P policy threshold resolved) (\<lambda>(shares, leaves).
                        and_then (ok_or QuorumNotMet (recover S (threshold mod 256) shares)) (\<lambda>value.
                        Ok (value, leaves)))))))"
| "resolve_children fuel P S nodes raw_shares policy [] = Some []"
| "resolve_children fuel P S nodes raw_shares policy (child # children) =
     (if \<not> nd_is_active (nodes ! child) then resolve_children fuel P S nodes raw_shares policy children
      else case reconstruct_node fuel P S nodes raw_shares policy child of
        None \<Rightarrow> None
      | Some r \<Rightarrow>
          (case resolve_children fuel P S nodes raw_shares policy children of
             None \<Rightarrow> None
           | Some resolved \<Rightarrow>
               Some (case r of
                       Inr (value, leaves) \<Rightarrow> if share_ok S value then (value, leaves) # resolved else resolved
                     | Inl _ \<Rightarrow> resolved)))"

text \<open>A tree has at most as many levels as nodes.\<close>

definition reconstruct_from ::
    "prims \<Rightarrow> shamir \<Rightarrow> key_tree \<Rightarrow> (int \<Rightarrow> bytes option) \<Rightarrow> (store \<times> int) option \<Rightarrow> nat \<Rightarrow> resolved_child result" where
  "reconstruct_from P S tree raw_shares policy idx =
     (case reconstruct_node (length (kt_nodes tree)) P S (kt_nodes tree) raw_shares policy idx of
        None \<Rightarrow> Err Panic
      | Some r \<Rightarrow> r)"

definition tree_reconstruct :: "prims \<Rightarrow> shamir \<Rightarrow> key_tree \<Rightarrow> (int \<Rightarrow> bytes option) \<Rightarrow> bytes result" where
  "tree_reconstruct P S tree raw_shares =
     and_then (reconstruct_from P S tree raw_shares None (kt_root_index tree)) (\<lambda>(secret, _). Ok secret)"

record presented_reconstruction =
  pr_secret :: bytes
  pr_devices :: "presented_device list"
  pr_leaves :: "used_leaf list"

definition finish_presented ::
    "prims \<Rightarrow> int \<Rightarrow> bytes \<Rightarrow> used_leaf list \<Rightarrow> store \<Rightarrow> presented_reconstruction result" where
  "finish_presented P key_id secret leaves st =
     and_then (enforce_devices P key_id leaves st) (\<lambda>devices.
     Ok \<lparr>pr_secret = secret, pr_devices = devices, pr_leaves = leaves\<rparr>)"

definition reconstruct_presented ::
    "prims \<Rightarrow> shamir \<Rightarrow> int \<Rightarrow> (int \<Rightarrow> bytes option) \<Rightarrow> store \<Rightarrow> presented_reconstruction result" where
  "reconstruct_presented P S key_id raw_shares st =
     and_then (load key_id st) (\<lambda>tree.
     and_then (reconstruct_from P S tree raw_shares (Some (st, key_id)) (kt_root_index tree)) (\<lambda>(secret, leaves).
     finish_presented P key_id secret leaves st))"

definition reconstruct :: "prims \<Rightarrow> shamir \<Rightarrow> int \<Rightarrow> (int \<Rightarrow> bytes option) \<Rightarrow> store \<Rightarrow> bytes result" where
  "reconstruct P S key_id raw_shares st =
     and_then (reconstruct_presented P S key_id raw_shares st) (\<lambda>p. Ok (pr_secret p))"

definition unwrap_leaf_share :: "prims \<Rightarrow> int \<Rightarrow> bytes \<Rightarrow> store \<Rightarrow> bytes result" where
  "unwrap_leaf_share P node_id secret_key st =
     (if length secret_key \<noteq> 32 then Err InvalidPublicKey
      else and_then (ok_or Db (List.find (\<lambda>n. kn_id n = node_id) (st_nodes st))) (\<lambda>row.
        and_then (ok_or NodeNotFound (kn_hardware_key_id row)) (\<lambda>hardware_key_id.
        and_then (ok_or NodeNotFound (kn_wrapped_share row)) (\<lambda>wrapped.
        and_then (get_key hardware_key_id st) (\<lambda>hardware_key.
        if hk_public_key hardware_key \<noteq> box_public P secret_key then Err IntegrityCheckFailed
        else ok_or IntegrityCheckFailed (box_unseal P secret_key wrapped))))))"

end
