(* ===== verification/KeyTreeFacts.thy ===== *)
theory KeyTreeFacts
  imports KeyTree "HOL-Library.Multiset"
begin

text \<open>
  Choosing among the shares of a split: every candidate the search examines is a choice of
  \<open>threshold\<close> distinct children, whatever the custody policy prefers, and any such choice among
  dealt shares recovers the value that was dealt.
\<close>

section \<open>Choosing shares\<close>

text \<open>A choice of \<open>k\<close> of \<open>n\<close> children, in order.\<close>

definition combination :: "nat \<Rightarrow> nat \<Rightarrow> nat list \<Rightarrow> bool" where
  "combination n k idx \<longleftrightarrow> sorted_wrt (<) idx \<and> length idx = k \<and> (\<forall>i \<in> set idx. i < n)"

lemma combination_upt: "k \<le> n \<Longrightarrow> combination n k [0..<k]"
  by (auto simp: combination_def)

lemma combination_room:
  assumes "combination n k idx" "i < k"
  shows "idx ! i + (k - i) \<le> n"
proof -
  have "idx ! i + j \<le> idx ! (i + j)" if "i + j < k" for j
    using that
  proof (induction j)
    case (Suc j)
    then have "idx ! (i + j) < idx ! Suc (i + j)"
      using assms(1) sorted_wrt_nth_less [of "(<)" idx "i + j" "Suc (i + j)"] by (auto simp: combination_def)
    with Suc show ?case by simp
  qed simp
  from this [of "k - 1 - i"] assms have "idx ! i + (k - 1 - i) \<le> idx ! (k - 1)" by simp
  moreover have "idx ! (k - 1) < n" using assms by (auto simp: combination_def)
  ultimately show ?thesis using assms(2) by linarith
qed

lemma next_at_combination:
  "next_at idx n i = Some idx' \<Longrightarrow> i \<le> k \<Longrightarrow> k \<le> n \<Longrightarrow> combination n k idx \<Longrightarrow> combination n k idx'"
proof (induction i)
  case (Suc i)
  show ?case
  proof (cases "idx ! i + 1 < n - (k - 1 - i)")
    case True
    have "idx' = take i idx @ [idx ! i + 1 ..< idx ! i + 1 + (k - i)]"
      using Suc.prems(1,4) True by (simp add: combination_def Let_def)
    moreover have "x < idx ! i" if "x \<in> set (take i idx)" for x
      using that Suc.prems sorted_wrt_nth_less [of "(<)" idx _ i] by (auto simp: in_set_conv_nth combination_def)
    moreover have "x < n" if "x \<in> set (take i idx)" for x
      using that Suc.prems(4) in_set_takeD [of x i idx] by (auto simp: combination_def)
    ultimately show ?thesis
      using Suc.prems True by (fastforce simp: combination_def sorted_wrt_append sorted_wrt_take)
  next
    case False
    with Suc show ?thesis by (simp add: combination_def Let_def)
  qed
qed simp

lemma next_combination_combination:
  "next_combination idx n = Some idx' \<Longrightarrow> combination n k idx \<Longrightarrow> combination n k idx'"
  by (rule next_at_combination [of idx n "length idx"])
     (auto simp: next_combination_def combination_def split: if_splits)

lemma take_loop_picks:
  assumes "sorted_wrt (>) order" "\<forall>i \<in> set order. i < length xs"
  shows "take_loop xs order = map (\<lambda>i. (i, xs ! i)) order"
  using assms
proof (induction order arbitrary: xs)
  case (Cons i order)
  have "swap_remove xs i ! j = xs ! j" "j < length (swap_remove xs i)" if "j \<in> set order" for j
    using that Cons.prems by (auto simp: swap_remove_def nth_butlast)
  with Cons show ?case by simp
qed simp

lemma take_indexed_picks:
  assumes "combination (length children) k idx"
  shows "take_indexed children idx = flatten_children (map (nth children) idx)"
proof -
  have s: "sorted idx" "distinct idx" "\<forall>i \<in> set idx. i < length children" "sorted_wrt (<) idx"
    using assms by (auto simp: combination_def strict_sorted_iff)
  have "take_loop children (rev (sort idx)) = map (\<lambda>i. (i, children ! i)) (rev idx)"
    using s by (subst take_loop_picks) (auto simp: sorted_sort_id sorted_wrt_rev)
  moreover have "sort_key fst (map (\<lambda>i. (i, children ! i)) (rev idx)) = map (\<lambda>i. (i, children ! i)) idx"
    using s by (intro sort_key_inj_key_eq) (auto simp: comp_def inj_on_def simp flip: rev_map)
  ultimately show ?thesis by (simp add: take_indexed_def comp_def)
qed

definition picked :: "resolved_child list \<Rightarrow> nat \<Rightarrow> bytes list \<times> used_leaf list \<Rightarrow> bool" where
  "picked children k r \<longleftrightarrow>
     (\<exists>idx. combination (length children) k idx \<and> r = flatten_children (map (nth children) idx))"

lemma settle_for_picks:
  assumes "settle_for children best saw = Ok r" "\<forall>m b. best = Some (m, b) \<longrightarrow> combination (length children) k b"
  shows "picked children k r"
  using assms take_indexed_picks by (fastforce simp: settle_for_def picked_def split: option.splits)

lemma search_loop_cases:
  assumes "search_loop P st key_id minimum children examined best saw idx = Ok r"
    "combination (length children) k idx" "\<forall>m b. best = Some (m, b) \<longrightarrow> combination (length children) k b"
  obtains "picked children k r"
  | b w i where "combination (length children) k i" "\<forall>m b'. b = Some (m, b') \<longrightarrow> combination (length children) k b'"
      "search_loop P st key_id minimum children (Suc examined) b w i = Ok r" "examined < MAX_EXAMINED"
proof (cases "Suc examined > MAX_EXAMINED")
  case True
  with assms(1) have "settle_for children best saw = Ok r" by (subst (asm) search_loop.simps) simp
  with assms(3) that(1) settle_for_picks show thesis by blast
next
  case False
  let ?go = "\<lambda>best saw. case next_combination idx (length children) of
      None \<Rightarrow> settle_for children best saw
    | Some i \<Rightarrow> search_loop P st key_id minimum children (Suc examined) best saw i"
  have "\<exists>b w. ?go b w = Ok r \<and> (\<forall>m b'. b = Some (m, b') \<longrightarrow> combination (length children) k b')"
    if other: "r \<noteq> take_indexed children idx"
  proof (cases "classify_devices P key_id (concat (map (\<lambda>i. snd (children ! i)) idx)) st")
    case (Inl e)
    with assms(1) False have "?go best True = Ok r \<or> ?go best saw = Ok r"
      by (subst (asm) search_loop.simps) (simp add: Let_def split: if_splits)
    with assms(3) show ?thesis by blast
  next
    case (Inr devs)
    let ?b = "case best of None \<Rightarrow> Some (length devs, idx)
        | Some (most, _) \<Rightarrow> if length devs > most then Some (length devs, idx) else best"
    from Inr assms(1) False other have "?go ?b saw = Ok r"
      by (subst (asm) search_loop.simps) (simp add: Let_def split: if_splits)
    moreover have "\<forall>m b'. ?b = Some (m, b') \<longrightarrow> combination (length children) k b'"
      using assms(2,3) by (auto split: option.splits)
    ultimately show ?thesis by blast
  qed
  then consider "r = take_indexed children idx"
    | b w where "?go b w = Ok r" "\<forall>m b'. b = Some (m, b') \<longrightarrow> combination (length children) k b'"
    by blast
  then show thesis
  proof cases
    case 1
    with assms(2) that(1) take_indexed_picks show ?thesis by (auto simp: picked_def)
  next
    case 2
    show ?thesis
    proof (cases "next_combination idx (length children)")
      case None
      with 2 that(1) settle_for_picks show ?thesis by auto
    next
      case (Some i)
      with 2 False that(2) next_combination_combination [OF Some assms(2)] show ?thesis by auto
    qed
  qed
qed

lemma search_loop_picks:
  assumes "search_loop P st key_id minimum children examined best saw idx = Ok r"
    "combination (length children) k idx" "\<forall>m b. best = Some (m, b) \<longrightarrow> combination (length children) k b"
  shows "picked children k r"
  using assms
proof (induction "MAX_EXAMINED - examined" arbitrary: examined best saw idx rule: less_induct)
  case less
  from less.prems show ?case
  proof (rule search_loop_cases)
    fix b w i
    assume "combination (length children) k i" "\<forall>m b'. b = Some (m, b') \<longrightarrow> combination (length children) k b'"
      "search_loop P st key_id minimum children (Suc examined) b w i = Ok r" "examined < MAX_EXAMINED"
    with less.hyps [of "Suc examined" b w i] show ?case by simp
  qed
qed

lemma select_picks:
  assumes "select_child_subset P policy t children = Ok r"
  shows "0 < t \<and> t \<le> length children \<and> picked children t r"
proof -
  from assms have t: "0 < t" "t \<le> length children" by (auto simp: select_child_subset_def split: if_splits)
  have "picked children t r"
  proof (cases policy)
    case None
    have "map (nth children) [0..<t] = take t children" using t by (intro nth_equalityI) auto
    with assms t None combination_upt [OF t(2)] show ?thesis
      by (auto simp: select_child_subset_def picked_def intro!: exI [of _ "[0..<t]"])
  next
    case (Some p)
    then obtain st key_id where p: "policy = Some (st, key_id)" by (cases p) simp
    with assms t obtain m where "search_loop P st key_id m children 0 None False [0..<t] = Ok r"
      by (auto simp: select_child_subset_def)
    from search_loop_picks [OF this combination_upt [OF t(2)]] show ?thesis by simp
  qed
  with t show ?thesis by blast
qed

section \<open>Dealt shares\<close>

lemma dealt:
  fixes k :: nat
  assumes "shamir_law S" "1 \<le> t" "t \<le> 255" "secret \<noteq> []" "n \<le> 255"
  defines "shares \<equiv> take n (deal S t secret k)"
  shows "length shares = n" and "distinct shares" and "\<forall>s \<in> set shares. share_ok S s \<and> s \<noteq> []"
    and "set sub \<subseteq> set shares \<Longrightarrow> distinct sub \<Longrightarrow> t \<le> length sub \<Longrightarrow> recover S t sub = Some secret"
proof -
  have law: "length (deal S t secret k) = 255"
    "i < 255 \<Longrightarrow> share_ok S (deal S t secret k ! i) \<and> hd (deal S t secret k ! i) = word_of_nat (Suc i)
       \<and> length (deal S t secret k ! i) = Suc (length secret)"
    "set sub \<subseteq> set (deal S t secret k) \<Longrightarrow> distinct sub \<Longrightarrow> t \<le> length sub \<Longrightarrow> recover S t sub = Some secret" for i sub
    using assms(1-4) by (auto simp: shamir_law_def)
  show len: "length shares = n" using law(1) assms(5) by (simp add: shares_def)
  have nth: "shares ! i = deal S t secret k ! i" "i < 255" if "i < n" for i
    using that assms(5) by (simp_all add: shares_def)
  have "(word_of_nat (Suc i) :: u8) \<noteq> word_of_nat (Suc j)" if "i < 255" "j < 255" "i \<noteq> j" for i j
    using that by (auto simp: word_of_nat_eq_iff take_bit_nat_eq_self)
  then show "distinct shares" using law(2) nth unfolding distinct_conv_nth len by metis
  show "\<forall>s \<in> set shares. share_ok S s \<and> s \<noteq> []"
  proof
    fix s
    assume "s \<in> set shares"
    then obtain i where "i < n" "s = shares ! i" using len by (auto simp: in_set_conv_nth)
    moreover from this have "share_ok S s" "length s = Suc (length secret)" using law(2) [of i] nth [of i] by auto
    ultimately show "share_ok S s \<and> s \<noteq> []" by auto
  qed
  show "set sub \<subseteq> set shares \<Longrightarrow> distinct sub \<Longrightarrow> t \<le> length sub \<Longrightarrow> recover S t sub = Some secret"
    using law(3) set_take_subset [of n "deal S t secret k"] by (auto simp: shares_def)
qed

end
