(* ===== verification/Splitting.thy ===== *)
theory Splitting
  imports KeyTreeFacts
begin

text \<open>
  What \<open>split_key\<close> leaves in the tables: the rows of the new tree in the order they were inserted,
  each leaf sealed to its key and the children of each split holding the shares of one dealing.
\<close>

section \<open>Growth of the tables\<close>

text \<open>The store has gained the given rows, with ids above all earlier ones and increasing.\<close>

definition grown :: "store \<Rightarrow> node_row list \<Rightarrow> store \<Rightarrow> bool" where
  "grown st rows st' \<longleftrightarrow>
     st_nodes st' = st_nodes st @ rows \<and> st_hardware_keys st' = st_hardware_keys st \<and> st_keys st' = st_keys st
     \<and> sorted_wrt (<) (map kn_id rows) \<and> (\<forall>m \<in> set (st_nodes st). \<forall>n \<in> set rows. kn_id m < kn_id n)"

lemma grown_refl: "st_nodes st' = st_nodes st \<Longrightarrow> st_hardware_keys st' = st_hardware_keys st \<Longrightarrow> st_keys st' = st_keys st \<Longrightarrow>
    grown st [] st'"
  by (simp add: grown_def)

lemma grown_trans: "grown st a st1 \<Longrightarrow> grown st1 b st2 \<Longrightarrow> grown st (a @ b) st2"
  by (auto simp: grown_def sorted_wrt_append)

lemma fold_max_above: "(i :: int) \<in> set xs \<or> i \<le> m \<Longrightarrow> i \<le> fold max xs m"
proof (induction xs arbitrary: m)
  case (Cons a xs)
  from Cons.prems Cons.IH [of "max a m"] show ?case by (auto simp: le_max_iff_disj)
qed simp

lemma next_id_above: "i \<in> set ids \<Longrightarrow> i < next_id ids"
  using fold_max_above [of i ids 0] by (simp add: next_id_def)

lemma insert_node_grown:
  assumes "insert_node key_id parent label threshold h w active st = (Ok i, st')"
  shows "grown st [\<lparr>kn_id = i, kn_key_id = key_id, kn_parent_id = parent, kn_label = label, kn_threshold = threshold,
           kn_hardware_key_id = h, kn_wrapped_share = w, kn_is_active = active\<rparr>] st'"
  using assms by (auto simp: insert_node_def grown_def Let_def next_id_above split: if_splits)

lemma insert_allowed_bridges_grown:
  "insert_allowed_bridges i peers st = (Ok (), st') \<Longrightarrow> grown st [] st'"
proof (induction peers arbitrary: st)
  case (Cons peer peers)
  then obtain st1 where "insert_bridge i peer st = (Ok (), st1)" "grown st1 [] st'" by (auto simp: res_simps)
  moreover from this(1) have "grown st [] st1" by (auto simp: insert_bridge_def grown_def split: if_splits)
  ultimately show ?case using grown_trans by fastforce
qed (simp add: grown_refl)

section \<open>What a split stores\<close>

text \<open>
  The rows of a subtree with the given parent and value, in the order they were inserted: a leaf
  holds its value sealed to its key, and the children of a split hold the shares of one dealing.
\<close>

inductive laid ::
    "prims \<Rightarrow> shamir \<Rightarrow> hardware_key list \<Rightarrow> int \<Rightarrow> int option \<Rightarrow> bytes \<Rightarrow> node_spec \<Rightarrow> node_row list \<Rightarrow> bool"
  and laid_all ::
    "prims \<Rightarrow> shamir \<Rightarrow> hardware_key list \<Rightarrow> int \<Rightarrow> int \<Rightarrow> bytes list \<Rightarrow> node_spec list \<Rightarrow> node_row list list \<Rightarrow> bool"
  for P S hks key_id where
  leaf: "List.find (\<lambda>k. hk_id k = h) hks = Some hw \<Longrightarrow>
    laid P S hks key_id parent v (Leaf l h b)
      [\<lparr>kn_id = i, kn_key_id = key_id, kn_parent_id = parent, kn_label = l, kn_threshold = None,
        kn_hardware_key_id = Some h, kn_wrapped_share = Some (box_seal P (hk_public_key hw) v), kn_is_active = True\<rparr>]"
| split: "laid_all P S hks key_id i (take (length cs) (deal S (unat t) v k)) cs rss \<Longrightarrow>
    laid P S hks key_id parent v (Split l t cs b)
      (\<lparr>kn_id = i, kn_key_id = key_id, kn_parent_id = parent, kn_label = l, kn_threshold = Some (uint t),
        kn_hardware_key_id = None, kn_wrapped_share = None, kn_is_active = True\<rparr> # concat rss)"
| none: "laid_all P S hks key_id i [] [] []"
| some: "laid P S hks key_id (Some i) v c rs \<Longrightarrow> laid_all P S hks key_id i vs cs rss \<Longrightarrow>
    laid_all P S hks key_id i (v # vs) (c # cs) (rs # rss)"

lemma split_node_laid:
  "split_node P S key_id parent v spec st = (Ok (), st') \<Longrightarrow>
     \<exists>rows. grown st rows st' \<and> laid P S (st_hardware_keys st) key_id parent v spec rows"
  "split_children P S key_id i vs cs st = (Ok (), st') \<Longrightarrow> length vs = length cs \<Longrightarrow>
     \<exists>rss. grown st (concat rss) st' \<and> laid_all P S (st_hardware_keys st) key_id i vs cs rss"
proof (induction P S key_id parent v spec and P S key_id i vs cs arbitrary: st st' and st st'
    rule: split_node_split_children.induct)
  case (1 P S key_id parent v l h b)
  from 1(1) obtain hw i st1 where hw: "get_active_encryption_key h st = Ok hw" "length (hk_public_key hw) = 32"
    and i: "insert_node key_id parent l None (Some h) (Some (box_seal P (hk_public_key hw) v)) True st = (Ok i, st1)"
    and b: "insert_allowed_bridges i b st1 = (Ok (), st')"
    by (auto simp: res_simps seal_share_def split: sum.splits if_splits)
  from hw have "List.find (\<lambda>k. hk_id k = h) (st_hardware_keys st) = Some hw"
    by (auto simp: get_active_encryption_key_def get_key_def res_simps split: if_splits)
  with grown_trans [OF insert_node_grown [OF i] insert_allowed_bridges_grown [OF b]] show ?case
    by (auto intro: laid_laid_all.leaf)
next
  case (2 P S key_id parent v l t cs b)
  let ?shares = "\<lambda>k. take (length cs) (deal S (unat t) v k)"
  from 2(2) obtain i st1 st2 st3 k where
    i: "insert_node key_id parent l (Some (int (unat t))) None None True st = (Ok i, st1)"
    and b: "insert_allowed_bridges i b st1 = (Ok (), st2)" and d: "draw st2 = (Ok k, st3)"
    and len: "length (?shares k) = length cs" and c: "split_children P S key_id i (?shares k) cs st3 = (Ok (), st')"
    by (auto simp: res_simps Let_def split: if_splits)
  from 2(1) [OF refl _ c len] len obtain rss where
    rss: "grown st3 (concat rss) st'" "laid_all P S (st_hardware_keys st3) key_id i (?shares k) cs rss" by auto
  have "grown st2 [] st3" using d by (auto simp: draw_def grown_def)
  from grown_trans [OF grown_trans [OF grown_trans [OF insert_node_grown [OF i] insert_allowed_bridges_grown [OF b]] this] rss(1)]
  have g: "grown st (\<lparr>kn_id = i, kn_key_id = key_id, kn_parent_id = parent, kn_label = l, kn_threshold = Some (uint t),
      kn_hardware_key_id = None, kn_wrapped_share = None, kn_is_active = True\<rparr> # concat rss) st'" by simp
  with rss have "st_hardware_keys st3 = st_hardware_keys st" by (simp add: grown_def)
  with g rss show ?case by (auto intro: laid_laid_all.split)
next
  case (4 P S key_id i vs c cs)
  from 4(4) obtain v vs' where vs: "vs = v # vs'" by (cases vs) auto
  with 4(3) obtain st1 where c: "split_node P S key_id (Some i) v c st = (Ok (), st1)"
    and cs: "split_children P S key_id i vs' cs st1 = (Ok (), st')" by (auto simp: res_simps)
  from 4(1) [OF vs c] obtain rs where
    rs: "grown st rs st1" "laid P S (st_hardware_keys st) key_id (Some i) v c rs" by blast
  from 4(2) [OF vs cs] 4(4) vs obtain rss where
    rss: "grown st1 (concat rss) st'" "laid_all P S (st_hardware_keys st1) key_id i vs' cs rss" by auto
  have "st_hardware_keys st1 = st_hardware_keys st" using rs(1) by (simp add: grown_def)
  with rs rss vs grown_trans [OF rs(1) rss(1)] show ?case
    by (intro exI [of _ "rs # rss"]) (auto intro: laid_laid_all.some)
qed (auto intro: laid_laid_all.none grown_refl intro!: exI [of _ "[] :: node_row list list"])

section \<open>The shape of the rows\<close>

fun spec_labels :: "node_spec \<Rightarrow> str list" where
  "spec_labels (Leaf l h b) = [l]"
| "spec_labels (Split l t cs b) = l # concat (map spec_labels cs)"

text \<open>A list of rows headed by one with the given parent, all others below rows of the list.\<close>

definition rooted :: "int option \<Rightarrow> node_row list \<Rightarrow> bool" where
  "rooted parent rows \<longleftrightarrow>
     (\<exists>r rs. rows = r # rs \<and> kn_parent_id r = parent \<and> (\<forall>n \<in> set rs. kn_parent_id n \<in> Some ` kn_id ` set rows))"

lemma rooted_head: "rooted parent rows \<Longrightarrow> rows \<noteq> [] \<and> kn_parent_id (hd rows) = parent"
  by (auto simp: rooted_def)

lemma rooted_parents: "rooted parent rows \<Longrightarrow> n \<in> set rows \<Longrightarrow> kn_parent_id n \<in> insert parent (Some ` kn_id ` set rows)"
  by (auto simp: rooted_def)

lemma laid_rows:
  "laid P S hks key_id parent v spec rows \<Longrightarrow> map kn_label rows = spec_labels spec
     \<and> list_all (\<lambda>n. kn_key_id n = key_id \<and> kn_is_active n) rows \<and> rooted parent rows"
  "laid_all P S hks key_id i vs cs rss \<Longrightarrow> map kn_label (concat rss) = concat (map spec_labels cs)
     \<and> list_all (\<lambda>n. kn_key_id n = key_id \<and> kn_is_active n) (concat rss)
     \<and> length vs = length cs \<and> length rss = length cs \<and> list_all (rooted (Some i)) rss"
proof (induction rule: laid_laid_all.inducts)
  case (split i cs t v k rss parent l b)
  then have "kn_parent_id n \<in> Some ` insert i (kn_id ` set (concat rss))" if "n \<in> set (concat rss)" for n
    using that by (fastforce simp: list_all_iff dest: rooted_parents)
  with split show ?case by (simp add: rooted_def)
qed (auto simp: rooted_def)

lemma children_of_root:
  "list_all (rooted (Some i)) rss \<Longrightarrow> i \<notin> kn_id ` set (concat rss) \<Longrightarrow>
     filter (\<lambda>n. kn_parent_id n = Some i) (concat rss) = map hd rss"
proof (induction rss)
  case (Cons rs rss)
  then obtain r rs' where rs: "rs = r # rs'" "kn_parent_id r = Some i" "\<forall>n \<in> set rs'. kn_parent_id n \<in> Some ` kn_id ` set rs"
    by (auto simp: rooted_def)
  with Cons.prems(2) have "filter (\<lambda>n. kn_parent_id n = Some i) rs' = []" by (fastforce simp: filter_empty_conv)
  with rs Cons show ?case by (simp add: image_Un)
qed simp

lemma children_within:
  assumes "list_all (rooted (Some i)) rss" "distinct (i # map kn_id (concat rss))" "rs \<in> set rss" "n \<in> set rs"
  shows "filter (\<lambda>m. kn_parent_id m = Some (kn_id n)) (concat rss) = filter (\<lambda>m. kn_parent_id m = Some (kn_id n)) rs"
proof -
  from assms(3) obtain xs ys where rss: "rss = xs @ rs # ys" by (meson split_list)
  have apart: "i \<notin> kn_id ` set rs" "kn_id ` set rs \<inter> kn_id ` set (concat xs) = {}" "kn_id ` set rs \<inter> kn_id ` set (concat ys) = {}"
    using assms(2) unfolding rss map_append concat_append concat.simps distinct_append distinct.simps set_append set_map by blast+
  have "kn_parent_id m \<noteq> Some (kn_id n)" if "m \<in> set (concat xs) \<union> set (concat ys)" for m
  proof
    assume "kn_parent_id m = Some (kn_id n)"
    moreover from that obtain rs' where "rs' \<in> set xs \<union> set ys" "m \<in> set rs'" by auto
    ultimately have "kn_id n \<in> insert i (kn_id ` set rs')" "rs' \<in> set xs \<union> set ys"
      using assms(1) rooted_parents [of "Some i" rs' m] by (auto simp: list_all_iff rss)
    then have "kn_id n = i \<or> kn_id n \<in> kn_id ` set (concat xs) \<or> kn_id n \<in> kn_id ` set (concat ys)" by auto
    with apart assms(4) show False by blast
  qed
  then have "filter (\<lambda>m. kn_parent_id m = Some (kn_id n)) (concat xs) = []"
    "filter (\<lambda>m. kn_parent_id m = Some (kn_id n)) (concat ys) = []" by (auto simp: filter_empty_conv)
  then show ?thesis by (simp add: rss)
qed

lemma collect_labels_distinct:
  "collect_labels spec seen = Ok s \<Longrightarrow>
     distinct (spec_labels spec) \<and> set (spec_labels spec) \<inter> seen = {} \<and> s = seen \<union> set (spec_labels spec)"
  "collect_all_labels cs seen = Ok s \<Longrightarrow>
     distinct (concat (map spec_labels cs)) \<and> set (concat (map spec_labels cs)) \<inter> seen = {} \<and> s = seen \<union> set (concat (map spec_labels cs))"
proof (induction spec seen and cs seen arbitrary: s and s rule: collect_labels_collect_all_labels.induct)
  case (2 l t cs b seen)
  then have "l \<notin> seen" "collect_all_labels cs (insert l seen) = Ok s" by (auto split: if_splits)
  with 2(1) [OF _ this(2)] 2(2) show ?case by (auto split: if_splits)
next
  case (4 c cs seen)
  from 4(3) obtain s1 where c: "collect_labels c seen = Ok s1" and cs: "collect_all_labels cs s1 = Ok s"
    by (auto simp: res_simps)
  from 4(1) [OF c] 4(2) [OF c cs] show ?case by auto
qed (auto split: if_splits)

section \<open>The arena of the rows\<close>

lemma position_nth: "position p xs = Some i \<Longrightarrow> i < length xs \<and> p (xs ! i)"
  by (induction xs arbitrary: i) (auto split: if_splits)

lemma position_None_iff: "position p xs = None \<longleftrightarrow> \<not> list_ex p xs"
  by (induction xs) auto

lemma position_key: "distinct (map f xs) \<Longrightarrow> position (\<lambda>x. f x = k) xs = Some i \<longleftrightarrow> i < length xs \<and> f (xs ! i) = k"
proof (induction xs arbitrary: i)
  case (Cons x xs)
  then show ?case by (cases i) (auto simp: image_iff, metis nth_mem)
qed simp

lemma mapM_Ok_iff: "mapM f xs = Ok ys \<longleftrightarrow> list_all2 (\<lambda>x y. f x = Ok y) xs ys"
  by (induction xs arbitrary: ys) (auto simp: list_all2_Cons1 res_simps)

text \<open>
  The nodes of an arena carry the columns of the rows in their order, and list as children the
  positions of the rows below them.
\<close>

definition mirrors :: "key_node list \<Rightarrow> node_row list \<Rightarrow> bool" where
  "mirrors nodes rows \<longleftrightarrow>
     length nodes = length rows
     \<and> (\<forall>i < length rows.
          nd_db_id (nodes ! i) = kn_id (rows ! i) \<and> nd_id (nodes ! i) = kn_label (rows ! i)
          \<and> nd_threshold (nodes ! i) = map_option nat (kn_threshold (rows ! i))
          \<and> nd_is_active (nodes ! i) = kn_is_active (rows ! i)
          \<and> nd_hardware_key_id (nodes ! i) = kn_hardware_key_id (rows ! i)
          \<and> nd_children (nodes ! i) = filter (\<lambda>j. kn_parent_id (rows ! j) = Some (kn_id (rows ! i))) [0..<length rows])"

lemma load_mirrors:
  assumes "load key_id st = Ok tree" "distinct (map kn_id (tree_rows key_id st))"
  shows "mirrors (kt_nodes tree) (tree_rows key_id st)"
proof -
  let ?rows = "tree_rows key_id st"
  from assms(1) obtain parents where p: "mapM (parent_index ?rows) ?rows = Ok parents"
    and nodes: "kt_nodes tree = map (arena_node (st_bridges st) parents ?rows) [0..<length ?rows]"
    by (auto simp: load_def Let_def res_simps split: if_splits)
  have "(parents ! j = Some i) = (kn_parent_id (?rows ! j) = Some (kn_id (?rows ! i)))"
    if "i < length ?rows" "j < length ?rows" for i j
  proof -
    from p that have *: "parent_index ?rows (?rows ! j) = Ok (parents ! j)" by (simp add: mapM_Ok_iff list_all2_conv_all_nth)
    show ?thesis
    proof (cases "kn_parent_id (?rows ! j)")
      case (Some q)
      with * obtain x where x: "position (\<lambda>r. kn_id r = q) ?rows = Some x" "parents ! j = Some x"
        by (cases "position (\<lambda>r. kn_id r = q) ?rows") (auto simp: parent_index_def)
      with position_nth [OF x(1)] Some that nth_eq_iff_index_eq [OF assms(2), of x i] show ?thesis by auto
    qed (use * in \<open>auto simp: parent_index_def\<close>)
  qed
  then show ?thesis by (auto simp: mirrors_def nodes arena_node_def Let_def intro!: filter_cong)
qed

lemma load_rooted:
  assumes "rooted None (tree_rows key_id st)" "distinct (map kn_label (tree_rows key_id st))"
  shows "\<exists>tree. load key_id st = Ok tree \<and> kt_root_index tree = 0"
proof -
  let ?rows = "tree_rows key_id st"
  from assms(1) obtain r rs where rows: "?rows = r # rs" and r: "kn_parent_id r = None"
    and rs: "\<forall>n \<in> set rs. kn_parent_id n \<in> Some ` kn_id ` set ?rows" by (auto simp: rooted_def)
  have "\<exists>i. parent_index ?rows n = Ok i" if "n \<in> set ?rows" for n
  proof (cases "kn_parent_id n")
    case (Some p)
    with that r rs rows have "list_ex (\<lambda>r. kn_id r = p) ?rows" by (fastforce simp: list_ex_iff)
    then obtain i where "position (\<lambda>r. kn_id r = p) ?rows = Some i" using position_None_iff by (metis option.exhaust)
    with Some show ?thesis by (simp add: parent_index_def)
  qed (simp add: parent_index_def)
  then obtain f where "\<forall>n \<in> set ?rows. parent_index ?rows n = Ok (f n)" by metis
  then have p: "mapM (parent_index ?rows) ?rows = Ok (map f ?rows)" by (simp add: mapM_Ok_iff list_all2_conv_all_nth)
  have "f r = None" using \<open>\<forall>n \<in> set ?rows. _ n\<close> rows r by (auto simp: parent_index_def)
  with p rows assms(2) show ?thesis
    by (simp add: load_def Let_def arena_node_def upt_conv_Cons del: upt_Suc mapM.simps)
qed

section \<open>A split tree\<close>

fun thresholds_fit :: "node_spec \<Rightarrow> bool" where
  "thresholds_fit (Leaf l h b) = True"
| "thresholds_fit (Split l t cs b) = (0 < t \<and> unat t \<le> length cs \<and> length cs \<le> 255 \<and> list_all thresholds_fit cs)"

lemma validate_node_fit:
  "validate_node st spec n = Ok m \<Longrightarrow> thresholds_fit spec"
  "validate_nodes st cs n = Ok m \<Longrightarrow> list_all thresholds_fit cs"
  by (induction st spec n and st cs n arbitrary: m and m rule: validate_node_validate_nodes.induct)
    (auto simp: res_simps word_gt_0 split: if_splits)

text \<open>Row ids are unique and every node belongs to a key that exists.\<close>

definition tables_ok :: "store \<Rightarrow> bool" where
  "tables_ok st \<longleftrightarrow> distinct (map kn_id (st_nodes st)) \<and> kn_key_id ` set (st_nodes st) \<subseteq> k_id ` set (st_keys st)"

lemma sorted_distinct_ids: "sorted_wrt (<) (map kn_id rows) \<Longrightarrow> distinct (map kn_id rows) \<and> sort_key kn_id rows = rows"
  by (simp add: strict_sorted_iff sort_key_id_if_sorted)

lemma split_key_laid:
  assumes "split_key P S label v spec st = (Ok key_id, st')" "tables_ok st"
  shows "tables_ok st'" and "laid P S (st_hardware_keys st') key_id None v spec (tree_rows key_id st')"
    and "distinct (map kn_id (tree_rows key_id st'))" and "distinct (map kn_label (tree_rows key_id st'))"
    and "thresholds_fit spec" and "k \<noteq> key_id \<Longrightarrow> tree_rows k st' = tree_rows k st"
    and "set (tree_rows key_id st') \<subseteq> set (st_nodes st')"
proof -
  from assms(1) obtain st1 where v: "validate spec st = Ok ()" and k: "insert_key label st = (Ok key_id, st1)"
    and s: "split_node P S key_id None v spec st1 = (Ok (), st')"
    by (auto simp: split_key_def transaction_def build_tree_def res_simps split: prod.splits sum.splits)
  from v obtain labels n where l: "validate_node st spec 0 = Ok n" "collect_labels spec {} = Ok labels"
    by (auto simp: validate_def res_simps split: if_splits)
  from split_node_laid(1) [OF s] obtain rows where g: "grown st1 rows st'"
    and laid: "laid P S (st_hardware_keys st1) key_id None v spec rows" by blast
  from k have st1: "st_nodes st1 = st_nodes st" "st_hardware_keys st1 = st_hardware_keys st"
    "k_id ` set (st_keys st1) = insert key_id (k_id ` set (st_keys st))" "key_id \<notin> k_id ` set (st_keys st)"
    using next_id_above [of key_id "map k_id (st_keys st)"] by (auto simp: insert_key_def Let_def)
  have own: "filter (\<lambda>n. kn_key_id n = key_id) (st_nodes st) = []" using assms(2) st1(4) by (auto simp: tables_ok_def filter_empty_conv)
  have mine: "list_all (\<lambda>n. kn_key_id n = key_id) rows" using laid_rows(1) [OF laid] by (simp add: list_all_iff)
  from g have sorted: "sorted_wrt (<) (map kn_id rows)" and nodes: "st_nodes st' = st_nodes st @ rows"
    and hk: "st_hardware_keys st' = st_hardware_keys st1" "st_keys st' = st_keys st1"
    and above: "\<forall>m \<in> set (st_nodes st). \<forall>n \<in> set rows. kn_id m < kn_id n" by (simp_all add: grown_def st1)
  have rows: "tree_rows key_id st' = rows"
    using own mine sorted_distinct_ids [OF sorted] by (simp add: tree_rows_def nodes list_all_iff)
  have "kn_id m \<noteq> kn_id n" if "m \<in> set (st_nodes st)" "n \<in> set rows" for m n
    using bspec [OF bspec [OF above that(1)] that(2)] by simp
  then have "kn_id ` set (st_nodes st) \<inter> kn_id ` set rows = {}" by blast
  moreover have "kn_key_id ` set rows \<subseteq> {key_id}" using mine by (auto simp: list_all_iff)
  ultimately show "tables_ok st'" using assms(2) sorted_distinct_ids [OF sorted] st1(3)
    by (simp add: tables_ok_def nodes hk image_Un) blast
  show "laid P S (st_hardware_keys st') key_id None v spec (tree_rows key_id st')" using laid by (simp add: rows hk)
  show "distinct (map kn_id (tree_rows key_id st'))" using sorted_distinct_ids [OF sorted] by (simp add: rows)
  show "distinct (map kn_label (tree_rows key_id st'))"
    using collect_labels_distinct(1) [OF l(2)] laid_rows(1) [OF laid] by (simp add: rows)
  show "thresholds_fit spec" using validate_node_fit(1) [OF l(1)] .
  show "k \<noteq> key_id \<Longrightarrow> tree_rows k st' = tree_rows k st"
    using mine by (auto simp: tree_rows_def nodes list_all_iff filter_empty_conv)
  show "set (tree_rows key_id st') \<subseteq> set (st_nodes st')" by (simp add: rows nodes)
qed

end
