(* ===== verification/Reconstruction.thy ===== *)
theory Reconstruction
  imports Splitting "HOL-Library.Sublist"
begin

text \<open>
  Reconstruction from the shares that holders unseal: what it returns for the rows a split stored,
  with and without the custody policy, and that its recursion ends on every tree that loads.
\<close>

section \<open>Quorums\<close>

text \<open>The labels \<open>A\<close> satisfy a specification when enough children of each counted split do.\<close>

fun satisfied :: "str set \<Rightarrow> node_spec \<Rightarrow> bool" where
  "satisfied A (Leaf l h b) = (l \<in> A)"
| "satisfied A (Split l t cs b) = (unat t \<le> length (filter (satisfied A) cs))"

lemma filter_length_mono: "(\<And>x. x \<in> set xs \<Longrightarrow> p x \<Longrightarrow> q x) \<Longrightarrow> length (filter p xs) \<le> length (filter q xs)"
  by (induction xs) (auto simp: le_SucI)

lemma satisfied_mono: "satisfied A spec \<Longrightarrow> A \<subseteq> B \<Longrightarrow> satisfied B spec"
proof (induction A spec rule: satisfied.induct)
  case (2 A l t cs b)
  then have "length (filter (satisfied A) cs) \<le> length (filter (satisfied B) cs)" by (intro filter_length_mono) auto
  with 2 show ?case by simp
qed auto

section \<open>Choices among resolved children\<close>

lemma combination_subseq:
  assumes "combination (length xs) k idx"
  shows "subseq (map (nth xs) idx) xs"
proof -
  have "idx = filter (\<lambda>i. i \<in> set idx) [0..<length xs]"
    using assms by (intro sorted_distinct_set_unique) (auto simp: combination_def strict_sorted_iff intro: sorted_wrt_filter)
  then have "subseq idx [0..<length xs]" by (metis subseq_filter_left)
  from subseq_map [OF this, of "nth xs"] show ?thesis by (simp add: map_nth)
qed

lemma subseq_distinct: "subseq xs ys \<Longrightarrow> set xs \<subseteq> set ys \<and> (distinct ys \<longrightarrow> distinct xs)"
  by (induction rule: list_emb.induct) auto

lemma subseq_counted: "subseq xs ys \<Longrightarrow> (\<And>x. x \<in> set xs \<Longrightarrow> q x) \<Longrightarrow> length xs \<le> length (filter q ys)"
  by (induction rule: list_emb.induct) (auto simp: le_SucI)

text \<open>
  The children that resolve are some of the children, in order, each with its own share and with
  leaves that satisfy it.
\<close>

definition resolves :: "str set \<Rightarrow> resolved_child \<Rightarrow> bytes \<times> node_spec \<Rightarrow> bool" where
  "resolves A r vc \<longleftrightarrow>
     fst r = fst vc \<and> satisfied (ul_leaf_label ` set (snd r)) (snd vc) \<and> ul_leaf_label ` set (snd r) \<subseteq> A"

lemma resolves_mono: "resolves A r vc \<Longrightarrow> ul_leaf_label ` set (snd r) \<subseteq> B \<Longrightarrow> satisfied B (snd vc)"
  unfolding resolves_def using satisfied_mono by blast

lemma chosen_recover:
  fixes k :: nat and t :: u8
  assumes "shamir_law S" "0 < t" "v \<noteq> []" "length cs \<le> 255"
    and emb: "subseq emb (zip (take (length cs) (deal S (unat t) v k)) cs)" "list_all2 (resolves A) res emb"
    and sel: "select_child_subset P policy (unat t) res = Ok (shares, leaves)"
  shows "recover S (unat t) shares = Some v" and "satisfied (ul_leaf_label ` set leaves) (Split l t cs b)"
    and "ul_leaf_label ` set leaves \<subseteq> A"
proof -
  let ?vs = "take (length cs) (deal S (unat t) v k)"
  have t: "1 \<le> unat t" using assms(2) by (simp add: word_gt_0 unat_gt_0 Suc_le_eq)
  have "unat t \<le> 255" using u8_unat_bound [of t] by linarith
  note d = dealt [OF assms(1) t this assms(3,4)]
  from select_picks [OF sel] obtain idx where idx: "combination (length res) (unat t) idx"
    and "(shares, leaves) = flatten_children (map (nth res) idx)" by (auto simp: picked_def)
  then have sl: "shares = map (\<lambda>i. fst (res ! i)) idx" "leaves = concat (map (\<lambda>i. snd (res ! i)) idx)" "length idx = unat t"
    by (simp_all add: flatten_children_def combination_def comp_def)
  have r: "resolves A (res ! i) (emb ! i)" if "i \<in> set idx" for i
    using emb(2) idx that by (simp add: combination_def list_all2_conv_all_nth)
  have "subseq (map (nth emb) idx) emb"
    using combination_subseq [of emb "unat t" idx] idx list_all2_lengthD [OF emb(2)] by simp
  then have "subseq (map (nth emb) idx) (zip ?vs cs)" using emb(1) by (rule subseq_order.order_trans)
  from subseq_map [OF this, of fst] subseq_map [OF this, of snd] d(1)
  have sub: "subseq (map (\<lambda>i. fst (emb ! i)) idx) ?vs" "subseq (map (\<lambda>i. snd (emb ! i)) idx) cs" by (simp_all add: comp_def)
  have "shares = map (\<lambda>i. fst (emb ! i)) idx" using r by (simp add: sl resolves_def)
  with subseq_distinct [OF sub(1)] d(2) [of k] d(4) [of shares k] sl(3) show "recover S (unat t) shares = Some v" by simp
  have "length (map (\<lambda>i. snd (emb ! i)) idx) \<le> length (filter (satisfied (ul_leaf_label ` set leaves)) cs)"
    using sub(2) by (rule subseq_counted) (use r in \<open>auto simp: sl(2) intro: resolves_mono\<close>)
  then show "satisfied (ul_leaf_label ` set leaves) (Split l t cs b)" by (simp add: sl(3))
  show "ul_leaf_label ` set leaves \<subseteq> A" using r by (auto simp: sl(2) resolves_def)
qed

section \<open>Reconstructing stored rows\<close>

text \<open>
  A leaf either presents nothing, and is not among \<open>A\<close>, or presents what the secret key of its
  hardware key unseals from its row.
\<close>

definition answered :: "prims \<Rightarrow> hardware_key list \<Rightarrow> (int \<Rightarrow> bytes option) \<Rightarrow> str set \<Rightarrow> node_row \<Rightarrow> bool" where
  "answered P hks raw A n \<longleftrightarrow>
     (\<forall>h. kn_hardware_key_id n = Some h \<longrightarrow>
        (case raw (kn_id n) of
           None \<Rightarrow> kn_label n \<notin> A
         | Some s \<Rightarrow> kn_label n \<in> A \<and>
             (\<exists>hw sk w. List.find (\<lambda>k. hk_id k = h) hks = Some hw \<and> hk_public_key hw = box_public P sk
                \<and> kn_wrapped_share n = Some w \<and> box_unseal P sk w = Some s)))"

text \<open>A subtree among all rows: the children of its nodes are its own.\<close>

definition placed :: "prims \<Rightarrow> hardware_key list \<Rightarrow> (int \<Rightarrow> bytes option) \<Rightarrow> str set \<Rightarrow> node_row list \<Rightarrow> int option \<Rightarrow> node_row list \<Rightarrow> bool" where
  "placed P hks raw A rows parent sub \<longleftrightarrow>
     distinct (map kn_id sub) \<and> parent \<notin> Some ` kn_id ` set sub \<and> list_all (answered P hks raw A) sub
     \<and> (\<forall>n \<in> set sub. filter (\<lambda>m. kn_parent_id m = Some (kn_id n)) rows = filter (\<lambda>m. kn_parent_id m = Some (kn_id n)) sub)"

lemma placed_children:
  assumes "placed P hks raw A rows parent (r # concat rss)" "kn_parent_id r = parent" "list_all (rooted (Some (kn_id r))) rss"
  shows "filter (\<lambda>m. kn_parent_id m = Some (kn_id r)) rows = map hd rss"
    and "rs \<in> set rss \<Longrightarrow> placed P hks raw A rows (Some (kn_id r)) rs"
proof -
  have d: "distinct (kn_id r # map kn_id (concat rss))" using assms(1) by (simp add: placed_def)
  have parent: "parent \<noteq> Some (kn_id n)" if "n \<in> set (r # concat rss)" for n using assms(1) that by (auto simp: placed_def)
  show "filter (\<lambda>m. kn_parent_id m = Some (kn_id r)) rows = map hd rss"
    using assms children_of_root [OF assms(3)] d parent [of r] by (auto simp: placed_def)
  assume rs: "rs \<in> set rss"
  have "filter (\<lambda>m. kn_parent_id m = Some (kn_id n)) rows = filter (\<lambda>m. kn_parent_id m = Some (kn_id n)) rs" if "n \<in> set rs" for n
  proof -
    have n: "n \<in> set (r # concat rss)" using rs that by auto
    then have "filter (\<lambda>m. kn_parent_id m = Some (kn_id n)) rows = filter (\<lambda>m. kn_parent_id m = Some (kn_id n)) (r # concat rss)"
      using assms(1) unfolding placed_def by blast
    then show ?thesis using assms(2) parent [OF n] children_within [OF assms(3) d rs that] by simp
  qed
  moreover have "distinct (map kn_id rs)" "kn_id r \<notin> kn_id ` set rs"
    using d rs by (auto dest!: split_list)
  moreover have "list_all (answered P hks raw A) rs" using assms(1) rs by (auto simp: placed_def list_all_iff)
  ultimately show "placed P hks raw A rows (Some (kn_id r)) rs" by (auto simp: placed_def)
qed

text \<open>What reconstructing a subtree that holds \<open>v\<close> may return; without a policy it is determined.\<close>

definition outcome :: "(store \<times> int) option \<Rightarrow> str set \<Rightarrow> bytes \<Rightarrow> node_spec \<Rightarrow> resolved_child result \<Rightarrow> bool" where
  "outcome policy A v spec r \<longleftrightarrow>
     (\<forall>x. r = Ok x \<longrightarrow> resolves A x (v, spec))
     \<and> (policy = None \<longrightarrow> (if satisfied A spec then \<exists>x. r = Ok x else r = Err QuorumNotMet))"

lemma leaf_outcome:
  assumes "box_law P" "mirrors nodes rows" "List.find (\<lambda>k. hk_id k = h) hks = Some hw" "idx < length rows"
    "rows ! idx = \<lparr>kn_id = i, kn_key_id = key_id, kn_parent_id = parent, kn_label = l, kn_threshold = None,
        kn_hardware_key_id = Some h, kn_wrapped_share = Some (box_seal P (hk_public_key hw) v), kn_is_active = True\<rparr>"
    "answered P hks raw A (rows ! idx)"
  shows "\<exists>r. reconstruct_node (Suc fuel) P S nodes raw policy idx = Some r \<and> outcome policy A v (Leaf l h b) r"
proof (cases "raw i")
  case None
  with assms show ?thesis
    by (auto simp: mirrors_def answered_def outcome_def Let_def)
next
  case (Some s)
  with assms have "l \<in> A" "s = v" by (auto simp: answered_def box_law_def)
  with assms Some show ?thesis
    by (auto simp: mirrors_def outcome_def resolves_def Let_def)
qed

lemma split_outcome:
  fixes k :: nat and t :: u8
  assumes "shamir_law S" "mirrors nodes rows" "0 < t" "length cs \<le> 255" "v \<noteq> []" "idx < length rows"
    "rows ! idx = \<lparr>kn_id = i, kn_key_id = key_id, kn_parent_id = parent, kn_label = l, kn_threshold = Some (uint t),
        kn_hardware_key_id = None, kn_wrapped_share = None, kn_is_active = True\<rparr>"
    and res: "resolve_children fuel P S nodes raw policy (nd_children (nodes ! idx)) = Some res"
    and emb: "subseq emb (zip (take (length cs) (deal S (unat t) v k)) cs)" "list_all2 (resolves A) res emb"
    and exact: "policy = None \<Longrightarrow> length res = length (filter (satisfied A) cs)"
  shows "\<exists>r. reconstruct_node (Suc fuel) P S nodes raw policy idx = Some r \<and> outcome policy A v (Split l t cs b) r"
proof -
  let ?sel = "select_child_subset P policy (unat t) res"
  define r where "r = and_then ?sel (\<lambda>(shares, leaves).
    and_then (ok_or QuorumNotMet (recover S (unat t) shares)) (\<lambda>value. Ok (value, leaves)))"
  have "unat t mod 256 = unat t" by simp
  then have r: "reconstruct_node (Suc fuel) P S nodes raw policy idx = Some r"
    using assms(2,6,7) res by (simp add: mirrors_def r_def Let_def split_def)
  have ok: "r = Ok (v, leaves) \<and> resolves A (v, leaves) (v, Split l t cs b)" if "?sel = Ok (shares, leaves)" for shares leaves
    using chosen_recover [OF assms(1,3,5,4) emb that] that by (simp add: r_def resolves_def)
  have "resolves A x (v, Split l t cs b)" if "r = Ok x" for x
  proof (cases ?sel)
    case (Inr sl)
    with ok [of "fst sl" "snd sl"] that show ?thesis by auto
  qed (use that in \<open>simp add: r_def\<close>)
  moreover have "if satisfied A (Split l t cs b) then \<exists>x. r = Ok x else r = Err QuorumNotMet" if "policy = None"
  proof (cases "satisfied A (Split l t cs b)")
    case True
    then have "?sel = Ok (flatten_children (take (unat t) res))"
      using exact [OF that] that assms(3) by (simp add: select_child_subset_def word_gt_0 unat_gt_0)
    with True ok [of "fst (flatten_children (take (unat t) res))" "snd (flatten_children (take (unat t) res))"] show ?thesis by auto
  next
    case False
    with exact [OF that] have "?sel = Err QuorumNotMet" by (simp add: select_child_subset_def)
    with False show ?thesis by (simp add: r_def)
  qed
  ultimately show ?thesis using r by (auto simp: outcome_def)
qed

lemma resolve_child_step:
  assumes "reconstruct_node fuel P S nodes raw policy j = Some r" "outcome policy A v c r" "nd_is_active (nodes ! j)" "share_ok S v"
    "resolve_children fuel P S nodes raw policy js = Some res" "subseq emb vcs" "list_all2 (resolves A) res emb"
    "policy = None \<Longrightarrow> length res = length (filter (satisfied A) cs)"
  shows "\<exists>res emb. resolve_children fuel P S nodes raw policy (j # js) = Some res \<and> subseq emb ((v, c) # vcs)
    \<and> list_all2 (resolves A) res emb \<and> (policy = None \<longrightarrow> length res = length (filter (satisfied A) (c # cs)))"
proof (cases r)
  case (Inl e)
  with assms have "resolve_children fuel P S nodes raw policy (j # js) = Some res" by simp
  moreover have "subseq emb ((v, c) # vcs)" using assms(6) by (rule list_emb_Cons)
  moreover have "policy = None \<longrightarrow> length res = length (filter (satisfied A) (c # cs))"
    using assms(2,8) Inl by (auto simp: outcome_def)
  ultimately show ?thesis using assms(7) by blast
next
  case (Inr x)
  with assms(2) have x: "resolves A x (v, c)" by (simp add: outcome_def)
  with assms Inr have "resolve_children fuel P S nodes raw policy (j # js) = Some (x # res)"
    by (cases x) (simp add: resolves_def)
  moreover have "subseq ((v, c) # emb) ((v, c) # vcs)" using assms(6) by simp
  moreover have "policy = None \<longrightarrow> length (x # res) = length (filter (satisfied A) (c # cs))"
    using assms(2,8) Inr by (auto simp: outcome_def split: if_splits)
  moreover have "list_all2 (resolves A) (x # res) ((v, c) # emb)" using x assms(7) by simp
  ultimately show ?thesis by blast
qed

lemma mirrored_children:
  assumes "mirrors nodes rows" "idx < length rows" "filter (\<lambda>m. kn_parent_id m = Some (kn_id (rows ! idx))) rows = map hd rss"
  shows "list_all2 (\<lambda>j rs. j < length rows \<and> rows ! j = hd rs) (nd_children (nodes ! idx)) rss"
proof -
  let ?js = "nd_children (nodes ! idx)"
  have js: "?js = filter (\<lambda>j. kn_parent_id (rows ! j) = Some (kn_id (rows ! idx))) [0..<length rows]"
    using assms(1,2) by (simp add: mirrors_def)
  then have "map (nth rows) ?js = filter (\<lambda>m. kn_parent_id m = Some (kn_id (rows ! idx))) (map (nth rows) [0..<length rows])"
    by (simp add: filter_map comp_def)
  then have "map (nth rows) ?js = map hd rss" using assms(3) by (simp add: map_nth)
  moreover from js have "\<forall>j \<in> set ?js. j < length rows" by simp
  ultimately show ?thesis by (auto simp: list_all2_conv_all_nth list_eq_iff_nth_eq)
qed

lemma reconstruct_laid:
  assumes law: "shamir_law S" "box_law P" and m: "mirrors nodes rows"
  shows "laid P S hks key_id parent v spec sub \<Longrightarrow> placed P hks raw A rows parent sub \<Longrightarrow> thresholds_fit spec \<Longrightarrow> v \<noteq> [] \<Longrightarrow>
      idx < length rows \<Longrightarrow> rows ! idx = hd sub \<Longrightarrow> length sub \<le> fuel \<Longrightarrow>
      \<exists>r. reconstruct_node fuel P S nodes raw policy idx = Some r \<and> outcome policy A v spec r"
    and "laid_all P S hks key_id i vs cs rss \<Longrightarrow> \<forall>rs \<in> set rss. placed P hks raw A rows (Some i) rs \<Longrightarrow> list_all thresholds_fit cs \<Longrightarrow>
      \<forall>v \<in> set vs. share_ok S v \<and> v \<noteq> [] \<Longrightarrow> list_all2 (\<lambda>j rs. j < length rows \<and> rows ! j = hd rs) js rss \<Longrightarrow>
      length (concat rss) \<le> fuel \<Longrightarrow>
      \<exists>res emb. resolve_children fuel P S nodes raw policy js = Some res \<and> subseq emb (zip vs cs)
        \<and> list_all2 (resolves A) res emb \<and> (policy = None \<longrightarrow> length res = length (filter (satisfied A) cs))"
proof (induction arbitrary: idx fuel and js fuel rule: laid_laid_all.inducts)
  case (leaf h hw parent v l b i)
  then obtain f where "fuel = Suc f" by (cases fuel) auto
  with leaf leaf_outcome [OF law(2) m leaf(1) leaf(5)] show ?case by (auto simp: placed_def)
next
  case (split i cs t v k rss parent l b)
  then obtain f where f: "fuel = Suc f" by (cases fuel) auto
  have fit: "0 < t" "length cs \<le> 255" "list_all thresholds_fit cs" using split.prems(2) by auto
  have t: "1 \<le> unat t" using fit(1) by (simp add: word_gt_0 unat_gt_0 Suc_le_eq)
  have t': "unat t \<le> 255" using u8_unat_bound [of t] by linarith
  note d = dealt [OF law(1) t t' split.prems(3) fit(2), where k = k]
  from laid_rows(2) [OF split.IH(1)] placed_children [OF split.prems(1)]
  have c: "filter (\<lambda>m. kn_parent_id m = Some i) rows = map hd rss" "\<forall>rs \<in> set rss. placed P hks raw A rows (Some i) rs"
    by auto
  have "list_all2 (\<lambda>j rs. j < length rows \<and> rows ! j = hd rs) (nd_children (nodes ! idx)) rss"
    using mirrored_children [OF m split.prems(4)] c(1) split.prems(5) by simp
  from split.IH(2) [OF c(2) fit(3) d(3) this, of f] split.prems(6) f obtain res emb where
    "resolve_children f P S nodes raw policy (nd_children (nodes ! idx)) = Some res"
    "subseq emb (zip (take (length cs) (deal S (unat t) v k)) cs)" "list_all2 (resolves A) res emb"
    "policy = None \<longrightarrow> length res = length (filter (satisfied A) cs)" by auto
  from split_outcome [OF law(1) m fit(1,2) split.prems(3,4) _ this(1-3)] this(4) split.prems(5) f
  show ?case by auto
next
  case (some i v c rs vs cs rss)
  then obtain j js' where j: "js = j # js'" "j < length rows" "rows ! j = hd rs"
    "list_all2 (\<lambda>j rs. j < length rows \<and> rows ! j = hd rs) js' rss" by (auto simp: list_all2_Cons2)
  from laid_rows(1) [OF some.IH(1)] have "kn_is_active (hd rs)" by (auto simp: rooted_def)
  with j m have active: "nd_is_active (nodes ! j)" by (simp add: mirrors_def)
  from some.IH(2) [of j fuel] some.prems j obtain r where
    r: "reconstruct_node fuel P S nodes raw policy j = Some r" "outcome policy A v c r" by auto
  from some.IH(4) [of js' fuel] some.prems j obtain res emb where
    "resolve_children fuel P S nodes raw policy js' = Some res" "subseq emb (zip vs cs)" "list_all2 (resolves A) res emb"
    "policy = None \<Longrightarrow> length res = length (filter (satisfied A) cs)" by auto
  from resolve_child_step [OF r active _ this] some.prems(3) j(1) show ?case unfolding zip_Cons_Cons by simp
qed auto

section \<open>A stored tree\<close>

text \<open>The tables hold the specification's tree over the secret.\<close>

definition stored :: "prims \<Rightarrow> shamir \<Rightarrow> int \<Rightarrow> bytes \<Rightarrow> node_spec \<Rightarrow> store \<Rightarrow> bool" where
  "stored P S key_id secret spec st \<longleftrightarrow>
     tables_ok st \<and> secret \<noteq> [] \<and> thresholds_fit spec \<and> distinct (map kn_label (tree_rows key_id st))
     \<and> laid P S (st_hardware_keys st) key_id None secret spec (tree_rows key_id st)"

text \<open>Every share presented for the tree was unsealed by a holder from the row of its leaf.\<close>

definition unsealed :: "prims \<Rightarrow> store \<Rightarrow> (int \<Rightarrow> bytes option) \<Rightarrow> bool" where
  "unsealed P st raw \<longleftrightarrow> (\<forall>n s. raw n = Some s \<longrightarrow> (\<exists>sk. unwrap_leaf_share P n sk st = Ok s))"

definition presented_labels :: "int \<Rightarrow> store \<Rightarrow> (int \<Rightarrow> bytes option) \<Rightarrow> str set" where
  "presented_labels key_id st raw =
     kn_label ` set (filter (\<lambda>n. kn_hardware_key_id n \<noteq> None \<and> raw (kn_id n) \<noteq> None) (tree_rows key_id st))"

lemma tree_rows_tables:
  assumes "tables_ok st"
  shows "distinct (map kn_id (tree_rows key_id st))" "set (tree_rows key_id st) \<subseteq> set (st_nodes st)"
  using assms by (auto simp: tree_rows_def tables_ok_def distinct_map intro: inj_on_subset)

lemma find_row:
  assumes "tables_ok st" "n \<in> set (st_nodes st)"
  shows "List.find (\<lambda>m. kn_id m = kn_id n) (st_nodes st) = Some n"
proof -
  have "distinct (map kn_id xs) \<Longrightarrow> n \<in> set xs \<Longrightarrow> List.find (\<lambda>m. kn_id m = kn_id n) xs = Some n" for xs :: "node_row list"
    by (induction xs) (auto simp: image_iff)
  with assms show ?thesis by (auto simp: tables_ok_def)
qed

lemma unsealed_answered:
  assumes "tables_ok st" "unsealed P st raw" "distinct (map kn_label (tree_rows key_id st))" "n \<in> set (tree_rows key_id st)"
  shows "answered P (st_hardware_keys st) raw (presented_labels key_id st raw) n"
proof -
  have same: "m = n" if "m \<in> set (tree_rows key_id st)" "kn_label m = kn_label n" for m
    using assms(3,4) that by (meson distinct_map inj_onD)
  have row: "List.find (\<lambda>m. kn_id m = kn_id n) (st_nodes st) = Some n"
    using find_row tree_rows_tables(2) [OF assms(1)] assms(1,4) by blast
  show ?thesis
  proof (cases "raw (kn_id n)")
    case None
    then have "kn_label n \<notin> presented_labels key_id st raw" by (auto simp: presented_labels_def dest!: same)
    with None show ?thesis by (simp add: answered_def)
  next
    case (Some s)
    then obtain sk where "unwrap_leaf_share P (kn_id n) sk st = Ok s" using assms(2) by (auto simp: unsealed_def)
    with row Some assms(4) show ?thesis
      by (fastforce simp: answered_def presented_labels_def unwrap_leaf_share_def get_key_def res_simps split: if_splits)
  qed
qed

lemma stored_outcome:
  assumes "box_law P" "shamir_law S" "stored P S key_id secret spec st" "unsealed P st raw"
  obtains tree r where "load key_id st = Ok tree" "reconstruct_from P S tree raw policy (kt_root_index tree) = r"
    "outcome policy (presented_labels key_id st raw) secret spec r"
proof -
  let ?rows = "tree_rows key_id st" and ?A = "presented_labels key_id st raw"
  from assms(3) have t: "tables_ok st" "secret \<noteq> []" "thresholds_fit spec" "distinct (map kn_label ?rows)"
    and laid: "laid P S (st_hardware_keys st) key_id None secret spec ?rows" by (simp_all add: stored_def)
  have rooted: "rooted None ?rows" using laid_rows(1) [OF laid] by blast
  from load_rooted [OF rooted t(4)] obtain tree where tree: "load key_id st = Ok tree" "kt_root_index tree = 0" by blast
  note m = load_mirrors [OF tree(1) tree_rows_tables(1) [OF t(1)]]
  have "placed P (st_hardware_keys st) raw ?A ?rows None ?rows"
    using tree_rows_tables(1) [OF t(1)] unsealed_answered [OF t(1) assms(4) t(4)] by (auto simp: placed_def list_all_iff)
  from reconstruct_laid(1) [OF assms(2,1) m laid this t(3,2), of 0 "length (kt_nodes tree)"] rooted_head [OF rooted] m
  obtain r where "reconstruct_node (length (kt_nodes tree)) P S (kt_nodes tree) raw policy 0 = Some r" "outcome policy ?A secret spec r"
    by (auto simp: mirrors_def hd_conv_nth)
  with tree show ?thesis by (auto simp: reconstruct_from_def intro: that)
qed

end
