(* ===== verification/KeyCustody.thy ===== *)
theory KeyCustody
  imports Reconstruction
begin

text \<open>
  Custody of split keys: stored trees survive the other operations on the tables, and what
  reconstruction under a custody policy promises about the devices behind the shares.
\<close>

section \<open>Stored trees under other operations\<close>

lemma laid_more_keys:
  assumes "\<And>h hw. List.find (\<lambda>k. hk_id k = h) hks = Some hw \<Longrightarrow> List.find (\<lambda>k. hk_id k = h) hks' = Some hw"
  shows "laid P S hks key_id parent v spec rows \<Longrightarrow> laid P S hks' key_id parent v spec rows"
    and "laid_all P S hks key_id i vs cs rss \<Longrightarrow> laid_all P S hks' key_id i vs cs rss"
  by (induction rule: laid_laid_all.inducts) (auto intro: laid_laid_all.intros assms)

lemma find_append: "List.find p (xs @ ys) = (case List.find p xs of None \<Rightarrow> List.find p ys | Some x \<Rightarrow> Some x)"
  by (induction xs) auto

lemma laid_snoc_key: "laid P S hks key_id parent v spec rows \<Longrightarrow> laid P S (hks @ [hk]) key_id parent v spec rows"
  by (rule laid_more_keys(1) [of hks]) (simp_all add: find_append)

lemma register_key_stored:
  assumes "register_key P label kt pk st = (Ok i, st')" "stored P S key_id secret spec st"
  shows "stored P S key_id secret spec st'"
proof -
  from assms(1) obtain hk where "st' = st\<lparr>st_hardware_keys := st_hardware_keys st @ [hk]\<rparr>"
    by (auto simp: register_key_def Let_def split: if_splits)
  with assms(2) show ?thesis
    by (auto simp: stored_def tables_ok_def tree_rows_def intro: laid_snoc_key)
qed

lemma get_or_register_stored:
  assumes "get_or_register P label kt pk st = (Ok i, st')" "stored P S key_id secret spec st"
  shows "stored P S key_id secret spec st'"
  using assms register_key_stored by (fastforce simp: get_or_register_def split: if_splits sum.splits)

lemma set_custody_policy_stored:
  assumes "set_custody_policy k policy st = (Ok u, st')" "stored P S key_id secret spec st"
  shows "stored P S key_id secret spec st'"
proof -
  from assms(1) have "map k_id (st_keys st') = map k_id (st_keys st)"
    and st: "st_nodes st' = st_nodes st" "st_hardware_keys st' = st_hardware_keys st"
    by (auto simp: set_custody_policy_def split: if_splits)
  then have "k_id ` set (st_keys st') = k_id ` set (st_keys st)" by (metis set_map)
  with st assms(2) show ?thesis by (simp add: stored_def tables_ok_def tree_rows_def)
qed

lemma split_key_keys:
  assumes "split_key P S label v spec st = (Ok key_id, st')"
  shows "st_hardware_keys st' = st_hardware_keys st" and "key_id \<notin> k_id ` set (st_keys st)"
proof -
  from assms obtain st1 where k: "insert_key label st = (Ok key_id, st1)"
    and s: "split_node P S key_id None v spec st1 = (Ok (), st')"
    by (auto simp: split_key_def transaction_def build_tree_def res_simps split: prod.splits sum.splits)
  from split_node_laid(1) [OF s] k show "st_hardware_keys st' = st_hardware_keys st"
    by (auto simp: grown_def insert_key_def Let_def)
  show "key_id \<notin> k_id ` set (st_keys st)"
    using k next_id_above [of key_id "map k_id (st_keys st)"] by (auto simp: insert_key_def Let_def)
qed

lemma stored_key:
  assumes "stored P S key_id secret spec st"
  shows "key_id \<in> k_id ` set (st_keys st)"
proof -
  from assms have t: "tables_ok st" "laid P S (st_hardware_keys st) key_id None secret spec (tree_rows key_id st)"
    by (simp_all add: stored_def)
  then have "list_all (\<lambda>n. kn_key_id n = key_id) (tree_rows key_id st)" "tree_rows key_id st \<noteq> []"
    using laid_rows(1) [OF t(2)] by (auto simp: rooted_def list_all_iff)
  then have "hd (tree_rows key_id st) \<in> set (st_nodes st)" "kn_key_id (hd (tree_rows key_id st)) = key_id"
    using tree_rows_tables(2) [OF t(1), of key_id] hd_in_set [of "tree_rows key_id st"] by (auto simp: list_all_iff)
  with t(1) show ?thesis unfolding tables_ok_def by (metis image_eqI subsetD)
qed

lemma split_key_stored:
  assumes "split_key P S label v spec st = (Ok key_id, st')" "tables_ok st" "v \<noteq> []"
  shows "stored P S key_id v spec st'"
  using split_key_laid [OF assms(1,2)] assms(3) by (simp add: stored_def)

lemma split_key_keeps:
  assumes "split_key P S label v spec st = (Ok k, st')" "stored P S key_id secret spec' st"
  shows "stored P S key_id secret spec' st'"
proof -
  from assms(2) have "tables_ok st" by (simp add: stored_def)
  note l = split_key_laid [OF assms(1) this]
  have "key_id \<noteq> k" using split_key_keys(2) [OF assms(1)] stored_key [OF assms(2)] by auto
  with l(1) l(6) [of key_id] assms(2) split_key_keys(1) [OF assms(1)] show ?thesis by (simp add: stored_def)
qed

text \<open>One successful operation on the tables.\<close>

inductive store_step :: "prims \<Rightarrow> shamir \<Rightarrow> store \<Rightarrow> store \<Rightarrow> bool" for P S where
  splitting: "split_key P S label v spec st = (Ok k, st') \<Longrightarrow> store_step P S st st'"
| registering: "get_or_register P label kt pk st = (Ok i, st') \<Longrightarrow> store_step P S st st'"
| custody: "set_custody_policy k policy st = (Ok u, st') \<Longrightarrow> store_step P S st st'"

lemma store_step_stored: "store_step P S st st' \<Longrightarrow> stored P S key_id secret spec st \<Longrightarrow> stored P S key_id secret spec st'"
  by (cases rule: store_step.cases)
    (auto intro: split_key_keeps get_or_register_stored set_custody_policy_stored)

lemma store_steps_stored:
  "(store_step P S)\<^sup>*\<^sup>* st st' \<Longrightarrow> stored P S key_id secret spec st \<Longrightarrow> stored P S key_id secret spec st'"
  by (induction rule: rtranclp_induct) (auto intro: store_step_stored)

section \<open>Devices behind the leaves\<close>

text \<open>
  The devices found so far are distinct, carry exactly the keys and labels of the leaves seen, and
  each of those keys resolves to its device.
\<close>

definition grouped :: "prims \<Rightarrow> store \<Rightarrow> used_leaf list \<Rightarrow> presented_device list \<Rightarrow> bool" where
  "grouped P st leaves devs \<longleftrightarrow>
     distinct (map pd_device_id devs)
     \<and> mset (concat (map pd_leaf_labels devs)) = mset (map ul_leaf_label leaves)
     \<and> (\<forall>leaf \<in> set leaves. \<not> leaf_is_ghost (ul_hardware_key_id leaf) st
          \<and> (\<exists>d \<in> set devs. ul_hardware_key_id leaf \<in> set (pd_hardware_key_ids d)))
     \<and> (\<forall>d \<in> set devs. \<forall>h \<in> set (pd_hardware_key_ids d). h \<in> ul_hardware_key_id ` set leaves
          \<and> (\<exists>key slot. get_key h st = Ok key \<and> device_for_key P key st = Ok (pd_device_id d, slot)))"

lemma add_to_group_ids: "pd_device_id ` set (add_to_group i slot leaf devs) = insert i (pd_device_id ` set devs)"
  by (induction devs) auto

lemma add_to_group_distinct: "distinct (map pd_device_id devs) \<Longrightarrow> distinct (map pd_device_id (add_to_group i slot leaf devs))"
proof (induction devs)
  case (Cons d devs)
  then show ?case using add_to_group_ids [of i slot leaf devs] by auto
qed simp

lemma add_to_group_labels:
  "mset (concat (map pd_leaf_labels (add_to_group i slot leaf devs))) = add_mset (ul_leaf_label leaf) (mset (concat (map pd_leaf_labels devs)))"
  by (induction devs) auto

lemma add_to_group_keys:
  "d \<in> set (add_to_group i slot leaf devs) \<Longrightarrow> h \<in> set (pd_hardware_key_ids d) \<Longrightarrow>
     (pd_device_id d = i \<and> h = ul_hardware_key_id leaf) \<or> (\<exists>e \<in> set devs. pd_device_id e = pd_device_id d \<and> h \<in> set (pd_hardware_key_ids e))"
  by (induction devs) (auto split: if_splits)

lemma add_to_group_has:
  "\<exists>d \<in> set (add_to_group i slot leaf devs). ul_hardware_key_id leaf \<in> set (pd_hardware_key_ids d)"
  "e \<in> set devs \<Longrightarrow> h \<in> set (pd_hardware_key_ids e) \<Longrightarrow>
     \<exists>d \<in> set (add_to_group i slot leaf devs). h \<in> set (pd_hardware_key_ids d)"
  by (induction devs) auto

lemma classify_loop_grouped:
  "classify_loop P st devs used = Ok devs' \<Longrightarrow> grouped P st seen devs \<Longrightarrow> grouped P st (seen @ used) devs'"
proof (induction used arbitrary: devs seen)
  case (Cons leaf used)
  then obtain key i slot where leaf: "\<not> leaf_is_ghost (ul_hardware_key_id leaf) st" "get_key (ul_hardware_key_id leaf) st = Ok key"
    "device_for_key P key st = Ok (i, slot)" and rest: "classify_loop P st (add_to_group i slot leaf devs) used = Ok devs'"
    by (auto simp: res_simps split: if_splits)
  have "grouped P st (seen @ [leaf]) (add_to_group i slot leaf devs)"
    unfolding grouped_def
  proof (intro conjI ballI)
    show "distinct (map pd_device_id (add_to_group i slot leaf devs))"
      using Cons.prems(2) add_to_group_distinct by (auto simp: grouped_def)
    show "mset (concat (map pd_leaf_labels (add_to_group i slot leaf devs))) = mset (map ul_leaf_label (seen @ [leaf]))"
      using Cons.prems(2) add_to_group_labels [of i slot leaf devs] by (simp add: grouped_def)
  next
    fix l
    assume "l \<in> set (seen @ [leaf])"
    then show "\<not> leaf_is_ghost (ul_hardware_key_id l) st"
      "\<exists>d \<in> set (add_to_group i slot leaf devs). ul_hardware_key_id l \<in> set (pd_hardware_key_ids d)"
      using Cons.prems(2) leaf(1) add_to_group_has by (auto simp: grouped_def)
  next
    fix d h
    assume "d \<in> set (add_to_group i slot leaf devs)" "h \<in> set (pd_hardware_key_ids d)"
    from add_to_group_keys [OF this] Cons.prems(2) leaf
    show "h \<in> ul_hardware_key_id ` set (seen @ [leaf])"
      "\<exists>key slot. get_key h st = Ok key \<and> device_for_key P key st = Ok (pd_device_id d, slot)"
      by (auto simp: grouped_def)
  qed
  from Cons.IH [OF rest this] show ?case by simp
qed simp

text \<open>What the custody policy asks of the devices.\<close>

definition custody_met :: "custody_policy \<Rightarrow> presented_device list \<Rightarrow> bool" where
  "custody_met policy devs \<longleftrightarrow>
     cp_minimum_physical_devices policy \<le> length devs
     \<and> (cp_mode policy = Hardware \<longrightarrow> (\<forall>d \<in> set devs. card (set (pd_hardware_key_ids d)) \<le> 1))"

lemma enforce_devices_met:
  assumes "enforce_devices P key_id used st = Ok devs"
  shows "\<exists>policy. custody_policy_of key_id st = Ok policy \<and> custody_met policy devs \<and> grouped P st used devs \<and> used \<noteq> []"
proof -
  from assms obtain policy where p: "custody_policy_of key_id st = Ok policy" "classify_loop P st [] used = Ok devs"
    "custody_met policy devs" "used \<noteq> []"
    by (auto simp: enforce_devices_def classify_devices_def custody_met_def res_simps list_ex_iff not_less split: if_splits)
  from classify_loop_grouped [OF p(2), of "[]"] have "grouped P st used devs" by (simp add: grouped_def)
  with p show ?thesis by blast
qed

end
