(* ===== verification/Arena.thy ===== *)
theory Arena
  imports KeyTree "HOL-Library.Sublist"
begin

text \<open>
  Arenas that \<open>load\<close> builds: every node is the child of its parent only, so no walk from the root
  meets a node twice. The recursion of \<open>reconstruct_node\<close> and the walks to the root therefore end
  within as many steps as there are nodes.
\<close>

section \<open>Paths to the root\<close>

definition linked :: "key_node list \<Rightarrow> bool" where
  "linked nodes \<longleftrightarrow>
     (\<forall>i < length nodes. \<forall>j \<in> set (nd_children (nodes ! i)). j < length nodes \<and> nd_parent_idx (nodes ! j) = Some i)"

inductive climb :: "key_node list \<Rightarrow> nat list \<Rightarrow> bool" for nodes where
  root: "i < length nodes \<Longrightarrow> nd_parent_idx (nodes ! i) = None \<Longrightarrow> climb nodes [i]"
| up: "climb nodes (i # p) \<Longrightarrow> j < length nodes \<Longrightarrow> nd_parent_idx (nodes ! j) = Some i \<Longrightarrow> climb nodes (j # i # p)"

inductive_cases climb_elims: "climb nodes []" "climb nodes [i]" "climb nodes (j # i # p)"

lemma climb_bound: "climb nodes p \<Longrightarrow> p \<noteq> [] \<and> set p \<subseteq> {..<length nodes}"
  by (induction rule: climb.induct) auto

lemma climb_unique: "climb nodes (i # p) \<Longrightarrow> climb nodes (i # q) \<Longrightarrow> p = q"
proof (induction p arbitrary: i q)
  case Nil
  then show ?case by (cases q) (auto elim!: climb_elims)
next
  case (Cons j p)
  from Cons.prems obtain j' q' where q: "q = j' # q'" by (cases q) (auto elim!: climb_elims)
  with Cons.prems have "j' = j" "climb nodes (j # p)" "climb nodes (j' # q')" by (auto elim!: climb_elims)
  with Cons.IH q show ?case by simp
qed

lemma climb_suffix: "climb nodes (xs @ i # p) \<Longrightarrow> climb nodes (i # p)"
proof (induction xs)
  case (Cons x xs)
  then show ?case by (cases xs) (auto elim: climb_elims)
qed simp

lemma climb_distinct: "climb nodes p \<Longrightarrow> distinct p"
proof (induction rule: climb.induct)
  case (up i p j)
  have "j \<notin> set (i # p)"
  proof
    assume "j \<in> set (i # p)"
    then obtain xs ys where s: "i # p = xs @ j # ys" by (meson split_list)
    from climb_suffix [of nodes xs j ys] up(1) s have "climb nodes (j # ys)" by simp
    moreover have "climb nodes (j # i # p)" using up.hyps by (rule climb.up)
    ultimately have "ys = i # p" by (rule climb_unique)
    with s show False by auto
  qed
  with up show ?case by simp
qed simp

lemma climb_length: "climb nodes p \<Longrightarrow> length p \<le> length nodes"
  using climb_distinct climb_bound card_mono [of "{..<length nodes}" "set p"] by (fastforce simp: distinct_card)

lemma path_up_climb:
  assumes "climb nodes (i # p)" "length p < fuel"
  shows "path_up fuel nodes (Some i) = Some (i # p)"
  using assms
proof (induction "i # p" arbitrary: i p fuel rule: climb.induct)
  case (root i)
  then show ?case by (cases fuel) auto
next
  case (up i p j)
  then show ?case by (cases fuel) auto
qed

lemma load_linked:
  assumes "load key_id st = Ok tree"
  shows "linked (kt_nodes tree)" and "climb (kt_nodes tree) [kt_root_index tree]"
proof -
  let ?rows = "tree_rows key_id st"
  from assms obtain parents r where
    tree: "tree = \<lparr>kt_nodes = map (arena_node (st_bridges st) parents ?rows) [0..<length ?rows], kt_root_index = r\<rparr>"
    and r: "position (\<lambda>n. nd_parent_idx n = None) (map (arena_node (st_bridges st) parents ?rows) [0..<length ?rows]) = Some r"
    by (auto simp: load_def Let_def res_simps split: if_splits)
  have nodes: "kt_nodes tree = map (arena_node (st_bridges st) parents ?rows) [0..<length ?rows]"
    and root: "position (\<lambda>n. nd_parent_idx n = None) (kt_nodes tree) = Some (kt_root_index tree)"
    using r by (simp_all add: tree)
  show "linked (kt_nodes tree)" by (auto simp: linked_def nodes arena_node_def Let_def)
  have "i < length xs \<and> p (xs ! i)" if "position p xs = Some i" for p i and xs :: "key_node list"
    using that by (induction xs arbitrary: i) (auto split: if_splits)
  from this [OF root] show "climb (kt_nodes tree) [kt_root_index tree]" by (auto intro: climb.root)
qed

section \<open>The recursion ends\<close>

lemma reconstruct_ends:
  "linked nodes \<Longrightarrow> climb nodes (idx # p) \<Longrightarrow> length nodes \<le> fuel + length p \<Longrightarrow>
     reconstruct_node fuel P S nodes raw policy idx \<noteq> None"
  "linked nodes \<Longrightarrow> \<forall>j \<in> set js. climb nodes (j # q) \<Longrightarrow> length nodes \<le> fuel + length q \<Longrightarrow>
     resolve_children fuel P S nodes raw policy js \<noteq> None"
proof (induction fuel P S nodes raw policy idx and fuel P S nodes raw policy js arbitrary: p and q
    rule: reconstruct_node_resolve_children.induct)
  case (1 P S nodes raw policy idx)
  then show ?case using climb_length [of nodes "idx # p"] by simp
next
  case (2 fuel P S nodes raw policy idx)
  have idx: "idx < length nodes" using climb_bound [OF 2(3)] by simp
  have "\<forall>j \<in> set (nd_children (nodes ! idx)). climb nodes (j # idx # p)"
    using 2(2,3) idx by (auto simp: linked_def intro: climb.up)
  then have "resolve_children fuel P S nodes raw policy (nd_children (nodes ! idx)) \<noteq> None"
    if "nd_is_active (nodes ! idx)" "nd_hardware_key_id (nodes ! idx) = None" "nd_threshold (nodes ! idx) = Some t" for t
    using 2(1) [of "nodes ! idx" t "idx # p"] 2(2,4) idx that by simp
  then show ?case using idx by (auto simp: Let_def split: option.splits)
next
  case (4 fuel P S nodes raw policy child children)
  show ?case
  proof (cases "nd_is_active (nodes ! child)")
    case True
    with 4(2) [of q] 4(4-6) obtain r where r: "reconstruct_node fuel P S nodes raw policy child = Some r" by auto
    with 4(3) [of r q] 4(4-6) True show ?thesis by auto
  qed (use 4(1) [of q] 4(4-6) in simp)
qed simp

section \<open>Lowest common ancestors\<close>

lemma last_common_prefix: "last_common r (zip xs ys) = last (r # longest_common_prefix xs ys)"
  by (induction xs ys arbitrary: r rule: longest_common_prefix.induct) auto

lemma climbs_meet:
  assumes "climb nodes (a # p)" "climb nodes (b # q)" "last (a # p) = last (b # q)"
  defines "up \<equiv> rev (longest_common_prefix (rev (a # p)) (rev (b # q)))"
  shows "climb nodes up" and "set up = set (a # p) \<inter> set (b # q)"
proof -
  let ?lcp = "longest_common_prefix (rev (a # p)) (rev (b # q))"
  have "prefix [last (a # p)] (rev (a # p))" "prefix [last (a # p)] (rev (b # q))"
    using assms(3) by (metis append_butlast_last_id list.distinct(1) prefixI rev.simps(2) rev_append append_Cons append_Nil rev_rev_ident)+
  then have "prefix [last (a # p)] ?lcp" by (rule longest_common_prefix_max_prefix)
  then have "up \<noteq> []" by (auto simp: up_def)
  have pa: "suffix up (a # p)" and pb: "suffix up (b # q)"
    using longest_common_prefix_prefix1 [of "rev (a # p)" "rev (b # q)"] longest_common_prefix_prefix2 [of "rev (a # p)" "rev (b # q)"]
    by (simp_all add: up_def suffix_to_prefix)
  from pa obtain xs where "a # p = xs @ up" by (auto simp: suffix_def)
  with assms(1) \<open>up \<noteq> []\<close> climb_suffix [of nodes xs "hd up" "tl up"] show "climb nodes up" by simp
  have "d \<in> set up" if d: "d \<in> set (a # p)" "d \<in> set (b # q)" for d
  proof -
    from d obtain xs ys us vs where s: "a # p = xs @ d # ys" "b # q = us @ d # vs" by (meson split_list)
    then have "ys = vs" using assms(1,2) climb_suffix climb_unique by metis
    with s have "prefix (rev (d # ys)) (rev (a # p))" "prefix (rev (d # ys)) (rev (b # q))" by (simp_all del: rev.simps)
    from longest_common_prefix_max_prefix [OF this] have "set (rev (d # ys)) \<subseteq> set ?lcp" by (rule set_mono_prefix)
    then show ?thesis by (simp add: up_def)
  qed
  moreover have "set up \<subseteq> set (a # p) \<inter> set (b # q)" using pa pb by (meson Int_greatest set_mono_suffix)
  ultimately show "set up = set (a # p) \<inter> set (b # q)" by blast
qed

text \<open>The common ancestors of two nodes are those at or above their lowest common ancestor.\<close>

lemma lca_meets:
  assumes "climb (kt_nodes tree) (a # p)" "climb (kt_nodes tree) (b # q)" "last (a # p) = last (b # q)"
  shows "\<exists>c r. find_lowest_common_ancestor tree a b = Ok c \<and> climb (kt_nodes tree) (c # r)
    \<and> set (c # r) = set (a # p) \<inter> set (b # q)"
proof -
  let ?lcp = "longest_common_prefix (rev (a # p)) (rev (b # q))"
  note m = climbs_meet [OF assms]
  have "rev ?lcp \<noteq> []" using climb_bound [OF m(1)] by simp
  then obtain c r where c: "rev ?lcp = c # r" by (cases "rev ?lcp") auto
  have "path_up (length (kt_nodes tree)) (kt_nodes tree) (Some a) = Some (a # p)"
    "path_up (length (kt_nodes tree)) (kt_nodes tree) (Some b) = Some (b # q)"
    using path_up_climb assms(1,2) climb_length by fastforce+
  moreover have "a < length (kt_nodes tree)" "b < length (kt_nodes tree)" using climb_bound assms by fastforce+
  moreover have "last_common i (zip (rev (a # p)) (rev (b # q))) = c" for i
    using c unfolding last_common_prefix rev_swap by (simp del: rev.simps) simp
  ultimately have "find_lowest_common_ancestor tree a b = Ok c" by (simp add: find_lowest_common_ancestor_def Let_def del: rev.simps)
  with m show ?thesis unfolding c by blast
qed

end
