(* ===== verification/KeyTreeProps.thy ===== *)
theory KeyTreeProps
  imports KeyCustody Arena
begin

text \<open>
  What split keys promise: the secret comes back exactly for a quorum, a recovery under a custody
  policy is right and accounts for its devices, and the recursion over a loaded tree ends.
\<close>

section \<open>Example\<close>

definition toy_shamir :: shamir where
  "toy_shamir =
     \<lparr>deal = (\<lambda>t secret k. map (\<lambda>i. word_of_nat (Suc i) # secret) [0..<255]),
      share_ok = (\<lambda>s. 2 \<le> length s),
      recover = (\<lambda>t shares. if shares = [] \<or> length shares < t then None else Some (tl (hd shares)))\<rparr>"

lemma toy_shamir_sel [simp]:
  "deal toy_shamir t secret k = map (\<lambda>i. word_of_nat (Suc i) # secret) [0..<255]"
  "share_ok toy_shamir s = (2 \<le> length s)"
  "recover toy_shamir t shares = (if shares = [] \<or> length shares < t then None else Some (tl (hd shares)))"
  by (simp_all add: toy_shamir_def)

lemma toy_shamir_law [simp]: "shamir_law toy_shamir"
  unfolding shamir_law_def
proof (intro allI impI conjI)
  fix t :: nat and secret sub :: bytes and sub' :: "bytes list" and k :: nat and i :: nat
  assume a: "1 \<le> t \<and> t \<le> 255 \<and> secret \<noteq> []"
  show "length (deal toy_shamir t secret k) = 255" by simp
  show "share_ok toy_shamir (deal toy_shamir t secret k ! i)" "hd (deal toy_shamir t secret k ! i) = word_of_nat (Suc i)"
    "length (deal toy_shamir t secret k ! i) = Suc (length secret)" if "i < 255"
    using that a by (cases secret; simp)+
  assume "set sub' \<subseteq> set (deal toy_shamir t secret k) \<and> distinct sub' \<and> t \<le> length sub'"
  with a show "recover toy_shamir t sub' = Some secret" by (cases sub') auto
qed

definition toy_key :: "int \<Rightarrow> hardware_key" where
  "toy_key i = \<lparr>hk_id = i, hk_label = ''key'', hk_key_type = EncryptionKey, hk_fingerprint = ''fp'',
     hk_public_key = replicate 32 (word_of_int i), hk_revoked_at = None\<rparr>"

definition toy_store :: store where
  "toy_store = \<lparr>st_hardware_keys = [toy_key 1, toy_key 2], st_keys = [], st_nodes = [], st_bridges = [], st_links = [],
     st_placements = [(1, replicate 16 1, ''left''), (2, replicate 16 2, ''right'')], st_identities = [], st_possession = [],
     st_generations = [], st_draws = 0\<rparr>"

definition toy_spec :: node_spec where
  "toy_spec = Split ''root'' 2 [Leaf ''a'' 1 [], Leaf ''b'' 2 []] []"

definition toy_node :: "int \<Rightarrow> int option \<Rightarrow> str \<Rightarrow> int option \<Rightarrow> int option \<Rightarrow> bytes option \<Rightarrow> node_row" where
  "toy_node i p l t h w = \<lparr>kn_id = i, kn_key_id = 1, kn_parent_id = p, kn_label = l, kn_threshold = t,
     kn_hardware_key_id = h, kn_wrapped_share = w, kn_is_active = True\<rparr>"

definition toy_split :: store where
  "toy_split = toy_store\<lparr>st_keys := [\<lparr>k_id = 1, k_label = ''tree'', k_public_generation = 1, k_custody_mode = ''hardware'',
       k_minimum_physical_devices = 1, k_unlock_approval = ''none''\<rparr>],
     st_nodes := [toy_node 1 None ''root'' (Some 2) None None,
       toy_node 2 (Some 1) ''a'' None (Some 1) (Some (replicate 32 1 @ [1, 7])),
       toy_node 3 (Some 1) ''b'' None (Some 2) (Some (replicate 32 2 @ [2, 7]))], st_draws := 1\<rparr>"

lemma toy_split_eq: "split_key toy_prims toy_shamir ''tree'' [7] toy_spec toy_store = (Ok 1, toy_split)"
  by (simp add: split_key_def build_tree_def transaction_def bind_op_def validate_def get_active_encryption_key_def get_key_def
      toy_spec_def toy_store_def toy_key_def insert_key_def insert_node_def node_fits_def next_id_def draw_def seal_share_def
      toy_split_def toy_node_def Let_def take_map take_upt upt_conv_Cons)

lemma toy_tables_ok [simp]: "tables_ok toy_store"
  by (simp add: tables_ok_def toy_store_def)

definition toy_shares :: "int \<Rightarrow> bytes option" where
  "toy_shares = [2 \<mapsto> [1, 7], 3 \<mapsto> [2, 7]]"

lemma toy_unsealed: "unsealed toy_prims toy_split toy_shares"
  unfolding unsealed_def
proof (intro allI impI)
  fix n s
  assume "toy_shares n = Some s"
  then consider "n = 2" "s = [1, 7]" | "n = 3" "s = [2, 7]" by (auto simp: toy_shares_def split: if_splits)
  then show "\<exists>sk. unwrap_leaf_share toy_prims n sk toy_split = Ok s"
    by cases (auto simp: unwrap_leaf_share_def toy_split_def toy_store_def toy_key_def toy_node_def get_key_def
        intro!: exI [of _ "replicate 32 (word_of_int (n - 1))"])
qed

definition toy_custody :: store where
  "toy_custody = toy_split\<lparr>st_keys := [\<lparr>k_id = 1, k_label = ''tree'', k_public_generation = 1, k_custody_mode = ''hardware'',
     k_minimum_physical_devices = 2, k_unlock_approval = ''none''\<rparr>]\<rparr>"

lemma toy_custody_steps: "(store_step toy_prims toy_shamir)\<^sup>*\<^sup>* toy_split toy_custody"
proof (rule r_into_rtranclp, rule store_step.custody)
  show "set_custody_policy 1 \<lparr>cp_mode = Hardware, cp_minimum_physical_devices = 2, cp_unlock_approval = NoApproval\<rparr> toy_split
      = (Ok (), toy_custody)"
    by (simp add: set_custody_policy_def toy_split_def toy_custody_def)
qed

lemma toy_custody_unsealed: "unsealed toy_prims toy_custody toy_shares"
proof -
  have "unwrap_leaf_share toy_prims n sk toy_custody = unwrap_leaf_share toy_prims n sk toy_split" for n sk
    by (simp add: unwrap_leaf_share_def get_key_def toy_custody_def)
  with toy_unsealed show ?thesis by (simp add: unsealed_def)
qed

section \<open>Quorums\<close>



text \<open>
  C11. A recovery under a custody policy is right and accounts for its devices: the secret is the one
  that was split, the leaves that contributed were presented and are a quorum by themselves, none
  is a ghost, the devices behind them are distinct and carry exactly those leaves, and they meet
  the policy, with at most one key per device where the policy asks for hardware.
\<close>

theorem presented_recovery_sound:
  assumes "box_law P" "shamir_law S" "stored P S key_id secret spec st" "unsealed P st raw"
    "reconstruct_presented P S key_id raw st = Ok p"
  shows "pr_secret p = secret \<and> satisfied (ul_leaf_label ` set (pr_leaves p)) spec
    \<and> ul_leaf_label ` set (pr_leaves p) \<subseteq> presented_labels key_id st raw
    \<and> grouped P st (pr_leaves p) (pr_devices p)
    \<and> (\<exists>policy. custody_policy_of key_id st = Ok policy \<and> custody_met policy (pr_devices p))"
proof -
  from stored_outcome [OF assms(1-4), of "Some (st, key_id)"] obtain tree r where
    tree: "load key_id st = Ok tree" "reconstruct_from P S tree raw (Some (st, key_id)) (kt_root_index tree) = r"
    and out: "outcome (Some (st, key_id)) (presented_labels key_id st raw) secret spec r" by metis
  from assms(5) tree obtain leaves devs where r: "r = Ok (pr_secret p, leaves)"
    and e: "enforce_devices P key_id leaves st = Ok devs" "pr_devices p = devs" "pr_leaves p = leaves"
    by (auto simp: reconstruct_presented_def finish_presented_def res_simps split: prod.splits)
  from out r have "resolves (presented_labels key_id st raw) (pr_secret p, leaves) (secret, spec)"
    by (simp add: outcome_def)
  with enforce_devices_met [OF e(1)] e show ?thesis by (auto simp: resolves_def)
qed


lemma toy_custody_sel:
  "st_hardware_keys toy_custody = [toy_key 1, toy_key 2]"
  "st_nodes toy_custody = [toy_node 1 None ''root'' (Some 2) None None,
       toy_node 2 (Some 1) ''a'' None (Some 1) (Some (replicate 32 1 @ [1, 7])),
       toy_node 3 (Some 1) ''b'' None (Some 2) (Some (replicate 32 2 @ [2, 7]))]"
  "st_bridges toy_custody = []" "st_possession toy_custody = []"
  "st_placements toy_custody = [(1, replicate 16 1, ''left''), (2, replicate 16 2, ''right'')]"
  "custody_policy_of 1 toy_custody = Ok \<lparr>cp_mode = Hardware, cp_minimum_physical_devices = 2, cp_unlock_approval = NoApproval\<rparr>"
  by (simp_all add: toy_custody_def toy_split_def toy_store_def custody_policy_of_def custody_mode_parse_def unlock_approval_parse_def)

lemma toy_devices:
  "classify_devices toy_prims 1 [\<lparr>ul_hardware_key_id = 1, ul_leaf_label = ''a''\<rparr>, \<lparr>ul_hardware_key_id = 2, ul_leaf_label = ''b''\<rparr>]
      toy_custody
    = Ok [\<lparr>pd_device_id = replicate 16 1, pd_slot_label = Some ''left'', pd_hardware_key_ids = [1], pd_leaf_labels = [''a'']\<rparr>,
          \<lparr>pd_device_id = replicate 16 2, pd_slot_label = Some ''right'', pd_hardware_key_ids = [2], pd_leaf_labels = [''b'']\<rparr>]"
  by (simp add: classify_devices_def toy_custody_sel leaf_is_ghost_def get_key_def device_for_key_def toy_key_def)

lemma toy_search:
  "search_loop toy_prims toy_custody 1 2 [([1, 7], [\<lparr>ul_hardware_key_id = 1, ul_leaf_label = ''a''\<rparr>]),
      ([2, 7], [\<lparr>ul_hardware_key_id = 2, ul_leaf_label = ''b''\<rparr>])] 0 None False [0, Suc 0]
    = Ok ([[1, 7], [2, 7]], [\<lparr>ul_hardware_key_id = 1, ul_leaf_label = ''a''\<rparr>, \<lparr>ul_hardware_key_id = 2, ul_leaf_label = ''b''\<rparr>])"
  by (subst search_loop.simps)
    (simp add: MAX_EXAMINED_def toy_devices take_indexed_def flatten_children_def swap_remove_def Let_def)

lemma toy_presented:
  "\<exists>p. reconstruct_presented toy_prims toy_shamir 1 toy_shares toy_custody = Ok p"
  by (simp add: reconstruct_presented_def load_def tree_rows_def toy_custody_sel toy_node_def parent_index_def arena_node_def Let_def
     upt_conv_Cons reconstruct_from_def select_child_subset_def toy_shares_def leaf_is_ghost_def toy_search finish_presented_def
     enforce_devices_def toy_devices)

theorem presented_recovery_sound_witness:
  "\<exists>p. reconstruct_presented toy_prims toy_shamir 1 toy_shares toy_custody = Ok p \<and> pr_secret p = [7]
    \<and> satisfied (ul_leaf_label ` set (pr_leaves p)) toy_spec"
proof -
  have "stored toy_prims toy_shamir 1 [7] toy_spec toy_custody"
    using split_key_stored [OF toy_split_eq toy_tables_ok] store_steps_stored [OF toy_custody_steps] by simp
  from toy_presented presented_recovery_sound [OF toy_box_law toy_shamir_law this toy_custody_unsealed] show ?thesis by blast
qed

section \<open>Walks over a loaded tree\<close>



end
