(* ===== verification/PublicTrees.thy ===== *)
theory PublicTrees
  imports KeyTree "HOL-Library.AList"
begin

text \<open>
  The public side of split trees: the published topology without shares, which labels a person
  needs to see of it, the slice cut for them (\<open>src/key_tree.rs\<close>), and the documents the relay
  keeps (\<open>src/relay/org_tree.rs\<close>). A hash map is an association list, a hash set a set; the loops
  of the source end because they only ever add labels of a finite tree.
\<close>

section \<open>Published trees\<close>

record public_node =
  pn_label :: str
  pn_parent_label :: "str option"
  pn_threshold :: "u8 option"
  pn_is_active :: bool
  pn_encryption_fingerprint :: "str option"
  pn_encryption_public_key :: "str option"

record public_edge =
  pe_from :: str
  pe_to :: str

record public_tree =
  pt_label :: str
  pt_generation :: "32 word"
  pt_nodes :: "public_node list"
  pt_whitelist :: "public_edge list"
  pt_links :: "public_edge list"

section \<open>Visibility\<close>

type_synonym parents = "(str \<times> str option) list"
type_synonym childrens = "(str \<times> str list) list"

definition parent_label_of :: "parents \<Rightarrow> str \<Rightarrow> str option" where
  "parent_label_of parent_of label = (case map_of parent_of label of None \<Rightarrow> None | Some p \<Rightarrow> p)"

lemma walk_decreases:
  assumes "label \<notin> seen"
  shows "card (fst ` set parent_of - insert label seen) + (case parent_label_of parent_of label of None \<Rightarrow> 0 | Some _ \<Rightarrow> 1)
    < Suc (card (fst ` set parent_of - seen))"
proof -
  have "card (fst ` set parent_of - insert label seen) < card (fst ` set parent_of - seen)" if "label \<in> fst ` set parent_of"
    using that assms by (intro psubset_card_mono) auto
  moreover have "parent_label_of parent_of label = None" if "label \<notin> fst ` set parent_of"
    using that by (simp add: parent_label_of_def map_of_eq_None_iff [symmetric] split: option.splits)
  moreover have "card (fst ` set parent_of - insert label seen) \<le> card (fst ` set parent_of - seen)"
    by (intro card_mono) auto
  ultimately show ?thesis
    by (cases "label \<in> fst ` set parent_of") (auto split: option.splits)
qed

function walk_loop :: "parents \<Rightarrow> str option \<Rightarrow> str set \<Rightarrow> str set \<Rightarrow> bool \<Rightarrow> str set \<times> bool" where
  "walk_loop parent_of None seen visible grew = (visible, grew)"
| "walk_loop parent_of (Some label) seen visible grew =
     (if label \<in> seen then (visible, grew)
      else walk_loop parent_of (parent_label_of parent_of label) (insert label seen) (insert label visible)
             (grew \<or> label \<notin> visible))"
  by pat_completeness auto

termination
  by (relation "measure (\<lambda>(parent_of, cur, seen, visible, grew). card (fst ` set parent_of - seen) + (case cur of None \<Rightarrow> 0 | Some _ \<Rightarrow> 1))")
    (auto simp: walk_decreases)

definition walk_ancestors :: "parents \<Rightarrow> str \<Rightarrow> str set \<Rightarrow> str set \<times> bool" where
  "walk_ancestors parent_of start visible = walk_loop parent_of (Some start) {} visible False"

text \<open>The stack of \<open>add_descendants\<close>, its top first.\<close>

fun push_children :: "str list \<Rightarrow> str list \<Rightarrow> str set \<Rightarrow> str list \<times> str set" where
  "push_children [] stack visible = (stack, visible)"
| "push_children (child # children) stack visible =
     (if child \<in> visible then push_children children stack visible
      else push_children children (child # stack) (insert child visible))"

lemma push_children_size:
  assumes "push_children cs stack visible = (stack', visible')" "set cs \<subseteq> U" "finite U"
  shows "length stack' + card (U - visible') = length stack + card (U - visible)"
  using assms
proof (induction cs stack visible rule: push_children.induct)
  case (2 child children stack visible)
  show ?case
  proof (cases "child \<in> visible")
    case False
    then have eq: "U - visible = insert child (U - insert child visible)" using 2(4) by auto
    have "card (U - visible) = Suc (card (U - insert child visible))"
      unfolding eq by (rule card_insert_disjoint) (use 2(5) in auto)
    with False 2(2) [OF False] 2(3-5) show ?thesis by simp
  qed (use 2 in simp)
qed simp

function descend_loop :: "childrens \<Rightarrow> str list \<Rightarrow> str set \<Rightarrow> str set" where
  "descend_loop children_of [] visible = visible"
| "descend_loop children_of (label # stack) visible =
     (case map_of children_of label of
        None \<Rightarrow> descend_loop children_of stack visible
      | Some children \<Rightarrow>
          (case push_children children stack visible of (stack, visible) \<Rightarrow> descend_loop children_of stack visible))"
  by pat_completeness auto

termination
proof (relation "measure (\<lambda>(children_of, stack, visible). length stack + card (\<Union> (set ` snd ` set children_of) - visible))")
  fix children_of :: childrens and label stack visible children stack' visible'
  assume m: "map_of children_of label = Some children" and p: "(stack', visible') = push_children children stack visible"
  let ?U = "\<Union> (set ` snd ` set children_of)"
  from m have "children \<in> snd ` set children_of" by (metis map_of_SomeD image_eqI snd_conv)
  then have "set children \<subseteq> ?U" by blast
  with push_children_size [OF p [symmetric], of ?U] show "((children_of, stack', visible'), children_of, label # stack, visible)
      \<in> measure (\<lambda>(children_of, stack, visible). length stack + card (\<Union> (set ` snd ` set children_of) - visible))"
    by simp
qed auto

definition add_descendants :: "childrens \<Rightarrow> str \<Rightarrow> str set \<Rightarrow> str set" where
  "add_descendants children_of start visible = descend_loop children_of [start] visible"

definition siblings_of :: "parents \<Rightarrow> childrens \<Rightarrow> str \<Rightarrow> str set" where
  "siblings_of parent_of children_of seed =
     (case parent_label_of parent_of seed of
        None \<Rightarrow> {}
      | Some parent \<Rightarrow> (case map_of children_of parent of None \<Rightarrow> {} | Some siblings \<Rightarrow> set siblings))"

fun seed_loop :: "parents \<Rightarrow> childrens \<Rightarrow> str list \<Rightarrow> str set \<Rightarrow> str set" where
  "seed_loop parent_of children_of [] visible = visible"
| "seed_loop parent_of children_of (seed # seeds) visible =
     (if map_of parent_of seed = None then seed_loop parent_of children_of seeds visible
      else
        let (visible, _) = walk_ancestors parent_of seed visible;
            visible = add_descendants children_of seed visible in
        seed_loop parent_of children_of seeds (visible \<union> siblings_of parent_of children_of seed))"

fun link_pass :: "parents \<Rightarrow> (str \<times> str) list \<Rightarrow> str set \<Rightarrow> bool \<Rightarrow> str set \<times> bool" where
  "link_pass parent_of [] visible grew = (visible, grew)"
| "link_pass parent_of ((a, b) # links) visible grew =
     (if (a \<in> visible) = (b \<in> visible) then link_pass parent_of links visible grew
      else case walk_ancestors parent_of (if a \<in> visible then b else a) visible of
        (visible, walked) \<Rightarrow> link_pass parent_of links visible (grew \<or> walked))"

definition label_universe :: "parents \<Rightarrow> (str \<times> str) list \<Rightarrow> str set" where
  "label_universe parent_of links = fst ` set links \<union> snd ` set links \<union> \<Union> (set_option ` snd ` set parent_of)"

lemma parent_label_range: "set_option (parent_label_of parent_of label) \<subseteq> \<Union> (set_option ` snd ` set parent_of)"
  by (auto simp: parent_label_of_def dest!: map_of_SomeD split: option.splits)

lemma walk_loop_bounds:
  "walk_loop parent_of cur seen v g = (v', g') \<Longrightarrow>
     v \<subseteq> v' \<and> v' \<subseteq> v \<union> set_option cur \<union> \<Union> (set_option ` snd ` set parent_of) \<and> (g' \<longrightarrow> g \<or> v \<noteq> v')"
proof (induction parent_of cur seen v g rule: walk_loop.induct)
  case (2 parent_of label seen visible grew)
  show ?case
  proof (cases "label \<in> seen")
    case False
    with 2(1) [OF False] 2(2) parent_label_range [of parent_of label] show ?thesis by auto
  qed (use 2(2) in auto)
qed auto

lemma link_pass_bounds:
  "link_pass parent_of links v g = (v', g') \<Longrightarrow>
     v \<subseteq> v' \<and> v' \<subseteq> v \<union> label_universe parent_of links \<and> (g' \<longrightarrow> g \<or> v \<noteq> v')"
proof (induction parent_of links v g rule: link_pass.induct)
  case (2 parent_of a b links visible grew)
  let ?start = "if a \<in> visible then b else a"
  have U: "label_universe parent_of links \<subseteq> label_universe parent_of ((a, b) # links)" "?start \<in> label_universe parent_of ((a, b) # links)"
    "\<Union> (set_option ` snd ` set parent_of) \<subseteq> label_universe parent_of ((a, b) # links)"
    by (auto simp: label_universe_def)
  show ?case
  proof (cases "(a \<in> visible) = (b \<in> visible)")
    case True
    with 2(3) have "link_pass parent_of links visible grew = (v', g')" by simp
    with 2(1) [OF True] U(1) show ?thesis by blast
  next
    case False
    obtain v1 g1 where w: "walk_ancestors parent_of ?start visible = (v1, g1)" by fastforce
    with 2(3) False have p: "link_pass parent_of links v1 (grew \<or> g1) = (v', g')" by simp
    from walk_loop_bounds [OF w [unfolded walk_ancestors_def]]
    have "visible \<subseteq> v1" "g1 \<longrightarrow> visible \<noteq> v1" and "v1 \<subseteq> visible \<union> {?start} \<union> \<Union> (set_option ` snd ` set parent_of)"
      by simp_all
    moreover from this(3) have "v1 \<subseteq> visible \<union> label_universe parent_of ((a, b) # links)" using U(2,3) by blast
    ultimately have "visible \<subseteq> v1" "v1 \<subseteq> visible \<union> label_universe parent_of ((a, b) # links)" "g1 \<longrightarrow> visible \<noteq> v1" by blast+
    note v1 = this
    have ih: "v1 \<subseteq> v'" "v' \<subseteq> v1 \<union> label_universe parent_of links" "g' \<longrightarrow> (grew \<or> g1) \<or> v1 \<noteq> v'"
      using 2(2) [OF False w [symmetric] p] by simp_all
    have "visible \<subseteq> v'" using v1(1) ih(1) by (rule subset_trans)
    moreover have "v' \<subseteq> visible \<union> label_universe parent_of ((a, b) # links)"
      using subset_trans [OF ih(2)] v1(2) U(1) by (simp add: le_supI1 le_supI2)
    moreover have "g' \<longrightarrow> grew \<or> visible \<noteq> v'" using ih(1,3) v1(1,3) by (metis subset_antisym)
    ultimately show ?thesis by blast
  qed
qed auto

function link_loop :: "parents \<Rightarrow> (str \<times> str) list \<Rightarrow> str set \<Rightarrow> str set" where
  "link_loop parent_of links visible =
     (case link_pass parent_of links visible False of
        (visible, grew) \<Rightarrow> if grew then link_loop parent_of links visible else visible)"
  by pat_completeness auto

termination
proof (relation "measure (\<lambda>(parent_of, links, visible). card (label_universe parent_of links - visible))")
  fix parent_of :: parents and links :: "(str \<times> str) list" and v v' grew
  assume p: "(v', grew) = link_pass parent_of links v False" and "grew"
  from link_pass_bounds [OF p [symmetric]] \<open>grew\<close>
  have "label_universe parent_of links - v' \<subset> label_universe parent_of links - v" by blast
  moreover have "finite (label_universe parent_of links)" by (auto simp: label_universe_def)
  ultimately show "((parent_of, links, v'), parent_of, links, v)
      \<in> measure (\<lambda>(parent_of, links, visible). card (label_universe parent_of links - visible))"
    by (simp add: psubset_card_mono)
qed auto

declare link_loop.simps [simp del]

definition visible_from_maps :: "parents \<Rightarrow> childrens \<Rightarrow> (str \<times> str) list \<Rightarrow> str list \<Rightarrow> str set" where
  "visible_from_maps parent_of children_of links seeds =
     link_loop parent_of links (seed_loop parent_of children_of seeds {})"

text \<open>The maps both callers build from labels and parent labels, a later entry replacing an earlier one.\<close>

definition push_child :: "str \<Rightarrow> str \<Rightarrow> childrens \<Rightarrow> childrens" where
  "push_child parent child children_of =
     AList.update parent ((case map_of children_of parent of None \<Rightarrow> [] | Some cs \<Rightarrow> cs) @ [child]) children_of"

fun node_maps :: "(str \<times> str option) list \<Rightarrow> parents \<Rightarrow> childrens \<Rightarrow> parents \<times> childrens" where
  "node_maps [] parent_of children_of = (parent_of, children_of)"
| "node_maps ((label, parent) # nodes) parent_of children_of =
     node_maps nodes (AList.update label parent parent_of)
       (case parent of None \<Rightarrow> children_of | Some p \<Rightarrow> push_child p label children_of)"

definition visible_labels_in_public_tree :: "public_tree \<Rightarrow> str list \<Rightarrow> str set" where
  "visible_labels_in_public_tree full seeds =
     (let (parent_of, children_of) = node_maps (map (\<lambda>n. (pn_label n, pn_parent_label n)) (pt_nodes full)) [] [];
          links = map (\<lambda>e. (pe_from e, pe_to e)) (pt_links full) in
      visible_from_maps parent_of children_of links seeds)"

definition visible_labels_for_links :: "key_tree \<Rightarrow> (str \<times> str) list \<Rightarrow> str \<Rightarrow> str set result" where
  "visible_labels_for_links tree links as_label =
     and_then (index_by_label tree as_label) (\<lambda>start.
     let nodes = kt_nodes tree;
         (parent_of, children_of) =
           node_maps (map (\<lambda>n. (nd_id n, map_option (\<lambda>i. nd_id (nodes ! i)) (nd_parent_idx n))) nodes) [] [] in
     Ok (visible_from_maps parent_of children_of links [nd_id (nodes ! start)]))"

definition filter_public_tree :: "public_tree \<Rightarrow> str set \<Rightarrow> public_tree" where
  "filter_public_tree full visible =
     \<lparr>pt_label = pt_label full, pt_generation = pt_generation full,
      pt_nodes = filter (\<lambda>n. pn_label n \<in> visible) (pt_nodes full),
      pt_whitelist = filter (\<lambda>e. pe_from e \<in> visible \<and> pe_to e \<in> visible) (pt_whitelist full),
      pt_links = filter (\<lambda>e. pe_from e \<in> visible \<and> pe_to e \<in> visible) (pt_links full)\<rparr>"

definition slice_for_fingerprint :: "public_tree \<Rightarrow> str \<Rightarrow> public_tree option" where
  "slice_for_fingerprint full fp =
     (let seeds = map pn_label (filter (\<lambda>n. pn_encryption_fingerprint n = Some fp) (pt_nodes full)) in
      if seeds = [] then None
      else Some (filter_public_tree full (visible_labels_in_public_tree full seeds)))"

section \<open>Validation\<close>

fun check_nodes :: "(str \<Rightarrow> bytes option) \<Rightarrow> public_node list \<Rightarrow> str set \<Rightarrow> nat \<Rightarrow> (str set \<times> nat) result" where
  "check_nodes hex_decode [] labels roots = Ok (labels, roots)"
| "check_nodes hex_decode (n # nodes) labels roots =
     (if pn_label n = [] \<or> pn_label n \<in> labels then Err DuplicateNodeLabel
      else
        let labels = insert (pn_label n) labels;
            roots = (if pn_parent_label n = None then Suc roots else roots);
            go_on = check_nodes hex_decode nodes labels roots in
        case (pn_threshold n, pn_encryption_fingerprint n, pn_encryption_public_key n) of
          (Some threshold, None, None) \<Rightarrow> if threshold > 0 then go_on else Err InvalidTreeSpec
        | (None, Some _, Some pk) \<Rightarrow>
            (case hex_decode pk of
               None \<Rightarrow> Err InvalidPublicKey
             | Some raw \<Rightarrow> if length raw \<noteq> 32 then Err InvalidPublicKey else go_on)
        | _ \<Rightarrow> Err InvalidTreeSpec)"

fun distinct_edges :: "public_edge list \<Rightarrow> (str \<times> str) set \<Rightarrow> bool" where
  "distinct_edges [] seen = True"
| "distinct_edges (e # edges) seen =
     ((pe_from e, pe_to e) \<notin> seen \<and> distinct_edges edges (insert (pe_from e, pe_to e) seen))"

text \<open>Each link in turn: not seen before, and whitelisted in one direction.\<close>

fun check_links :: "public_edge list \<Rightarrow> public_edge list \<Rightarrow> (str \<times> str) set \<Rightarrow> bool" where
  "check_links whitelist [] seen = True"
| "check_links whitelist (e # links) seen =
     ((pe_from e, pe_to e) \<notin> seen
      \<and> list_ex (\<lambda>a. (pe_from a = pe_from e \<and> pe_to a = pe_to e) \<or> (pe_from a = pe_to e \<and> pe_to a = pe_from e)) whitelist
      \<and> check_links whitelist links (insert (pe_from e, pe_to e) seen))"

function reaches_loop :: "parents \<Rightarrow> str option \<Rightarrow> str \<Rightarrow> str set \<Rightarrow> bool" where
  "reaches_loop parent_of None root seen = False"
| "reaches_loop parent_of (Some label) root seen =
     (if label \<in> seen then False
      else if label = root then True
      else reaches_loop parent_of (parent_label_of parent_of label) root (insert label seen))"
  by pat_completeness auto

termination
  by (relation "measure (\<lambda>(parent_of, cur, root, seen). card (fst ` set parent_of - seen) + (case cur of None \<Rightarrow> 0 | Some _ \<Rightarrow> 1))")
    (auto simp: walk_decreases)

definition reaches_root :: "parents \<Rightarrow> str \<Rightarrow> str \<Rightarrow> bool" where
  "reaches_root parent_of start root = reaches_loop parent_of (Some start) root {}"

definition validate_public_tree :: "(str \<Rightarrow> bytes option) \<Rightarrow> public_tree \<Rightarrow> unit result" where
  "validate_public_tree hex_decode tree =
     (if pt_label tree = [] \<or> pt_nodes tree = [] then Err InvalidTreeSpec
      else and_then (check_nodes hex_decode (pt_nodes tree) {} 0) (\<lambda>(labels, roots).
        if roots \<noteq> 1 then Err InvalidTreeSpec
        else if \<not> list_all (\<lambda>n. case pn_parent_label n of None \<Rightarrow> True | Some p \<Rightarrow> p \<in> labels) (pt_nodes tree)
        then Err InvalidTreeSpec
        else if list_ex (\<lambda>e. pe_from e = pe_to e \<or> pe_from e \<notin> labels \<or> pe_to e \<notin> labels) (pt_whitelist tree @ pt_links tree)
        then Err InvalidBridge
        else if \<not> distinct_edges (pt_whitelist tree) {} then Err InvalidBridge
        else if \<not> check_links (pt_whitelist tree) (pt_links tree) {} then Err InvalidBridge
        else
          let (parent_of, _) = node_maps (map (\<lambda>n. (pn_label n, pn_parent_label n)) (pt_nodes tree)) [] [] in
          and_then (ok_or InvalidTreeSpec
              (map_option pn_label (List.find (\<lambda>n. pn_parent_label n = None) (rev (pt_nodes tree))))) (\<lambda>root.
          if list_all (\<lambda>n. reaches_root parent_of (pn_label n) root) (pt_nodes tree) then Ok ()
          else Err InvalidTreeSpec)))"

end
