(* ===== verification/KeyTreeOps.thy ===== *)
theory KeyTreeOps
  imports PublicTrees "HOL-Library.Product_Lexorder"
begin

text \<open>
  The operations on stored trees beside splitting (\<open>src/key_tree.rs\<close>): bridges between nodes,
  rebinding a leaf to another key, listings, and publishing the tree without its shares.
\<close>

section \<open>Bridges\<close>

definition node_id_for_label :: "int \<Rightarrow> str \<Rightarrow> store \<Rightarrow> int result" where
  "node_id_for_label key_id label st =
     ok_or NodeNotFound (map_option kn_id (List.find (\<lambda>n. kn_key_id n = key_id \<and> kn_label n = label) (st_nodes st)))"

definition ordered_pair :: "int \<Rightarrow> int \<Rightarrow> (int \<times> int) result" where
  "ordered_pair a b = (if a = b then Err InvalidBridge else if a < b then Ok (a, b) else Ok (b, a))"

text \<open>\<open>INSERT OR IGNORE\<close>: a row that is already there is left alone.\<close>

definition ignore_bridge :: "int \<Rightarrow> str \<Rightarrow> (store, unit) op" where
  "ignore_bridge node_id peer =
     modify (\<lambda>st. if (node_id, peer) \<in> set (st_bridges st) then st else st\<lparr>st_bridges := st_bridges st @ [(node_id, peer)]\<rparr>)"

definition ignore_link :: "int \<Rightarrow> int \<Rightarrow> (store, unit) op" where
  "ignore_link lo hi =
     modify (\<lambda>st. if (lo, hi) \<in> set (st_links st) then st else st\<lparr>st_links := st_links st @ [(lo, hi)]\<rparr>)"

definition allow_bridge :: "int \<Rightarrow> str \<Rightarrow> str \<Rightarrow> (store, unit) op" where
  "allow_bridge key_id node_label peer_label =
     (if node_label = peer_label then fail InvalidBridge
      else bind_op (lift (node_id_for_label key_id node_label)) (\<lambda>node_id.
        bind_op (lift (node_id_for_label key_id peer_label)) (\<lambda>_.
        ignore_bridge node_id peer_label)))"

definition deny_bridge :: "int \<Rightarrow> str \<Rightarrow> str \<Rightarrow> (store, unit) op" where
  "deny_bridge key_id node_label peer_label =
     bind_op (lift (node_id_for_label key_id node_label)) (\<lambda>node_id.
     bind_op (lift (node_id_for_label key_id peer_label)) (\<lambda>peer_id.
     bind_op (modify (\<lambda>st. st\<lparr>st_bridges := filter (\<lambda>b. b \<noteq> (node_id, peer_label) \<and> b \<noteq> (peer_id, node_label)) (st_bridges st)\<rparr>)) (\<lambda>_.
     case ordered_pair node_id peer_id of
       Inr pair \<Rightarrow> modify (\<lambda>st. st\<lparr>st_links := filter (\<lambda>l. l \<noteq> pair) (st_links st)\<rparr>)
     | Inl _ \<Rightarrow> ret ())))"

definition add_bridge :: "int \<Rightarrow> str \<Rightarrow> str \<Rightarrow> (store, unit) op" where
  "add_bridge key_id from_label to_label =
     bind_op (lift (load key_id)) (\<lambda>tree.
     bind_op (lift (\<lambda>_. index_by_label tree from_label)) (\<lambda>idx_a.
     bind_op (lift (\<lambda>_. index_by_label tree to_label)) (\<lambda>idx_b.
     let a = kt_nodes tree ! idx_a; b = kt_nodes tree ! idx_b in
     if idx_a = idx_b then fail InvalidBridge
     else if to_label \<notin> nd_allowed_bridges a \<and> from_label \<notin> nd_allowed_bridges b then fail BridgeNotWhitelisted
     else bind_op (lift (\<lambda>_. ordered_pair (nd_db_id a) (nd_db_id b))) (\<lambda>(lo, hi). ignore_link lo hi))))"

definition remove_bridge :: "int \<Rightarrow> str \<Rightarrow> str \<Rightarrow> (store, unit) op" where
  "remove_bridge key_id from_label to_label =
     bind_op (lift (node_id_for_label key_id from_label)) (\<lambda>a.
     bind_op (lift (node_id_for_label key_id to_label)) (\<lambda>b.
     bind_op (lift (\<lambda>_. ordered_pair a b)) (\<lambda>pair.
     bind_op (lift (\<lambda>st. guard (pair \<in> set (st_links st)) BridgeNotFound)) (\<lambda>_.
     modify (\<lambda>st. st\<lparr>st_links := filter (\<lambda>l. l \<noteq> pair) (st_links st)\<rparr>)))))"

definition bind_pair :: "int \<Rightarrow> str \<Rightarrow> str \<Rightarrow> (store, unit) op" where
  "bind_pair key_id a_label b_label =
     bind_op (allow_bridge key_id a_label b_label) (\<lambda>_.
     bind_op (allow_bridge key_id b_label a_label) (\<lambda>_.
     add_bridge key_id a_label b_label))"

fun bind_pairs :: "int \<Rightarrow> (str \<times> str) list \<Rightarrow> (store, unit) op" where
  "bind_pairs key_id [] = ret ()"
| "bind_pairs key_id ((a, b) # pairs) = bind_op (bind_pair key_id a b) (\<lambda>_. bind_pairs key_id pairs)"

definition active_leaf :: "key_node \<Rightarrow> bool" where
  "active_leaf n \<longleftrightarrow> nd_is_active n \<and> nd_hardware_key_id n \<noteq> None"

definition bind_leaf_to_active_siblings :: "int \<Rightarrow> str \<Rightarrow> (store, unit) op" where
  "bind_leaf_to_active_siblings key_id leaf_label =
     bind_op (lift (load key_id)) (\<lambda>tree.
     bind_op (lift (\<lambda>_. index_by_label tree leaf_label)) (\<lambda>idx.
     bind_op (lift (\<lambda>_. ok_or InvalidBridge (nd_parent_idx (kt_nodes tree ! idx)))) (\<lambda>parent_idx.
     let siblings = filter (\<lambda>c. c \<noteq> idx \<and> active_leaf (kt_nodes tree ! c)) (nd_children (kt_nodes tree ! parent_idx)) in
     bind_pairs key_id (map (\<lambda>c. (leaf_label, nd_id (kt_nodes tree ! c))) siblings))))"

text \<open>Every pair of a list, each before the later ones.\<close>

fun all_pairs :: "'a list \<Rightarrow> ('a \<times> 'a) list" where
  "all_pairs [] = []"
| "all_pairs (x # xs) = map (Pair x) xs @ all_pairs xs"

definition bind_all_sibling_leaf_pairs :: "int \<Rightarrow> (store, unit) op" where
  "bind_all_sibling_leaf_pairs key_id =
     bind_op (lift (load key_id)) (\<lambda>tree.
     bind_pairs key_id (concat (map (\<lambda>node.
       if nd_threshold node = None then []
       else all_pairs (map (\<lambda>c. nd_id (kt_nodes tree ! c)) (filter (\<lambda>c. active_leaf (kt_nodes tree ! c)) (nd_children node))))
     (kt_nodes tree))))"

record bridge_listing =
  bl_allowed :: "(str \<times> str) list"
  bl_established :: "(str \<times> str) list"

definition list_bridges :: "int \<Rightarrow> store \<Rightarrow> bridge_listing" where
  "list_bridges key_id st =
     \<lparr>bl_allowed = sort (concat (map (\<lambda>(i, peer). concat (map (\<lambda>n.
          if kn_id n = i \<and> kn_key_id n = key_id then [(kn_label n, peer)] else []) (st_nodes st))) (st_bridges st))),
      bl_established = sort (concat (map (\<lambda>(i, j). concat (map (\<lambda>a. concat (map (\<lambda>b.
          if kn_id a = i \<and> kn_id b = j \<and> kn_key_id a = key_id \<and> kn_key_id b = key_id then [(kn_label a, kn_label b)] else [])
          (st_nodes st))) (st_nodes st))) (st_links st)))\<rparr>"

definition established_bridge_pairs :: "store \<Rightarrow> (str \<times> str) list" where
  "established_bridge_pairs st =
     concat (map (\<lambda>(i, j). concat (map (\<lambda>a. concat (map (\<lambda>b.
       if kn_id a = i \<and> kn_id b = j \<and> kn_is_active a \<and> kn_is_active b then [(kn_label a, kn_label b)] else [])
       (st_nodes st))) (st_nodes st))) (st_links st))"

section \<open>Leaves and keys\<close>

definition update_row :: "int \<Rightarrow> (node_row \<Rightarrow> node_row) \<Rightarrow> store \<Rightarrow> store" where
  "update_row i f st = st\<lparr>st_nodes := map (\<lambda>n. if kn_id n = i then f n else n) (st_nodes st)\<rparr>"

definition rebind_leaf :: "prims \<Rightarrow> int \<Rightarrow> str \<Rightarrow> int \<Rightarrow> bytes \<Rightarrow> (store, unit) op" where
  "rebind_leaf P key_id node_label new_hardware_id old_secret =
     bind_op (lift (load key_id)) (\<lambda>tree.
     bind_op (lift (\<lambda>_. index_by_label tree node_label)) (\<lambda>idx.
     let node = kt_nodes tree ! idx in
     if \<not> active_leaf node then fail NodeNotFound
     else
       bind_op (lift (unwrap_leaf_share P (nd_db_id node) old_secret)) (\<lambda>share.
       bind_op (lift (get_active_encryption_key new_hardware_id)) (\<lambda>new_hw.
       bind_op (lift (\<lambda>_. seal_share P new_hw share)) (\<lambda>wrapped.
       modify (update_row (nd_db_id node)
         (\<lambda>n. n\<lparr>kn_hardware_key_id := Some new_hardware_id, kn_wrapped_share := Some wrapped\<rparr>)))))))"

definition names_leaf :: "str \<Rightarrow> int option \<Rightarrow> node_row \<Rightarrow> bool" where
  "names_leaf subject_label scope_key_id n \<longleftrightarrow>
     kn_label n = subject_label \<and> kn_hardware_key_id n \<noteq> None \<and> (scope_key_id = None \<or> scope_key_id = Some (kn_key_id n))"

text \<open>
  Two statements: the second fails on the schema's guard when the new key is not a registered
  encryption key, after the first has taken effect.
\<close>

definition adopt_reissued_hardware_key :: "str \<Rightarrow> int option \<Rightarrow> int \<Rightarrow> (store, unit) op" where
  "adopt_reissued_hardware_key subject_label scope_key_id new_hardware_id =
     bind_op (modify (\<lambda>st. st\<lparr>st_nodes := map (\<lambda>n.
       if names_leaf subject_label scope_key_id n \<and> kn_hardware_key_id n \<noteq> Some new_hardware_id
       then n\<lparr>kn_wrapped_share := None\<rparr> else n) (st_nodes st)\<rparr>)) (\<lambda>_.
     bind_op (lift (\<lambda>st. guard (list_ex (names_leaf subject_label scope_key_id) (st_nodes st) \<longrightarrow>
         list_ex (\<lambda>k. hk_id k = new_hardware_id \<and> hk_key_type k = EncryptionKey) (st_hardware_keys st)) Db)) (\<lambda>_.
     modify (\<lambda>st. st\<lparr>st_nodes := map (\<lambda>n.
       if names_leaf subject_label scope_key_id n then n\<lparr>kn_hardware_key_id := Some new_hardware_id\<rparr> else n) (st_nodes st)\<rparr>)))"

definition delete_node_bindings :: "int \<Rightarrow> int \<Rightarrow> (store, unit) op" where
  "delete_node_bindings key_id node_id =
     bind_op (lift (\<lambda>st. ok_or Db (List.find (\<lambda>n. kn_id n = node_id \<and> kn_key_id n = key_id) (st_nodes st)))) (\<lambda>row.
     modify (\<lambda>st. st\<lparr>st_links := filter (\<lambda>(a, b). a \<noteq> node_id \<and> b \<noteq> node_id) (st_links st),
       st_bridges := filter (\<lambda>(i, peer). \<not> (i = node_id \<or> (peer = kn_label row
         \<and> list_ex (\<lambda>n. kn_id n = i \<and> kn_key_id n = key_id) (st_nodes st)))) (st_bridges st)\<rparr>))"

record hardware_leaf_ref =
  hl_key_id :: int
  hl_node_id :: int
  hl_label :: str

definition active_leaves_for_hardware :: "int \<Rightarrow> store \<Rightarrow> hardware_leaf_ref list" where
  "active_leaves_for_hardware hardware_key_id st =
     map (\<lambda>n. \<lparr>hl_key_id = kn_key_id n, hl_node_id = kn_id n, hl_label = kn_label n\<rparr>)
       (sort_key (\<lambda>n. (kn_key_id n, kn_id n))
         (filter (\<lambda>n. kn_hardware_key_id n = Some hardware_key_id \<and> kn_is_active n) (st_nodes st)))"

fun drop_bindings :: "hardware_leaf_ref list \<Rightarrow> (store, unit) op" where
  "drop_bindings [] = ret ()"
| "drop_bindings (leaf # leaves) = bind_op (delete_node_bindings (hl_key_id leaf) (hl_node_id leaf)) (\<lambda>_. drop_bindings leaves)"

definition drop_bindings_for_hardware :: "int \<Rightarrow> (store, hardware_leaf_ref list) op" where
  "drop_bindings_for_hardware hardware_key_id =
     bind_op (lift (\<lambda>st. Ok (active_leaves_for_hardware hardware_key_id st))) (\<lambda>leaves.
     bind_op (drop_bindings leaves) (\<lambda>_. ret leaves))"

section \<open>Publishing\<close>

definition key_row_of :: "int \<Rightarrow> store \<Rightarrow> key_row result" where
  "key_row_of key_id st = ok_or TreeNotFound (List.find (\<lambda>k. k_id k = key_id) (st_keys st))"

text \<open>\<open>u32::try_from(generation).unwrap_or(1)\<close>\<close>

definition u32_or_one :: "int \<Rightarrow> 32 word" where
  "u32_or_one g = (if 0 \<le> g \<and> g < 2 ^ 32 then word_of_int g else 1)"

definition tree_label :: "int \<Rightarrow> store \<Rightarrow> str result" where
  "tree_label key_id st = and_then (key_row_of key_id st) (\<lambda>k. Ok (k_label k))"

definition tree_by_label :: "str \<Rightarrow> store \<Rightarrow> (int \<times> 32 word) option" where
  "tree_by_label label st =
     map_option (\<lambda>k. (k_id k, u32_or_one (k_public_generation k)))
       (List.find (\<lambda>k. k_label k = label) (sort_key k_id (st_keys st)))"

definition publish_node :: "prims \<Rightarrow> store \<Rightarrow> key_tree \<Rightarrow> key_node \<Rightarrow> public_node result" where
  "publish_node P st tree node =
     and_then (case nd_hardware_key_id node of
         None \<Rightarrow> Ok (None, None)
       | Some i \<Rightarrow> and_then (get_key i st) (\<lambda>key. Ok (Some (hk_fingerprint key), Some (hex_encode P (hk_public_key key))))) (\<lambda>(fp, pk).
     Ok \<lparr>pn_label = nd_id node, pn_parent_label = map_option (\<lambda>i. nd_id (kt_nodes tree ! i)) (nd_parent_idx node),
         pn_threshold = map_option word_of_nat (nd_threshold node), pn_is_active = nd_is_active node,
         pn_encryption_fingerprint = fp, pn_encryption_public_key = pk\<rparr>)"

definition edge_of :: "str \<times> str \<Rightarrow> public_edge" where
  "edge_of = (\<lambda>(a, b). \<lparr>pe_from = a, pe_to = b\<rparr>)"

definition export_public_tree :: "prims \<Rightarrow> int \<Rightarrow> store \<Rightarrow> public_tree result" where
  "export_public_tree P key_id st =
     and_then (key_row_of key_id st) (\<lambda>row.
     and_then (load key_id st) (\<lambda>tree.
     and_then (mapM (publish_node P st tree) (kt_nodes tree)) (\<lambda>nodes.
     let listing = list_bridges key_id st in
     Ok \<lparr>pt_label = k_label row, pt_generation = u32_or_one (k_public_generation row), pt_nodes = nodes,
         pt_whitelist = map edge_of (bl_allowed listing), pt_links = map edge_of (bl_established listing)\<rparr>)))"

definition load_for_visibility :: "int \<Rightarrow> store \<Rightarrow> (key_tree \<times> (str \<times> str) list) result" where
  "load_for_visibility key_id st =
     and_then (load key_id st) (\<lambda>tree. Ok (tree, bl_established (list_bridges key_id st)))"

definition visible_labels :: "int \<Rightarrow> str \<Rightarrow> store \<Rightarrow> str set result" where
  "visible_labels key_id as_label st =
     and_then (load_for_visibility key_id st) (\<lambda>(tree, links). visible_labels_for_links tree links as_label)"

definition public_slice_for :: "prims \<Rightarrow> int \<Rightarrow> str \<Rightarrow> store \<Rightarrow> public_tree result" where
  "public_slice_for P key_id as_label st =
     and_then (export_public_tree P key_id st) (\<lambda>full.
     and_then (visible_labels key_id as_label st) (\<lambda>visible.
     Ok (filter_public_tree full visible)))"

end
