(* ===== verification/StoreInvariant.thy ===== *)
theory StoreInvariant
  imports KeyTreeOps KeyCustody
begin

text \<open>
  The invariant of the tables of split trees: row ids and labels are unique, every tree has one
  root and every other node a parent of its own tree inserted before it, leaves refer to keys,
  whitelist entries name other nodes of the same tree, and every established link joins two
  different nodes of one tree that the whitelist allows. Every operation keeps it.
\<close>

section \<open>The invariant\<close>

definition node_shape :: "hardware_key list \<Rightarrow> node_row \<Rightarrow> bool" where
  "node_shape hks n \<longleftrightarrow>
     (case kn_threshold n of
        Some t \<Rightarrow> 0 < t \<and> t \<le> 255 \<and> kn_hardware_key_id n = None
      | None \<Rightarrow> \<exists>h \<in> hk_id ` set hks. kn_hardware_key_id n = Some h)"

definition node_placed :: "node_row list \<Rightarrow> node_row \<Rightarrow> bool" where
  "node_placed nodes n \<longleftrightarrow>
     (case kn_parent_id n of
        None \<Rightarrow> \<forall>m \<in> set nodes. kn_key_id m = kn_key_id n \<and> kn_parent_id m = None \<longrightarrow> kn_id m = kn_id n
      | Some p \<Rightarrow> p < kn_id n \<and> (\<exists>m \<in> set nodes. kn_id m = p \<and> kn_key_id m = kn_key_id n))"

definition bridge_ok :: "node_row list \<Rightarrow> int \<times> str \<Rightarrow> bool" where
  "bridge_ok nodes b \<longleftrightarrow>
     (\<exists>n \<in> set nodes. kn_id n = fst b \<and> snd b \<noteq> kn_label n
        \<and> (\<exists>m \<in> set nodes. kn_key_id m = kn_key_id n \<and> kn_label m = snd b))"

definition link_ok :: "node_row list \<Rightarrow> (int \<times> str) list \<Rightarrow> int \<times> int \<Rightarrow> bool" where
  "link_ok nodes bridges l \<longleftrightarrow> fst l < snd l \<and>
     (\<exists>a \<in> set nodes. \<exists>b \<in> set nodes. kn_id a = fst l \<and> kn_id b = snd l \<and> kn_key_id a = kn_key_id b
        \<and> ((kn_id a, kn_label b) \<in> set bridges \<or> (kn_id b, kn_label a) \<in> set bridges))"

definition forest_ok :: "store \<Rightarrow> bool" where
  "forest_ok st \<longleftrightarrow> tables_ok st
     \<and> distinct (map (\<lambda>n. (kn_key_id n, kn_label n)) (st_nodes st))
     \<and> (\<forall>n \<in> set (st_nodes st). kn_label n \<noteq> [] \<and> node_shape (st_hardware_keys st) n \<and> node_placed (st_nodes st) n)
     \<and> (\<forall>k \<in> set (st_hardware_keys st). length (hk_public_key k) = 32)"

definition bonds_ok :: "node_row list \<Rightarrow> (int \<times> str) list \<Rightarrow> (int \<times> int) list \<Rightarrow> bool" where
  "bonds_ok nodes bridges links \<longleftrightarrow> distinct bridges \<and> (\<forall>b \<in> set bridges. bridge_ok nodes b)
     \<and> distinct links \<and> (\<forall>l \<in> set links. link_ok nodes bridges l)"

definition store_ok :: "store \<Rightarrow> bool" where
  "store_ok st \<longleftrightarrow> forest_ok st \<and> bonds_ok (st_nodes st) (st_bridges st) (st_links st)"

lemma forest_ok_bonds [simp]:
  "forest_ok (st\<lparr>st_bridges := bs\<rparr>) = forest_ok st" "forest_ok (st\<lparr>st_links := ls\<rparr>) = forest_ok st"
  by (simp_all add: forest_ok_def tables_ok_def)

locale keeping =
  fixes m :: "(store, 'a) op"
  assumes keeps: "store_ok st \<Longrightarrow> store_ok (snd (m st))"
begin

lemma then_keeps:
  assumes "store_ok st" "\<And>x t. store_ok t \<Longrightarrow> m st = (Ok x, t) \<Longrightarrow> store_ok (snd (k x t))"
  shows "store_ok (snd (bind_op m k st))"
proof (cases "m st")
  case (Pair r t)
  with keeps [OF assms(1)] have "store_ok t" by simp
  with Pair assms(2) show ?thesis by (cases r) (auto simp: bind_op_def)
qed

end

lemma keeping_bind:
  "keeping m \<Longrightarrow> (\<And>x. keeping (k x)) \<Longrightarrow> keeping (bind_op m k)"
  using keeping.then_keeps by (fastforce simp: keeping_def)

lemma keeping_lift [simp]: "keeping (lift f)"
  by (simp add: keeping_def)

lemma keeping_ret [simp]: "keeping (ret x)"
  by (simp add: keeping_def)

lemma keeping_Pair [simp]: "keeping (Pair r)"
  by (simp add: keeping_def)

lemma keeping_fail [simp]: "keeping (fail e)"
  by (simp add: keeping_def)

section \<open>Bridges and links\<close>

lemma same_node:
  assumes "store_ok st" "n \<in> set (st_nodes st)" "m \<in> set (st_nodes st)"
  shows "kn_id n = kn_id m \<Longrightarrow> n = m" and "kn_key_id n = kn_key_id m \<Longrightarrow> kn_label n = kn_label m \<Longrightarrow> n = m"
  using assms by (auto simp: store_ok_def forest_ok_def tables_ok_def distinct_map dest: inj_onD)

lemma link_ok_mono: "link_ok nodes bridges l \<Longrightarrow> set bridges \<subseteq> set bridges' \<Longrightarrow> link_ok nodes bridges' l"
  unfolding link_ok_def by blast

lemma node_id_for_labelD:
  "node_id_for_label key_id label st = Ok i \<Longrightarrow>
     \<exists>n \<in> set (st_nodes st). kn_key_id n = key_id \<and> kn_label n = label \<and> kn_id n = i"
  by (auto simp: node_id_for_label_def ok_or_def dest!: find_SomeD split: option.splits)

lemma allow_bridge_keeps: "store_ok st \<Longrightarrow> store_ok (snd (allow_bridge key_id a b st))"
proof -
  assume ok: "store_ok st"
  show ?thesis
  proof (cases "allow_bridge key_id a b st = (Ok (), snd (allow_bridge key_id a b st))")
    case True
    then obtain i j where "a \<noteq> b" "node_id_for_label key_id a st = Ok i" "node_id_for_label key_id b st = Ok j"
      and st': "snd (allow_bridge key_id a b st) = (if (i, b) \<in> set (st_bridges st) then st else st\<lparr>st_bridges := st_bridges st @ [(i, b)]\<rparr>)"
      by (auto simp: allow_bridge_def ignore_bridge_def split: if_splits sum.splits)
    then have "bridge_ok (st_nodes st) (i, b)" by (auto simp: bridge_ok_def dest!: node_id_for_labelD)
    with ok show ?thesis unfolding st'
      by (auto simp: store_ok_def bonds_ok_def intro: link_ok_mono)
  next
    case False
    then have "snd (allow_bridge key_id a b st) = st"
      by (auto simp: allow_bridge_def ignore_bridge_def split: if_splits sum.splits)
    with ok show ?thesis by simp
  qed
qed

interpretation allowing: keeping "allow_bridge key_id a b" for key_id a b
  by unfold_locales (rule allow_bridge_keeps)

lemma bridge_uses:
  assumes "store_ok st" "a \<in> set (st_nodes st)" "b \<in> set (st_nodes st)" "kn_key_id a = kn_key_id b" "kn_label b = peer"
    "n \<in> set (st_nodes st)" "kn_id n = kn_id a" "m \<in> set (st_nodes st)" "kn_key_id n = kn_key_id m" "kn_label m = peer"
  shows "n = a \<and> m = b"
  using assms same_node [OF assms(1)] by metis

lemma deny_bridge_state:
  "snd (deny_bridge key_id a b st) = st \<or>
   (\<exists>n \<in> set (st_nodes st). \<exists>m \<in> set (st_nodes st). kn_key_id n = key_id \<and> kn_label n = a \<and> kn_key_id m = key_id \<and> kn_label m = b
      \<and> snd (deny_bridge key_id a b st) = st\<lparr>st_bridges := filter (\<lambda>c. c \<noteq> (kn_id n, b) \<and> c \<noteq> (kn_id m, a)) (st_bridges st),
          st_links := filter (\<lambda>l. kn_id n = kn_id m \<or> l \<noteq> (min (kn_id n) (kn_id m), max (kn_id n) (kn_id m))) (st_links st)\<rparr>)"
proof (cases "node_id_for_label key_id a st")
  case (Inr i)
  show ?thesis
  proof (cases "node_id_for_label key_id b st")
    case j: (Inr j)
    from node_id_for_labelD [OF Inr] node_id_for_labelD [OF j] obtain n m where
      "n \<in> set (st_nodes st)" "kn_key_id n = key_id" "kn_label n = a" "kn_id n = i"
      "m \<in> set (st_nodes st)" "kn_key_id m = key_id" "kn_label m = b" "kn_id m = j" by blast
    moreover from Inr j have "snd (deny_bridge key_id a b st) =
       st\<lparr>st_bridges := filter (\<lambda>c. c \<noteq> (i, b) \<and> c \<noteq> (j, a)) (st_bridges st),
          st_links := filter (\<lambda>l. i = j \<or> l \<noteq> (min i j, max i j)) (st_links st)\<rparr>"
      by (auto simp: deny_bridge_def ordered_pair_def min_def max_def bind_op_def)
    ultimately show ?thesis by blast
  qed (simp add: deny_bridge_def Inr)
qed (simp add: deny_bridge_def)

lemma deny_bridge_keeps: "store_ok st \<Longrightarrow> store_ok (snd (deny_bridge key_id a b st))"
  using deny_bridge_state [of key_id a b st]
proof (elim disjE bexE conjE)
  fix n m
  assume ok: "store_ok st" and n: "n \<in> set (st_nodes st)" "kn_key_id n = key_id" "kn_label n = a"
    and m: "m \<in> set (st_nodes st)" "kn_key_id m = key_id" "kn_label m = b"
    and st': "snd (deny_bridge key_id a b st) = st\<lparr>st_bridges := filter (\<lambda>c. c \<noteq> (kn_id n, b) \<and> c \<noteq> (kn_id m, a)) (st_bridges st),
          st_links := filter (\<lambda>l. kn_id n = kn_id m \<or> l \<noteq> (min (kn_id n) (kn_id m), max (kn_id n) (kn_id m))) (st_links st)\<rparr>"
  let ?bs = "filter (\<lambda>c. c \<noteq> (kn_id n, b) \<and> c \<noteq> (kn_id m, a)) (st_bridges st)"
  have "link_ok (st_nodes st) ?bs l" if l: "l \<in> set (st_links st)"
    and kept: "kn_id n = kn_id m \<or> l \<noteq> (min (kn_id n) (kn_id m), max (kn_id n) (kn_id m))" for l
  proof -
    from ok l obtain x y where xy: "x \<in> set (st_nodes st)" "y \<in> set (st_nodes st)" "kn_id x = fst l" "kn_id y = snd l"
      "kn_key_id x = kn_key_id y" "fst l < snd l" and in_b: "(kn_id x, kn_label y) \<in> set (st_bridges st) \<or> (kn_id y, kn_label x) \<in> set (st_bridges st)"
      by (auto simp: store_ok_def bonds_ok_def link_ok_def)
    have other: "\<not> (x = n \<and> y = m)" "\<not> (x = m \<and> y = n)"
      using kept xy(3,4,6) by (auto simp: min_def max_def prod_eq_iff)
    have "(kn_id x, kn_label y) \<noteq> (kn_id n, b)" "(kn_id x, kn_label y) \<noteq> (kn_id m, a)"
      "(kn_id y, kn_label x) \<noteq> (kn_id n, b)" "(kn_id y, kn_label x) \<noteq> (kn_id m, a)"
      using other same_node [OF ok] xy n m by (metis prod.inject)+
    then have "(kn_id x, kn_label y) \<in> set ?bs \<or> (kn_id y, kn_label x) \<in> set ?bs" using in_b by simp
    with xy show ?thesis unfolding link_ok_def by blast
  qed
  with ok show ?thesis unfolding st' by (auto simp: store_ok_def bonds_ok_def)
qed simp

interpretation denying: keeping "deny_bridge key_id a b" for key_id a b
  by unfold_locales (rule deny_bridge_keeps)

lemma remove_bridge_keeps: "store_ok st \<Longrightarrow> store_ok (snd (remove_bridge key_id a b st))"
  by (auto simp: remove_bridge_def store_ok_def bonds_ok_def split: sum.splits)

interpretation removing: keeping "remove_bridge key_id a b" for key_id a b
  by unfold_locales (rule remove_bridge_keeps)

lemma load_node:
  assumes "load key_id st = Ok tree" "index_by_label tree label = Ok i"
  shows "\<exists>n \<in> set (st_nodes st). kn_key_id n = key_id \<and> kn_label n = label \<and> i < length (kt_nodes tree)
     \<and> nd_db_id (kt_nodes tree ! i) = kn_id n \<and> nd_hardware_key_id (kt_nodes tree ! i) = kn_hardware_key_id n
     \<and> nd_allowed_bridges (kt_nodes tree ! i) = {peer. (kn_id n, peer) \<in> set (st_bridges st)}"
proof -
  let ?rows = "tree_rows key_id st"
  from assms(1) obtain parents where
    nodes: "kt_nodes tree = map (arena_node (st_bridges st) parents ?rows) [0..<length ?rows]"
    by (auto simp: load_def Let_def res_simps simp del: map_eq_conv split: if_splits)
  from assms(2) have "position (\<lambda>n. nd_id n = label) (kt_nodes tree) = Some i"
    by (auto simp: index_by_label_def ok_or_def split: option.splits)
  from position_nth [OF this] have i: "i < length ?rows" "kn_label (?rows ! i) = label"
    by (auto simp: nodes arena_node_def Let_def)
  then have "?rows ! i \<in> set (st_nodes st)" "kn_key_id (?rows ! i) = key_id"
    using nth_mem [OF i(1)] by (auto simp: tree_rows_def)
  with i show ?thesis by (intro bexI [of _ "?rows ! i"]) (auto simp: nodes arena_node_def Let_def image_iff)
qed

lemma link_ok_pair:
  assumes "n \<in> set nodes" "m \<in> set nodes" "kn_key_id n = kn_key_id m"
    "(kn_id n, kn_label m) \<in> set bs \<or> (kn_id m, kn_label n) \<in> set bs" "ordered_pair (kn_id n) (kn_id m) = Ok l"
  shows "link_ok nodes bs l"
proof (cases "kn_id n < kn_id m")
  case True
  with assms show ?thesis unfolding link_ok_def ordered_pair_def by (intro conjI bexI [of _ n] bexI [of _ m]) auto
next
  case False
  with assms show ?thesis unfolding link_ok_def ordered_pair_def
    by (intro conjI bexI [of _ m] bexI [of _ n]) (auto split: if_splits)
qed

lemma add_bridge_keeps: "store_ok st \<Longrightarrow> store_ok (snd (add_bridge key_id a b st))"
proof -
  assume ok: "store_ok st"
  show ?thesis
  proof (cases "fst (add_bridge key_id a b st)")
    case (Inl e)
    then have "snd (add_bridge key_id a b st) = st"
      by (auto simp: add_bridge_def ignore_link_def Let_def split: sum.splits if_splits)
    with ok show ?thesis by simp
  next
    case (Inr u)
    then obtain tree i j lo hi where ld: "load key_id st = Ok tree" "index_by_label tree a = Ok i" "index_by_label tree b = Ok j"
      and wl: "b \<in> nd_allowed_bridges (kt_nodes tree ! i) \<or> a \<in> nd_allowed_bridges (kt_nodes tree ! j)"
      and op: "ordered_pair (nd_db_id (kt_nodes tree ! i)) (nd_db_id (kt_nodes tree ! j)) = Ok (lo, hi)"
      and st': "add_bridge key_id a b st = ignore_link lo hi st"
      by (auto simp: add_bridge_def Let_def split: sum.splits if_splits)
    from load_node [OF ld(1,2)] load_node [OF ld(1,3)] wl op have "link_ok (st_nodes st) (st_bridges st) (lo, hi)"
      by (elim bexE) (rule link_ok_pair, auto)
    with ok show ?thesis unfolding st' by (auto simp: ignore_link_def store_ok_def bonds_ok_def)
  qed
qed

interpretation adding: keeping "add_bridge key_id a b" for key_id a b
  by unfold_locales (rule add_bridge_keeps)

interpretation binding: keeping "bind_pair key_id a b" for key_id a b
  unfolding bind_pair_def by (intro keeping_bind allowing.keeping_axioms adding.keeping_axioms)

lemma keeping_bind_pairs: "keeping (bind_pairs key_id pairs)"
  by (induction key_id pairs rule: bind_pairs.induct) (simp_all add: keeping_bind binding.keeping_axioms)

interpretation binding_siblings: keeping "bind_leaf_to_active_siblings key_id label" for key_id label
  unfolding bind_leaf_to_active_siblings_def Let_def by (intro keeping_bind keeping_lift keeping_bind_pairs)

interpretation binding_all: keeping "bind_all_sibling_leaf_pairs key_id" for key_id
  unfolding bind_all_sibling_leaf_pairs_def by (intro keeping_bind keeping_lift keeping_bind_pairs)

lemma delete_node_bindings_keeps: "store_ok st \<Longrightarrow> store_ok (snd (delete_node_bindings key_id i st))"
proof -
  assume ok: "store_ok st"
  show ?thesis
  proof (cases "List.find (\<lambda>n. kn_id n = i \<and> kn_key_id n = key_id) (st_nodes st)")
    case (Some row)
    then have row: "row \<in> set (st_nodes st)" "kn_id row = i" "kn_key_id row = key_id" by (auto dest: find_SomeD)
    define gone where "gone = (\<lambda>(k, peer). k = i \<or> (peer = kn_label row \<and> list_ex (\<lambda>n. kn_id n = k \<and> kn_key_id n = key_id) (st_nodes st)))"
    have st': "snd (delete_node_bindings key_id i st) = st\<lparr>st_links := filter (\<lambda>(a, b). a \<noteq> i \<and> b \<noteq> i) (st_links st),
       st_bridges := filter (\<lambda>b. \<not> gone b) (st_bridges st)\<rparr>"
      by (simp add: delete_node_bindings_def Some gone_def split_def)
    have stays: "\<not> gone (kn_id x, kn_label y)"
      if "x \<in> set (st_nodes st)" "y \<in> set (st_nodes st)" "kn_key_id x = kn_key_id y" "kn_id x \<noteq> i" "kn_id y \<noteq> i" for x y
      using that row same_node [OF ok] by (auto simp: gone_def list_ex_iff) metis
    have "link_ok (st_nodes st) (filter (\<lambda>b. \<not> gone b) (st_bridges st)) l"
      if "l \<in> set (st_links st)" "fst l \<noteq> i" "snd l \<noteq> i" for l
    proof -
      from ok that obtain x y where xy: "x \<in> set (st_nodes st)" "y \<in> set (st_nodes st)" "kn_id x = fst l" "kn_id y = snd l"
        "kn_key_id x = kn_key_id y" "fst l < snd l" "(kn_id x, kn_label y) \<in> set (st_bridges st) \<or> (kn_id y, kn_label x) \<in> set (st_bridges st)"
        by (auto simp: store_ok_def bonds_ok_def link_ok_def)
      with that stays [of x y] stays [of y x]
      have "(kn_id x, kn_label y) \<in> set (filter (\<lambda>b. \<not> gone b) (st_bridges st)) \<or> (kn_id y, kn_label x) \<in> set (filter (\<lambda>b. \<not> gone b) (st_bridges st))"
        by simp
      with xy show ?thesis unfolding link_ok_def by blast
    qed
    with ok show ?thesis unfolding st' by (auto simp: store_ok_def bonds_ok_def)
  qed (simp add: delete_node_bindings_def ok)
qed

interpretation unbinding: keeping "delete_node_bindings key_id i" for key_id i
  by unfold_locales (rule delete_node_bindings_keeps)

lemma keeping_drop_bindings: "keeping (drop_bindings leaves)"
  by (induction leaves rule: drop_bindings.induct) (simp_all add: keeping_bind unbinding.keeping_axioms)

interpretation dropping: keeping "drop_bindings_for_hardware h" for h
  unfolding drop_bindings_for_hardware_def by (intro keeping_bind keeping_lift keeping_drop_bindings keeping_ret)

section \<open>Splitting\<close>

text \<open>
  While a tree is being laid out, its whitelist may name nodes that are still to come: peers are
  only known to be labels of the specification.
\<close>

definition building :: "int \<Rightarrow> str set \<Rightarrow> store \<Rightarrow> bool" where
  "building k labels st \<longleftrightarrow>
     (\<forall>n \<in> set (st_nodes st). node_shape (st_hardware_keys st) n \<and> node_placed (st_nodes st) n)
     \<and> distinct (st_bridges st)
     \<and> (\<forall>b \<in> set (st_bridges st). bridge_ok (st_nodes st) b
          \<or> (\<exists>n \<in> set (st_nodes st). kn_key_id n = k \<and> kn_id n = fst b \<and> snd b \<noteq> kn_label n \<and> snd b \<in> labels))
     \<and> distinct (st_links st) \<and> (\<forall>l \<in> set (st_links st). link_ok (st_nodes st) (st_bridges st) l)"

definition parent_here :: "int \<Rightarrow> int option \<Rightarrow> node_row list \<Rightarrow> bool" where
  "parent_here k parent nodes \<longleftrightarrow>
     (case parent of None \<Rightarrow> \<forall>n \<in> set nodes. kn_key_id n \<noteq> k | Some p \<Rightarrow> \<exists>n \<in> set nodes. kn_id n = p \<and> kn_key_id n = k)"

lemma bridge_ok_grows: "bridge_ok nodes b \<Longrightarrow> bridge_ok (nodes @ more_nodes) b"
  unfolding bridge_ok_def by (metis UnCI set_append)

lemma link_ok_grows: "link_ok nodes bs l \<Longrightarrow> link_ok (nodes @ more_nodes) bs l"
  unfolding link_ok_def by (metis UnCI set_append)

lemma node_placed_grows:
  assumes "node_placed nodes m" "kn_parent_id n = None \<Longrightarrow> kn_key_id n \<noteq> kn_key_id m"
  shows "node_placed (nodes @ [n]) m"
proof (cases "kn_parent_id m")
  case (Some p)
  with assms(1) show ?thesis by (simp add: node_placed_def)
qed (use assms in \<open>auto simp: node_placed_def\<close>)

lemma node_shape_fits: "node_fits st n \<Longrightarrow> (\<And>t. kn_threshold n = Some t \<Longrightarrow> t \<le> 255) \<Longrightarrow> node_shape (st_hardware_keys st) n"
  by (auto simp: node_fits_def node_shape_def list_ex_iff split: option.splits)

lemma insert_node_building:
  assumes "insert_node k parent label t h w active st = (Ok i, st')" "building k labels st" "parent_here k parent (st_nodes st)"
    and "\<And>x. t = Some x \<Longrightarrow> x \<le> 255"
  shows "building k labels st' \<and> (\<exists>n \<in> set (st_nodes st'). kn_id n = i \<and> kn_key_id n = k \<and> kn_label n = label)
     \<and> set (st_nodes st) \<subseteq> set (st_nodes st')"
proof -
  define n where "n = \<lparr>kn_id = i, kn_key_id = k, kn_parent_id = parent, kn_label = label, kn_threshold = t,
     kn_hardware_key_id = h, kn_wrapped_share = w, kn_is_active = active\<rparr>"
  from assms(1) have st': "st' = st\<lparr>st_nodes := st_nodes st @ [n]\<rparr>" and fits: "node_fits st n"
    and i: "i = next_id (map kn_id (st_nodes st))"
    by (auto simp: insert_node_def Let_def n_def split: if_splits)
  have "node_shape (st_hardware_keys st) n" using fits assms(4) by (auto intro!: node_shape_fits simp: n_def)
  moreover have "node_placed (st_nodes st @ [n]) n"
    using assms(3) next_id_above [of _ "map kn_id (st_nodes st)"]
    by (auto simp: node_placed_def n_def parent_here_def i split: option.splits)
  moreover have "node_placed (st_nodes st @ [n]) m" if "m \<in> set (st_nodes st)" "node_placed (st_nodes st) m" for m
    using that(2)
  proof (rule node_placed_grows)
    show "kn_parent_id n = None \<Longrightarrow> kn_key_id n \<noteq> kn_key_id m" using assms(3) that(1) by (auto simp: n_def parent_here_def)
  qed
  ultimately have "building k labels st'" using assms(2)
    unfolding building_def st' by (auto intro: bridge_ok_grows link_ok_grows)
  then show ?thesis by (auto simp: st' n_def)
qed

lemma insert_allowed_bridges_building:
  assumes "insert_allowed_bridges i peers st = (Ok (), st')" "building k labels st"
    and "n \<in> set (st_nodes st)" "kn_id n = i" "kn_key_id n = k" "list_all (\<lambda>peer. peer \<noteq> kn_label n \<and> peer \<in> labels) peers"
  shows "building k labels st' \<and> st_nodes st' = st_nodes st"
  using assms
proof (induction peers arbitrary: st)
  case (Cons peer peers)
  from Cons.prems(1) obtain st1 where st1: "insert_bridge i peer st = (Ok (), st1)" "insert_allowed_bridges i peers st1 = (Ok (), st')"
    by (auto simp: res_simps)
  then have eq: "st1 = st\<lparr>st_bridges := st_bridges st @ [(i, peer)]\<rparr>" "(i, peer) \<notin> set (st_bridges st)"
    by (auto simp: insert_bridge_def split: if_splits)
  with Cons.prems have "building k labels st1" unfolding building_def by (auto intro: link_ok_mono)
  with Cons.IH [OF st1(2)] Cons.prems eq(1) show ?case by simp
qed simp

lemma split_node_building:
  "split_node P S k parent v spec st = (Ok (), st') \<Longrightarrow> building k labels st \<Longrightarrow> parent_here k parent (st_nodes st) \<Longrightarrow>
     validate_bridges labels spec = Ok () \<Longrightarrow> building k labels st' \<and> set (st_nodes st) \<subseteq> set (st_nodes st')"
  "split_children P S k i vs cs st = (Ok (), st') \<Longrightarrow> building k labels st \<Longrightarrow> parent_here k (Some i) (st_nodes st) \<Longrightarrow>
     validate_all_bridges labels cs = Ok () \<Longrightarrow> building k labels st' \<and> set (st_nodes st) \<subseteq> set (st_nodes st')"
proof (induction P S k parent v spec and P S k i vs cs arbitrary: st st' and st st'
    rule: split_node_split_children.induct)
  case (1 P S k parent v l h b)
  from 1(1) obtain w i st1 where i: "insert_node k parent l None (Some h) (Some w) True st = (Ok i, st1)"
    and b: "insert_allowed_bridges i b st1 = (Ok (), st')"
    by (auto simp: res_simps split: sum.splits if_splits)
  from insert_node_building [OF i 1(2,3)] obtain n where
    n: "building k labels st1" "n \<in> set (st_nodes st1)" "kn_id n = i" "kn_key_id n = k" "kn_label n = l" "set (st_nodes st) \<subseteq> set (st_nodes st1)"
    by auto
  from 1(4) n(5) have "list_all (\<lambda>peer. peer \<noteq> kn_label n \<and> peer \<in> labels) b" by (auto simp: guard_def split: if_splits)
  from insert_allowed_bridges_building [OF b n(1-4) this] n(6) show ?case by auto
next
  case (2 P S k parent v l t cs b)
  let ?shares = "\<lambda>x. take (length cs) (deal S (unat t) v x)"
  from 2(2) obtain i st1 st2 st3 x where
    i: "insert_node k parent l (Some (int (unat t))) None None True st = (Ok i, st1)"
    and b: "insert_allowed_bridges i b st1 = (Ok (), st2)" and d: "draw st2 = (Ok x, st3)"
    and len: "length (?shares x) = length cs" and c: "split_children P S k i (?shares x) cs st3 = (Ok (), st')"
    by (auto simp: res_simps Let_def split: if_splits)
  have "int (unat t) \<le> 255" using u8_unat_bound [of t] by linarith
  then have "x \<le> 255" if "Some (int (unat t)) = Some x" for x using that by (metis option.inject)
  from insert_node_building [OF i 2(3,4) this] obtain n where
    n: "building k labels st1" "n \<in> set (st_nodes st1)" "kn_id n = i" "kn_key_id n = k" "kn_label n = l" "set (st_nodes st) \<subseteq> set (st_nodes st1)"
    by blast
  from 2(5) n(5) have v: "list_all (\<lambda>peer. peer \<noteq> kn_label n \<and> peer \<in> labels) b" "validate_all_bridges labels cs = Ok ()"
    by (auto simp: res_simps guard_def split: if_splits)
  from insert_allowed_bridges_building [OF b n(1-4) v(1)] d have "building k labels st3" "st_nodes st3 = st_nodes st1"
    by (auto simp: draw_def building_def)
  with 2(1) [OF refl _ c _ _ v(2)] len n show ?case by (auto simp: parent_here_def)
next
  case (4 P S k i vs c cs)
  show ?case
  proof (cases vs)
    case (Cons v vs')
    with 4(3) obtain st1 where c: "split_node P S k (Some i) v c st = (Ok (), st1)"
      and cs: "split_children P S k i vs' cs st1 = (Ok (), st')" by (auto simp: res_simps)
    from 4(6) have v: "validate_bridges labels c = Ok ()" "validate_all_bridges labels cs = Ok ()" by (auto simp: res_simps)
    from 4(1) [OF Cons c 4(4,5) v(1)] have st1: "building k labels st1" "set (st_nodes st) \<subseteq> set (st_nodes st1)" by auto
    with 4(5) have "parent_here k (Some i) (st_nodes st1)" by (auto simp: parent_here_def)
    from 4(2) [OF Cons cs st1(1) this v(2)] st1(2) show ?thesis by auto
  qed (use 4 in auto)
qed auto

lemma collect_labels_nonempty:
  "collect_labels spec seen = Ok s \<Longrightarrow> [] \<notin> seen \<Longrightarrow> [] \<notin> s"
  "collect_all_labels cs seen = Ok s \<Longrightarrow> [] \<notin> seen \<Longrightarrow> [] \<notin> s"
  by (induction spec seen and cs seen arbitrary: s and s rule: collect_labels_collect_all_labels.induct)
    (auto simp: res_simps split: if_splits)

lemma store_ok_building: "store_ok st \<Longrightarrow> building k labels st"
  by (auto simp: store_ok_def forest_ok_def bonds_ok_def building_def)

lemma split_key_labels:
  assumes "split_key P S label v spec st = (Ok k, st')" "store_ok st"
  shows "distinct (map (\<lambda>n. (kn_key_id n, kn_label n)) (st_nodes st'))"
proof -
  from assms(2) have t: "tables_ok st" by (simp add: store_ok_def forest_ok_def)
  note l = split_key_laid [OF assms(1) t]
  have "n = m" if n: "n \<in> set (st_nodes st')" and m: "m \<in> set (st_nodes st')"
    and same: "kn_key_id n = kn_key_id m" "kn_label n = kn_label m" for n m
  proof (cases "kn_key_id n = k")
    case True
    with n m same have "n \<in> set (tree_rows k st')" "m \<in> set (tree_rows k st')" by (auto simp: tree_rows_def)
    with l(4) same(2) show ?thesis by (auto simp: distinct_map dest: inj_onD)
  next
    case False
    with n m same have "n \<in> set (tree_rows (kn_key_id n) st')" "m \<in> set (tree_rows (kn_key_id n) st')" by (auto simp: tree_rows_def)
    then have "n \<in> set (st_nodes st)" "m \<in> set (st_nodes st)" unfolding l(6) [OF False] by (auto simp: tree_rows_def)
    with same_node(2) [OF assms(2)] same show ?thesis by blast
  qed
  with l(1) show ?thesis by (auto simp: tables_ok_def distinct_map inj_on_def)
qed

lemma split_key_store_ok:
  assumes "split_key P S label v spec st = (Ok k, st')" "store_ok st"
  shows "store_ok st'"
proof -
  from assms(1) obtain st1 where val: "validate spec st = Ok ()" and key: "insert_key label st = (Ok k, st1)"
    and s: "split_node P S k None v spec st1 = (Ok (), st')"
    by (auto simp: split_key_def transaction_def build_tree_def res_simps split: prod.splits sum.splits)
  from val obtain labels where labels: "collect_labels spec {} = Ok labels" "validate_bridges labels spec = Ok ()"
    by (auto simp: validate_def res_simps split: if_splits)
  from assms(2) have t: "tables_ok st" by (simp add: store_ok_def forest_ok_def)
  note l = split_key_laid [OF assms(1) t]
  have own: "map kn_label (tree_rows k st') = spec_labels spec" using laid_rows(1) [OF l(2)] by simp
  have named: "labels = set (spec_labels spec)" using collect_labels_distinct(1) [OF labels(1)] by simp
  have st1: "st_nodes st1 = st_nodes st" using key by (auto simp: insert_key_def Let_def)
  have "kn_key_id n \<noteq> k" if "n \<in> set (st_nodes st)" for n
    using t split_key_keys(2) [OF assms(1)] that unfolding tables_ok_def by blast
  then have "parent_here k None (st_nodes st1)" by (simp add: parent_here_def st1)
  moreover have "building k labels st1" using store_ok_building [OF assms(2), of k labels] key
    by (auto simp: building_def insert_key_def Let_def)
  ultimately have b: "building k labels st'" using split_node_building(1) [OF s _ _ labels(2)] by blast
  have lab: "kn_label n \<noteq> []" if n: "n \<in> set (st_nodes st')" for n
  proof (cases "kn_key_id n = k")
    case True
    with n have "kn_label n \<in> set (map kn_label (tree_rows k st'))" by (auto simp: tree_rows_def)
    with collect_labels_nonempty(1) [OF labels(1)] named own show ?thesis by auto
  next
    case False
    with n have "n \<in> set (tree_rows (kn_key_id n) st')" by (auto simp: tree_rows_def)
    then have "n \<in> set (st_nodes st)" unfolding l(6) [OF False] by (auto simp: tree_rows_def)
    with assms(2) show ?thesis by (auto simp: store_ok_def forest_ok_def)
  qed
  have peer: "\<exists>m \<in> set (st_nodes st'). kn_key_id m = k \<and> kn_label m = p" if "p \<in> labels" for p
  proof -
    from that named own have "p \<in> kn_label ` set (tree_rows k st')" by (metis set_map)
    then show ?thesis by (auto simp: tree_rows_def)
  qed
  have "bridge_ok (st_nodes st') x" if "x \<in> set (st_bridges st')" for x
    using b that peer [of "snd x"] unfolding building_def bridge_ok_def by metis
  with b lab l(1) split_key_labels [OF assms] assms(2) split_key_keys(1) [OF assms(1)] show ?thesis
    by (auto simp: store_ok_def forest_ok_def bonds_ok_def building_def)
qed

interpretation splitting_key: keeping "split_key P S label v spec" for P S label v spec
proof unfold_locales
  fix st
  assume ok: "store_ok st"
  show "store_ok (snd (split_key P S label v spec st))"
  proof (cases "fst (split_key P S label v spec st)")
    case (Inl e)
    then obtain k where "snd (split_key P S label v spec st) = st\<lparr>st_draws := k\<rparr>"
      by (auto simp: split_key_def transaction_def split: prod.splits sum.splits)
    with ok show ?thesis by (simp add: store_ok_def forest_ok_def tables_ok_def)
  next
    case (Inr k)
    then have "split_key P S label v spec st = (Ok k, snd (split_key P S label v spec st))" by (simp add: prod_eq_iff)
    from split_key_store_ok [OF this ok] show ?thesis .
  qed
qed

section \<open>Rows and keys\<close>

text \<open>Changing what the rows hold and not where they stand.\<close>

lemma update_rows_keeps:
  assumes "store_ok st"
    and f: "\<And>n. kn_id (f n) = kn_id n \<and> kn_key_id (f n) = kn_key_id n \<and> kn_parent_id (f n) = kn_parent_id n \<and> kn_label (f n) = kn_label n"
    and shape: "\<And>n. n \<in> set (st_nodes st) \<Longrightarrow> node_shape (st_hardware_keys st) n \<Longrightarrow> node_shape (st_hardware_keys st) (f n)"
  shows "store_ok (st\<lparr>st_nodes := map f (st_nodes st)\<rparr>)"
proof -
  have "node_placed (map f nodes) (f n) = node_placed nodes n" "bridge_ok (map f nodes) = bridge_ok nodes"
    "link_ok (map f nodes) bs = link_ok nodes bs" for nodes n bs
    by (auto simp: node_placed_def bridge_ok_def link_ok_def f fun_eq_iff split: option.splits)
  with assms(1) shape show ?thesis
    by (simp add: store_ok_def forest_ok_def bonds_ok_def tables_ok_def f o_def image_image)
qed

lemma node_shape_rekey:
  "node_shape hks n \<Longrightarrow> kn_hardware_key_id n \<noteq> None \<Longrightarrow> h \<in> hk_id ` set hks \<Longrightarrow>
     kn_threshold m = kn_threshold n \<Longrightarrow> kn_hardware_key_id m = Some h \<Longrightarrow> node_shape hks m"
  by (auto simp: node_shape_def split: option.splits)

interpretation rebinding: keeping "rebind_leaf P key_id label h old_secret" for P key_id label h old_secret
proof unfold_locales
  fix st
  assume ok: "store_ok st"
  show "store_ok (snd (rebind_leaf P key_id label h old_secret st))"
  proof (cases "fst (rebind_leaf P key_id label h old_secret st)")
    case (Inl e)
    then have "snd (rebind_leaf P key_id label h old_secret st) = st"
      by (auto simp: rebind_leaf_def Let_def split: sum.splits if_splits)
    with ok show ?thesis by simp
  next
    case (Inr u)
    then obtain tree i hw w where ld: "load key_id st = Ok tree" "index_by_label tree label = Ok i"
      and leaf: "active_leaf (kt_nodes tree ! i)" and hw: "get_active_encryption_key h st = Ok hw"
      and st': "snd (rebind_leaf P key_id label h old_secret st) =
        update_row (nd_db_id (kt_nodes tree ! i)) (\<lambda>n. n\<lparr>kn_hardware_key_id := Some h, kn_wrapped_share := Some w\<rparr>) st"
      by (auto simp: rebind_leaf_def Let_def split: sum.splits if_splits)
    from hw have "h \<in> hk_id ` set (st_hardware_keys st)"
      by (auto simp: get_active_encryption_key_def get_key_def res_simps ok_or_def dest!: find_SomeD split: if_splits option.splits)
    moreover from load_node [OF ld] leaf obtain n where n: "n \<in> set (st_nodes st)" "kn_id n = nd_db_id (kt_nodes tree ! i)" "kn_hardware_key_id n \<noteq> None"
      by (auto simp: active_leaf_def)
    moreover have "kn_hardware_key_id m \<noteq> None" if "m \<in> set (st_nodes st)" "kn_id m = nd_db_id (kt_nodes tree ! i)" for m
      using same_node(1) [OF ok that(1) n(1)] that(2) n(2,3) by simp
    ultimately show ?thesis unfolding st' update_row_def
      by (intro update_rows_keeps [OF ok]) (simp_all add: node_shape_rekey)
  qed
qed

lemma node_shape_share [simp]: "node_shape hks (n\<lparr>kn_wrapped_share := w\<rparr>) = node_shape hks n"
  by (simp add: node_shape_def split: option.split)

lemma adopt_clears: "keeping (modify (\<lambda>st. st\<lparr>st_nodes := map (\<lambda>n. if p n then n\<lparr>kn_wrapped_share := None\<rparr> else n) (st_nodes st)\<rparr>))"
  by unfold_locales (simp, rule update_rows_keeps, simp_all)

lemma adopt_rekeys:
  assumes "store_ok st" "list_ex (names_leaf label scope) (st_nodes st) \<longrightarrow> list_ex (\<lambda>k. hk_id k = h \<and> hk_key_type k = EncryptionKey) (st_hardware_keys st)"
  shows "store_ok (st\<lparr>st_nodes := map (\<lambda>n. if names_leaf label scope n then n\<lparr>kn_hardware_key_id := Some h\<rparr> else n) (st_nodes st)\<rparr>)"
proof (rule update_rows_keeps [OF assms(1)])
  fix n
  assume n: "n \<in> set (st_nodes st)" "node_shape (st_hardware_keys st) n"
  show "node_shape (st_hardware_keys st) (if names_leaf label scope n then n\<lparr>kn_hardware_key_id := Some h\<rparr> else n)"
  proof (cases "names_leaf label scope n")
    case True
    with n(1) assms(2) have "h \<in> hk_id ` set (st_hardware_keys st)" by (auto simp: list_ex_iff)
    with True n(2) show ?thesis by (simp add: node_shape_rekey names_leaf_def)
  qed (simp add: n)
qed simp

interpretation adopting: keeping "adopt_reissued_hardware_key label scope h" for label scope h
  unfolding adopt_reissued_hardware_key_def
  by unfold_locales (rule keeping.then_keeps [OF adopt_clears], assumption,
    auto simp: guard_def split: if_splits intro!: adopt_rekeys)

lemma register_key_keeps: "store_ok st \<Longrightarrow> store_ok (snd (register_key P label kt pk st))"
proof -
  assume ok: "store_ok st"
  show ?thesis
  proof (cases "fst (register_key P label kt pk st)")
    case (Inl e)
    then have "snd (register_key P label kt pk st) = st" by (auto simp: register_key_def Let_def split: if_splits)
    with ok show ?thesis by simp
  next
    case (Inr i)
    then obtain k where "snd (register_key P label kt pk st) = st\<lparr>st_hardware_keys := st_hardware_keys st @ [k]\<rparr>" "length (hk_public_key k) = 32"
      by (auto simp: register_key_def Let_def split: if_splits)
    with ok show ?thesis by (auto simp: store_ok_def forest_ok_def tables_ok_def node_shape_def split: option.splits)
  qed
qed

interpretation registering: keeping "get_or_register P label kt pk" for P label kt pk
  by unfold_locales (auto simp: get_or_register_def register_key_keeps split: sum.splits)

interpretation custody_setting: keeping "set_custody_policy k policy" for k policy
proof unfold_locales
  fix st
  assume ok: "store_ok st"
  have "map k_id (st_keys (snd (set_custody_policy k policy st))) = map k_id (st_keys st)"
    and st: "st_nodes (snd (set_custody_policy k policy st)) = st_nodes st" "st_hardware_keys (snd (set_custody_policy k policy st)) = st_hardware_keys st"
    "st_bridges (snd (set_custody_policy k policy st)) = st_bridges st" "st_links (snd (set_custody_policy k policy st)) = st_links st"
    by (auto simp: set_custody_policy_def)
  then have "k_id ` set (st_keys (snd (set_custody_policy k policy st))) = k_id ` set (st_keys st)" by (metis set_map)
  with ok st show "store_ok (snd (set_custody_policy k policy st))" by (simp add: store_ok_def forest_ok_def tables_ok_def)
qed

end
