(* ===== verification/PublicTreeFacts.thy ===== *)
theory PublicTreeFacts
  imports PublicTrees
begin

text \<open>
  What the visibility loops compute: lineages, descendants and the closure under established
  links, on arbitrary maps and then on validated trees.
\<close>

section \<open>Lineages\<close>

definition up :: "parents \<Rightarrow> str \<Rightarrow> str \<Rightarrow> bool" where
  "up parent_of a b \<longleftrightarrow> parent_label_of parent_of a = Some b"

definition lineage :: "parents \<Rightarrow> str \<Rightarrow> str set" where
  "lineage parent_of a = {b. (up parent_of)\<^sup>*\<^sup>* a b}"

definition up_closed :: "parents \<Rightarrow> str set \<Rightarrow> bool" where
  "up_closed parent_of V \<longleftrightarrow> (\<forall>a \<in> V. \<forall>b. up parent_of a b \<longrightarrow> b \<in> V)"

lemma lineage_step: "lineage parent_of a = insert a (case parent_label_of parent_of a of None \<Rightarrow> {} | Some b \<Rightarrow> lineage parent_of b)"
  by (auto simp: lineage_def up_def elim: converse_rtranclpE intro: converse_rtranclp_into_rtranclp split: option.splits)

lemma lineage_self [simp]: "a \<in> lineage parent_of a"
  by (simp add: lineage_def)

lemma lineage_least: "up_closed parent_of V \<Longrightarrow> a \<in> V \<Longrightarrow> lineage parent_of a \<subseteq> V"
proof -
  assume c: "up_closed parent_of V" "a \<in> V"
  have "(up parent_of)\<^sup>*\<^sup>* a b \<Longrightarrow> b \<in> V" for b
    by (induction rule: rtranclp_induct) (use c in \<open>auto simp: up_closed_def\<close>)
  then show ?thesis by (auto simp: lineage_def)
qed

lemma lineage_closed: "up_closed parent_of (lineage parent_of a)"
  by (auto simp: up_closed_def lineage_def)

lemma up_closed_Un: "up_closed parent_of U \<Longrightarrow> up_closed parent_of V \<Longrightarrow> up_closed parent_of (U \<union> V)"
  by (auto simp: up_closed_def)

text \<open>The labels seen so far are closed but for the one the walk stands at.\<close>

lemma walk_loop_lineage:
  "(\<forall>a \<in> seen. \<forall>b. up parent_of a b \<longrightarrow> b \<in> seen \<or> cur = Some b) \<Longrightarrow> seen \<subseteq> V \<Longrightarrow>
     walk_loop parent_of cur seen V g
       = (let L = (case cur of None \<Rightarrow> {} | Some l \<Rightarrow> lineage parent_of l) in (V \<union> L, g \<or> \<not> L \<subseteq> V))"
proof (induction parent_of cur seen V g rule: walk_loop.induct)
  case (2 parent_of label seen visible grew)
  show ?case
  proof (cases "label \<in> seen")
    case True
    then have "up_closed parent_of seen" using 2(2) by (auto simp: up_closed_def)
    from lineage_least [OF this True] 2(3) have "lineage parent_of label \<subseteq> visible" by blast
    with True show ?thesis by (auto simp: Let_def)
  next
    case False
    let ?L = "case parent_label_of parent_of label of None \<Rightarrow> {} | Some l \<Rightarrow> lineage parent_of l"
    have "\<forall>a \<in> insert label seen. \<forall>b. up parent_of a b \<longrightarrow> b \<in> insert label seen \<or> parent_label_of parent_of label = Some b"
      using 2(2) by (auto simp: up_def)
    from 2(1) [OF False this] 2(3) have
      "walk_loop parent_of (parent_label_of parent_of label) (insert label seen) (insert label visible) (grew \<or> label \<notin> visible)
        = (insert label visible \<union> ?L, (grew \<or> label \<notin> visible) \<or> \<not> ?L \<subseteq> insert label visible)" by (auto simp: Let_def)
    with False show ?thesis by (auto simp: Let_def lineage_step [of parent_of label])
  qed
qed simp

lemma walk_ancestors_lineage:
  "walk_ancestors parent_of l V = (V \<union> lineage parent_of l, \<not> lineage parent_of l \<subseteq> V)"
  using walk_loop_lineage [of "{}" parent_of "Some l" V False] by (simp add: walk_ancestors_def Let_def del: walk_loop.simps)

section \<open>Descendants\<close>

definition down :: "childrens \<Rightarrow> str \<Rightarrow> str \<Rightarrow> bool" where
  "down children_of a b \<longleftrightarrow> (\<exists>cs. map_of children_of a = Some cs \<and> b \<in> set cs)"

lemma push_children_result:
  "push_children cs stack V = (stack', V') \<Longrightarrow>
     V' = V \<union> set cs \<and> set stack' = set stack \<union> (set cs - V)"
  by (induction cs stack V rule: push_children.induct) (auto split: if_splits)

lemma descend_loop_sound:
  "x \<in> descend_loop children_of stack V \<Longrightarrow> x \<in> V \<or> (\<exists>s \<in> set stack. (down children_of)\<^sup>+\<^sup>+ s x)"
proof (induction children_of stack V rule: descend_loop.induct)
  case (2 children_of label stack V)
  show ?case
  proof (cases "map_of children_of label")
    case (Some cs)
    obtain stack' V' where p: "push_children cs stack V = (stack', V')" by fastforce
    with 2(2) [OF Some p [symmetric]] 2(3) Some have "x \<in> V' \<or> (\<exists>s \<in> set stack'. (down children_of)\<^sup>+\<^sup>+ s x)" by simp
    moreover have "down children_of label c" if "c \<in> set cs" for c using Some that by (simp add: down_def)
    ultimately show ?thesis using push_children_result [OF p] by (auto intro: tranclp_into_tranclp2)
  qed (use 2 in auto)
qed simp

lemma descend_loop_complete:
  "V \<subseteq> descend_loop children_of stack V
     \<and> (\<forall>s \<in> set stack \<union> (descend_loop children_of stack V - V). \<forall>x. down children_of s x \<longrightarrow> x \<in> descend_loop children_of stack V)
     \<and> (\<forall>x \<in> descend_loop children_of stack V - V. \<exists>y \<in> set stack \<union> descend_loop children_of stack V. down children_of y x)"
proof (induction children_of stack V rule: descend_loop.induct)
  case (2 children_of label stack V)
  show ?case
  proof (cases "map_of children_of label")
    case None
    with 2(1) show ?thesis by (auto simp: down_def)
  next
    case (Some cs)
    obtain stack' V' where p: "push_children cs stack V = (stack', V')" by fastforce
    define R where "R = descend_loop children_of stack' V'"
    have R: "descend_loop children_of (label # stack) V = R" using Some p by (simp add: R_def)
    have V': "V' = V \<union> set cs" "set stack' = set stack \<union> (set cs - V)" using push_children_result [OF p] by auto
    have ih: "V' \<subseteq> R" "\<forall>s \<in> set stack' \<union> (R - V'). \<forall>x. down children_of s x \<longrightarrow> x \<in> R"
      "\<forall>x \<in> R - V'. \<exists>y \<in> set stack' \<union> R. down children_of y x"
      using 2(2) [OF Some p [symmetric]] by (simp_all add: R_def)
    have label: "down children_of label x \<longleftrightarrow> x \<in> set cs" for x using Some by (simp add: down_def)
    show ?thesis
      unfolding R
    proof (intro conjI ballI allI impI)
      show "V \<subseteq> R" using ih(1) V'(1) by blast
    next
      fix s x
      assume s: "s \<in> set (label # stack) \<union> (R - V)" and d: "down children_of s x"
      show "x \<in> R"
      proof (cases "s = label")
        case True
        with d label ih(1) V'(1) show ?thesis by blast
      next
        case False
        with s V' have "s \<in> set stack' \<union> (R - V')" by auto
        with ih(2) d show ?thesis by blast
      qed
    next
      fix x
      assume x: "x \<in> R - V"
      show "\<exists>y \<in> set (label # stack) \<union> R. down children_of y x"
      proof (cases "x \<in> V'")
        case True
        with x V'(1) label show ?thesis by auto
      next
        case False
        with x ih(3) obtain y where "y \<in> set stack' \<union> R" "down children_of y x" by blast
        with V' ih(1) show ?thesis by auto
      qed
    qed
  qed
qed simp

lemma add_descendants_exact:
  assumes "\<And>x. (down children_of)\<^sup>+\<^sup>+ s x \<Longrightarrow> x \<notin> V"
  shows "add_descendants children_of s V = V \<union> {x. (down children_of)\<^sup>+\<^sup>+ s x}"
proof -
  note c = descend_loop_complete [of V children_of "[s]"]
  have "x \<in> add_descendants children_of s V" if "(down children_of)\<^sup>+\<^sup>+ s x" for x
    using that
  proof (induction rule: tranclp_induct)
    case (base y)
    with c show ?case by (auto simp: add_descendants_def)
  next
    case (step y z)
    with c assms [of y] show ?case unfolding add_descendants_def by blast
  qed
  with c descend_loop_sound [of _ children_of "[s]" V] show ?thesis by (auto simp: add_descendants_def)
qed

section \<open>Links\<close>

inductive bridged :: "parents \<Rightarrow> (str \<times> str) list \<Rightarrow> str set \<Rightarrow> str \<Rightarrow> bool" for parent_of links V where
  start: "l \<in> V \<Longrightarrow> bridged parent_of links V l"
| across: "bridged parent_of links V a \<Longrightarrow> (a, b) \<in> set links \<or> (b, a) \<in> set links \<Longrightarrow> l \<in> lineage parent_of b \<Longrightarrow>
    bridged parent_of links V l"

lemma bridged_least:
  assumes "bridged parent_of links V l" "V \<subseteq> W" "up_closed parent_of W" "\<forall>(a, b) \<in> set links. a \<in> W \<longleftrightarrow> b \<in> W"
  shows "l \<in> W"
  using assms(1)
proof induction
  case (across a b l)
  then have "b \<in> W" using assms(4) by auto
  with across lineage_least [OF assms(3)] show ?case by blast
qed (use assms in auto)

lemma link_pass_bridged:
  "link_pass parent_of links V g = (V', g') \<Longrightarrow> set links \<subseteq> set all \<Longrightarrow> V \<subseteq> Collect (bridged parent_of all W) \<Longrightarrow>
     V' \<subseteq> Collect (bridged parent_of all W)"
proof (induction parent_of links V g rule: link_pass.induct)
  case (2 parent_of a b links V g)
  show ?case
  proof (cases "(a \<in> V) = (b \<in> V)")
    case False
    let ?start = "if a \<in> V then b else a"
    have "lineage parent_of ?start \<subseteq> Collect (bridged parent_of all W)"
      using False 2(4,5) by (auto intro: bridged.across split: if_splits)
    with 2(2) [OF False walk_ancestors_lineage [symmetric]] 2(3-5) False show ?thesis
      by (simp add: walk_ancestors_lineage)
  qed (use 2 in simp)
qed simp

lemma link_pass_closed: "link_pass parent_of links V g = (V', g') \<Longrightarrow> up_closed parent_of V \<Longrightarrow> up_closed parent_of V'"
proof (induction parent_of links V g rule: link_pass.induct)
  case (2 parent_of a b links V g)
  show ?case
  proof (cases "(a \<in> V) = (b \<in> V)")
    case False
    with 2(2) [OF False walk_ancestors_lineage [symmetric]] 2(3,4) show ?thesis
      by (simp add: walk_ancestors_lineage up_closed_Un lineage_closed)
  qed (use 2 in simp)
qed simp

lemma link_pass_still:
  "link_pass parent_of links V g = (V', g') \<Longrightarrow> \<not> g' \<Longrightarrow> \<not> g \<and> V' = V \<and> (\<forall>(a, b) \<in> set links. a \<in> V \<longleftrightarrow> b \<in> V)"
proof (induction parent_of links V g rule: link_pass.induct)
  case (2 parent_of a b links V g)
  show ?case
  proof (cases "(a \<in> V) = (b \<in> V)")
    case False
    have "\<not> lineage parent_of (if a \<in> V then b else a) \<subseteq> V"
      using False lineage_step [of parent_of "if a \<in> V then b else a"] by auto
    with 2(2) [OF False walk_ancestors_lineage [symmetric]] 2(3,4) False show ?thesis
      by (simp add: walk_ancestors_lineage)
  qed (use 2 in auto)
qed simp

lemma link_loop_bridged:
  assumes "up_closed parent_of V"
  shows "link_loop parent_of links V = Collect (bridged parent_of links V)" and "up_closed parent_of (link_loop parent_of links V)"
proof -
  have "up_closed parent_of U \<Longrightarrow> V \<subseteq> U \<Longrightarrow> U \<subseteq> Collect (bridged parent_of links V) \<Longrightarrow>
      link_loop parent_of links U = Collect (bridged parent_of links V) \<and> up_closed parent_of (link_loop parent_of links U)" for U
  proof (induction parent_of links U rule: link_loop.induct)
    case (1 parent_of links U)
    obtain U' g where p: "link_pass parent_of links U False = (U', g)" by fastforce
    have U': "up_closed parent_of U'" "V \<subseteq> U'" "U' \<subseteq> Collect (bridged parent_of links V)"
      using link_pass_closed [OF p 1(2)] link_pass_bounds [OF p] 1(3) link_pass_bridged [OF p _ 1(4)] by auto
    show ?case
    proof (cases g)
      case True
      then have eq: "link_loop parent_of links U = link_loop parent_of links U'" using p by (subst link_loop.simps) simp
      from 1(1) [OF p [symmetric] True U'] show ?thesis unfolding eq .
    next
      case False
      with link_pass_still [OF p] U' have "Collect (bridged parent_of links V) \<subseteq> U'"
        using bridged_least [of parent_of links V _ U'] by auto
      moreover have "link_loop parent_of links U = U'" using False p by (subst link_loop.simps) simp
      ultimately show ?thesis using U' by auto
    qed
  qed
  from this [OF assms subset_refl] show "link_loop parent_of links V = Collect (bridged parent_of links V)"
    "up_closed parent_of (link_loop parent_of links V)" by (auto intro: bridged.start)
qed

section \<open>Maps of a tree\<close>

definition agree :: "parents \<Rightarrow> childrens \<Rightarrow> bool" where
  "agree parent_of children_of \<longleftrightarrow> (\<forall>a b. down children_of a b \<longleftrightarrow> up parent_of b a)"

lemma down_push_child: "down (push_child p c children_of) a b \<longleftrightarrow> down children_of a b \<or> (a = p \<and> b = c)"
  by (cases "map_of children_of p") (auto simp: down_def push_child_def update_conv')

lemma node_maps_result:
  "node_maps nodes P C = (P', C') \<Longrightarrow> distinct (map fst nodes) \<Longrightarrow>
     map_of P' = map_of P ++ map_of nodes \<and> (\<forall>a b. down C' a b \<longleftrightarrow> down C a b \<or> (b, Some a) \<in> set nodes)"
proof (induction nodes P C rule: node_maps.induct)
  case (2 label parent nodes P C)
  from 2(1) 2(2,3)
  have ih: "map_of P' = (map_of P)(label \<mapsto> parent) ++ map_of nodes"
    "\<forall>a b. down C' a b \<longleftrightarrow> down (case parent of None \<Rightarrow> C | Some p \<Rightarrow> push_child p label C) a b \<or> (b, Some a) \<in> set nodes"
    by (simp_all add: update_conv' fun_upd_def)
  have "map_of nodes label = None" using 2(3) by (simp add: map_of_eq_None_iff)
  then have "map_of P' = map_of P ++ map_of ((label, parent) # nodes)"
    unfolding ih(1) by (auto simp: fun_eq_iff map_add_def split: option.splits)
  moreover have "\<forall>a b. down C' a b \<longleftrightarrow> down C a b \<or> (b, Some a) \<in> set ((label, parent) # nodes)"
    using ih(2) by (auto simp: down_push_child split: option.splits)
  ultimately show ?case by blast
qed simp

lemma node_maps_agree:
  assumes "node_maps nodes [] [] = (P, C)" "distinct (map fst nodes)"
  shows "map_of P = map_of nodes" and "agree P C" and "up P a b \<longleftrightarrow> (a, Some b) \<in> set nodes"
proof -
  have r: "map_of P = map_of nodes" "\<forall>a b. down C a b \<longleftrightarrow> (b, Some a) \<in> set nodes"
    using node_maps_result [OF assms] by (auto simp: down_def)
  then show "map_of P = map_of nodes" by simp
  have up: "up P a b \<longleftrightarrow> (a, Some b) \<in> set nodes" for a b
    unfolding map_of_eq_Some_iff [OF assms(2), symmetric]
    by (cases "map_of nodes a") (auto simp: up_def parent_label_of_def r(1))
  then show "up P a b \<longleftrightarrow> (a, Some b) \<in> set nodes" .
  show "agree P C" by (simp add: agree_def r(2) up)
qed

lemma seed_step_closed:
  fixes seed :: str
  assumes "agree parent_of children_of" "up_closed parent_of V"
  defines "W \<equiv> V \<union> lineage parent_of seed"
  shows "up_closed parent_of (add_descendants children_of seed W \<union> siblings_of parent_of children_of seed)"
proof -
  let ?R = "add_descendants children_of seed W"
  note c = descend_loop_complete [of W children_of "[seed]", folded add_descendants_def]
  have W: "up_closed parent_of W" "seed \<in> W"
    using up_closed_Un [OF assms(2) lineage_closed] by (auto simp: W_def)
  have R: "W \<subseteq> ?R" using c by blast
  have "b \<in> ?R" if "a \<in> ?R" "up parent_of a b" for a b
  proof (cases "a \<in> W")
    case True
    with that W(1) R show ?thesis by (auto simp: up_closed_def)
  next
    case False
    with that c obtain y where y: "y \<in> set [seed] \<union> ?R" "down children_of y a" by blast
    with assms(1) that(2) have "y = b" by (auto simp: agree_def up_def)
    with y R W(2) show ?thesis by auto
  qed
  moreover have "b \<in> ?R" if "a \<in> siblings_of parent_of children_of seed" "up parent_of a b" for a b
  proof -
    from that(1) obtain p where p: "up parent_of seed p" "down children_of p a"
      by (auto simp: siblings_of_def up_def down_def split: option.splits)
    with assms(1) that(2) have "p = b" by (auto simp: agree_def up_def)
    with p(1) W R show ?thesis by (auto simp: up_closed_def)
  qed
  ultimately show ?thesis by (auto simp: up_closed_def)
qed

lemma seed_loop_closed:
  "agree parent_of children_of \<Longrightarrow> up_closed parent_of V \<Longrightarrow> up_closed parent_of (seed_loop parent_of children_of seeds V)"
  by (induction parent_of children_of seeds V rule: seed_loop.induct)
    (auto simp: walk_ancestors_lineage seed_step_closed Let_def)

end
