(* ===== verification/Slices.thy ===== *)
theory Slices
  imports PublicTreeFacts
begin

text \<open>
  Validated trees and their slices: the checks of \<open>validate_public_tree\<close> are the definition of a
  tree with one root, what a person sees of it is its lineage, descendants, siblings and the
  bridges from there, and the slice cut for a fingerprint is a validated tree again.
\<close>

section \<open>What validation checks\<close>

definition parent_in :: "public_tree \<Rightarrow> str \<Rightarrow> str \<Rightarrow> bool" where
  "parent_in tree a b \<longleftrightarrow> (\<exists>n \<in> set (pt_nodes tree). pn_label n = a \<and> pn_parent_label n = Some b)"

definition labels_in :: "public_tree \<Rightarrow> str set" where
  "labels_in tree = pn_label ` set (pt_nodes tree)"

definition edge_key :: "public_edge \<Rightarrow> str \<times> str" where
  "edge_key e = (pe_from e, pe_to e)"

text \<open>A split without a key, or a leaf with a 32-byte key.\<close>

definition node_good :: "(str \<Rightarrow> bytes option) \<Rightarrow> public_node \<Rightarrow> bool" where
  "node_good hex_decode n \<longleftrightarrow> pn_label n \<noteq> [] \<and>
     ((\<exists>t. pn_threshold n = Some t \<and> 0 < t \<and> pn_encryption_fingerprint n = None \<and> pn_encryption_public_key n = None)
      \<or> (pn_threshold n = None \<and> pn_encryption_fingerprint n \<noteq> None
         \<and> (\<exists>pk raw. pn_encryption_public_key n = Some pk \<and> hex_decode pk = Some raw \<and> length raw = 32)))"

definition valid_tree :: "(str \<Rightarrow> bytes option) \<Rightarrow> public_tree \<Rightarrow> bool" where
  "valid_tree hex_decode tree \<longleftrightarrow>
     pt_label tree \<noteq> [] \<and> list_all (node_good hex_decode) (pt_nodes tree) \<and> distinct (map pn_label (pt_nodes tree))
     \<and> (\<exists>root. filter (\<lambda>n. pn_parent_label n = None) (pt_nodes tree) = [root]
          \<and> (\<forall>l \<in> labels_in tree. (parent_in tree)\<^sup>*\<^sup>* l (pn_label root)))
     \<and> (\<forall>a b. parent_in tree a b \<longrightarrow> b \<in> labels_in tree)
     \<and> (\<forall>e \<in> set (pt_whitelist tree @ pt_links tree). pe_from e \<noteq> pe_to e \<and> {pe_from e, pe_to e} \<subseteq> labels_in tree)
     \<and> distinct (map edge_key (pt_whitelist tree)) \<and> distinct (map edge_key (pt_links tree))
     \<and> (\<forall>e \<in> set (pt_links tree). edge_key e \<in> edge_key ` set (pt_whitelist tree)
          \<or> (pe_to e, pe_from e) \<in> edge_key ` set (pt_whitelist tree))"

lemma check_nodes_iff:
  "check_nodes hex_decode nodes labels roots = Ok (L, r) \<longleftrightarrow>
     list_all (node_good hex_decode) nodes \<and> distinct (map pn_label nodes) \<and> pn_label ` set nodes \<inter> labels = {}
     \<and> L = labels \<union> pn_label ` set nodes \<and> r = roots + length (filter (\<lambda>n. pn_parent_label n = None) nodes)"
proof (induction nodes arbitrary: labels roots)
  case (Cons n nodes)
  show ?case
  proof (cases "node_good hex_decode n \<and> pn_label n \<notin> labels")
    case True
    then have eq: "check_nodes hex_decode (n # nodes) labels roots = check_nodes hex_decode nodes (insert (pn_label n) labels)
        (if pn_parent_label n = None then Suc roots else roots)"
      by (auto simp: node_good_def Let_def)
    from True show ?thesis unfolding eq Cons.IH by auto
  next
    case False
    then have "\<nexists>x. check_nodes hex_decode (n # nodes) labels roots = Ok x"
      by (auto simp: node_good_def Let_def word_gt_0 split: option.splits)
    with False show ?thesis by auto
  qed
qed auto

lemma distinct_edges_iff:
  "distinct_edges edges seen \<longleftrightarrow> distinct (map edge_key edges) \<and> edge_key ` set edges \<inter> seen = {}"
  by (induction edges seen rule: distinct_edges.induct) (auto simp: edge_key_def)

lemma check_links_iff:
  "check_links whitelist links seen \<longleftrightarrow> distinct (map edge_key links) \<and> edge_key ` set links \<inter> seen = {}
     \<and> (\<forall>e \<in> set links. edge_key e \<in> edge_key ` set whitelist \<or> (pe_to e, pe_from e) \<in> edge_key ` set whitelist)"
proof (induction whitelist links seen rule: check_links.induct)
  case (2 whitelist e links seen)
  have "list_ex (\<lambda>a. (pe_from a = pe_from e \<and> pe_to a = pe_to e) \<or> (pe_from a = pe_to e \<and> pe_to a = pe_from e)) whitelist
      \<longleftrightarrow> edge_key e \<in> edge_key ` set whitelist \<or> (pe_to e, pe_from e) \<in> edge_key ` set whitelist"
    by (simp add: list_ex_iff edge_key_def image_iff) metis
  with 2 show ?case by (auto simp: edge_key_def)
qed simp

lemma reaches_loop_iff:
  "(\<forall>a \<in> seen. \<forall>b. up parent_of a b \<longrightarrow> b \<in> seen \<or> cur = Some b) \<Longrightarrow> root \<notin> seen \<Longrightarrow>
     reaches_loop parent_of cur root seen \<longleftrightarrow> (\<exists>l. cur = Some l \<and> root \<in> lineage parent_of l)"
proof (induction parent_of cur root seen rule: reaches_loop.induct)
  case (2 parent_of label root seen)
  show ?case
  proof (cases "label \<in> seen")
    case True
    then have "up_closed parent_of seen" using 2(2) by (auto simp: up_closed_def)
    from lineage_least [OF this True] 2(3) True show ?thesis by auto
  next
    case False
    show ?thesis
    proof (cases "label = root")
      case True
      with False show ?thesis by simp
    next
      case neq: False
      have "\<forall>a \<in> insert label seen. \<forall>b. up parent_of a b \<longrightarrow> b \<in> insert label seen \<or> parent_label_of parent_of label = Some b"
        using 2(2) by (auto simp: up_def)
      from 2(1) [OF False neq this] 2(3) neq False show ?thesis
        by (auto simp: lineage_step [of parent_of label] split: option.splits)
    qed
  qed
qed simp

lemma reaches_root_iff: "reaches_root parent_of l root \<longleftrightarrow> root \<in> lineage parent_of l"
  using reaches_loop_iff [of "{}" parent_of "Some l" root] by (simp add: reaches_root_def del: reaches_loop.simps)

lemma tree_maps:
  assumes "distinct (map pn_label (pt_nodes tree))"
    "node_maps (map (\<lambda>n. (pn_label n, pn_parent_label n)) (pt_nodes tree)) [] [] = (parent_of, children_of)"
  shows "up parent_of = parent_in tree" and "agree parent_of children_of" and "map_of parent_of l = None \<longleftrightarrow> l \<notin> labels_in tree"
    and "lineage parent_of a = {b. (parent_in tree)\<^sup>*\<^sup>* a b}"
proof -
  have d: "distinct (map fst (map (\<lambda>n. (pn_label n, pn_parent_label n)) (pt_nodes tree)))" using assms(1) by (simp add: comp_def)
  note m = node_maps_agree [OF assms(2) d]
  show up: "up parent_of = parent_in tree" using m(3) by (auto simp: fun_eq_iff parent_in_def)
  show "agree parent_of children_of" by (rule m(2))
  show "map_of parent_of l = None \<longleftrightarrow> l \<notin> labels_in tree"
    unfolding m(1) by (force simp: map_of_eq_None_iff labels_in_def)
  show "lineage parent_of a = {b. (parent_in tree)\<^sup>*\<^sup>* a b}" by (simp add: lineage_def up)
qed

lemma find_filter: "List.find p xs = (case filter p xs of [] \<Rightarrow> None | x # _ \<Rightarrow> Some x)"
  by (induction xs) auto

lemma length_one_conv: "length xs = Suc 0 \<longleftrightarrow> (\<exists>x. xs = [x])"
  by (cases xs) auto

lemma validate_iff_valid: "validate_public_tree hex_decode tree = Ok () \<longleftrightarrow> valid_tree hex_decode tree"
proof (cases "pt_label tree = [] \<or> \<not> list_all (node_good hex_decode) (pt_nodes tree) \<or> \<not> distinct (map pn_label (pt_nodes tree))
    \<or> (\<nexists>root. filter (\<lambda>n. pn_parent_label n = None) (pt_nodes tree) = [root])")
  case True
  then show ?thesis
    by (auto simp: validate_public_tree_def valid_tree_def res_simps check_nodes_iff length_one_conv split: if_splits prod.splits)
next
  case False
  then obtain root where root: "filter (\<lambda>n. pn_parent_label n = None) (pt_nodes tree) = [root]" by blast
  obtain parent_of children_of where
    m: "node_maps (map (\<lambda>n. (pn_label n, pn_parent_label n)) (pt_nodes tree)) [] [] = (parent_of, children_of)" by fastforce
  have "check_nodes hex_decode (pt_nodes tree) {} 0 = Ok (labels_in tree, 1)"
    using False root by (simp add: check_nodes_iff labels_in_def)
  moreover have "List.find (\<lambda>n. pn_parent_label n = None) (rev (pt_nodes tree)) = Some root"
    using root by (simp add: find_filter rev_filter [symmetric])
  moreover have "pt_nodes tree \<noteq> []" using root by auto
  moreover have "list_all (\<lambda>n. case pn_parent_label n of None \<Rightarrow> True | Some p \<Rightarrow> p \<in> labels_in tree) (pt_nodes tree)
      \<longleftrightarrow> (\<forall>a b. parent_in tree a b \<longrightarrow> b \<in> labels_in tree)"
    by (auto simp: list_all_iff parent_in_def split: option.splits)
  moreover have "list_all (\<lambda>n. reaches_root parent_of (pn_label n) (pn_label root)) (pt_nodes tree)
      \<longleftrightarrow> (\<forall>l \<in> labels_in tree. (parent_in tree)\<^sup>*\<^sup>* l (pn_label root))"
    using tree_maps(4) [OF _ m] False by (auto simp: list_all_iff reaches_root_iff labels_in_def)
  ultimately show ?thesis
    using False root m
    by (auto simp: validate_public_tree_def valid_tree_def distinct_edges_iff check_links_iff list_ex_iff)
qed

section \<open>What a person sees\<close>

lemma parent_in_fun: "valid_tree hex_decode tree \<Longrightarrow> parent_in tree a b \<Longrightarrow> parent_in tree a c \<Longrightarrow> b = c"
proof -
  assume "valid_tree hex_decode tree" "parent_in tree a b" "parent_in tree a c"
  then obtain m n where "m \<in> set (pt_nodes tree)" "n \<in> set (pt_nodes tree)" "pn_label m = pn_label n"
    "pn_parent_label m = Some b" "pn_parent_label n = Some c" "distinct (map pn_label (pt_nodes tree))"
    by (auto simp: parent_in_def valid_tree_def)
  moreover from this have "m = n" by (meson distinct_map inj_onD)
  ultimately show "b = c" by simp
qed

lemma valid_acyclic:
  assumes v: "valid_tree hex_decode tree" and "(parent_in tree)\<^sup>+\<^sup>+ l l"
  shows False
proof -
  have cycle: "(parent_in tree)\<^sup>*\<^sup>* l x \<Longrightarrow> (parent_in tree)\<^sup>+\<^sup>+ x x" for x
  proof (induction rule: rtranclp_induct)
    case (step x y)
    from step.IH obtain z where "parent_in tree x z" "(parent_in tree)\<^sup>*\<^sup>* z x" by (meson tranclpD)
    with parent_in_fun [OF v, of x y z] step.hyps(2) show ?case by (auto intro: rtranclp_into_tranclp1)
  qed (use assms in simp)
  from assms(2) have "l \<in> labels_in tree" by (auto simp: parent_in_def labels_in_def dest!: tranclpD)
  with v obtain root where r: "filter (\<lambda>n. pn_parent_label n = None) (pt_nodes tree) = [root]" "(parent_in tree)\<^sup>*\<^sup>* l (pn_label root)"
    by (auto simp: valid_tree_def)
  from cycle [OF r(2)] obtain p where "parent_in tree (pn_label root) p" by (meson tranclpD)
  then obtain n where n: "n \<in> set (pt_nodes tree)" "pn_label n = pn_label root" "pn_parent_label n = Some p"
    by (auto simp: parent_in_def)
  have "root \<in> set (filter (\<lambda>n. pn_parent_label n = None) (pt_nodes tree))" unfolding r(1) by simp
  then have "root \<in> set (pt_nodes tree)" "pn_parent_label root = None" by auto
  with n v have "n = root" by (meson distinct_map inj_onD valid_tree_def)
  with n \<open>pn_parent_label root = None\<close> show False by simp
qed

definition linked_in :: "public_tree \<Rightarrow> str \<Rightarrow> str \<Rightarrow> bool" where
  "linked_in tree a b \<longleftrightarrow> (a, b) \<in> edge_key ` set (pt_links tree) \<or> (b, a) \<in> edge_key ` set (pt_links tree)"

inductive sees :: "public_tree \<Rightarrow> str \<Rightarrow> str \<Rightarrow> bool" for tree seed where
  ancestor: "(parent_in tree)\<^sup>*\<^sup>* seed l \<Longrightarrow> sees tree seed l"
| descendant: "(parent_in tree)\<^sup>*\<^sup>* l seed \<Longrightarrow> sees tree seed l"
| sibling: "parent_in tree seed p \<Longrightarrow> parent_in tree l p \<Longrightarrow> sees tree seed l"
| bridge: "sees tree seed a \<Longrightarrow> linked_in tree a b \<Longrightarrow> (parent_in tree)\<^sup>*\<^sup>* b l \<Longrightarrow> sees tree seed l"

lemma seed_loop_single:
  assumes v: "valid_tree hex_decode tree" and seed: "seed \<in> labels_in tree"
    and m: "node_maps (map (\<lambda>n. (pn_label n, pn_parent_label n)) (pt_nodes tree)) [] [] = (parent_of, children_of)"
  shows "seed_loop parent_of children_of [seed] {}
    = {l. (parent_in tree)\<^sup>*\<^sup>* seed l \<or> (parent_in tree)\<^sup>*\<^sup>* l seed \<or> (\<exists>p. parent_in tree seed p \<and> parent_in tree l p)}"
proof -
  have d: "distinct (map pn_label (pt_nodes tree))" using v by (simp add: valid_tree_def)
  note t = tree_maps [OF d m]
  have down: "down children_of = (parent_in tree)\<inverse>\<inverse>" using t(1,2) by (auto simp: agree_def fun_eq_iff)
  have "add_descendants children_of seed (lineage parent_of seed) = lineage parent_of seed \<union> {x. (down children_of)\<^sup>+\<^sup>+ seed x}"
  proof (rule add_descendants_exact)
    fix x
    assume "(down children_of)\<^sup>+\<^sup>+ seed x"
    then have "(parent_in tree)\<^sup>+\<^sup>+ x seed" by (simp add: down tranclp_converse)
    then show "x \<notin> lineage parent_of seed"
      using valid_acyclic [OF v] by (auto simp: t(4) intro: tranclp_rtranclp_tranclp)
  qed
  moreover have "siblings_of parent_of children_of seed = {l. \<exists>p. parent_in tree seed p \<and> parent_in tree l p}"
  proof -
    have "x \<in> siblings_of parent_of children_of seed \<longleftrightarrow> (\<exists>p. up parent_of seed p \<and> down children_of p x)" for x
      by (auto simp: siblings_of_def up_def down_def split: option.splits)
    then show ?thesis by (auto simp: down t(1))
  qed
  moreover have "(parent_in tree)\<^sup>*\<^sup>* l seed \<longleftrightarrow> l = seed \<or> (parent_in tree)\<^sup>+\<^sup>+ l seed" for l by (auto dest: rtranclpD tranclp_into_rtranclp)
  ultimately show ?thesis using seed t(3) [of seed]
    by (auto simp: walk_ancestors_lineage t(4) down tranclp_converse)
qed

lemma visible_exact:
  assumes v: "valid_tree hex_decode tree" and seed: "seed \<in> labels_in tree"
  shows "visible_labels_in_public_tree tree [seed] = Collect (sees tree seed)"
proof -
  obtain parent_of children_of where
    m: "node_maps (map (\<lambda>n. (pn_label n, pn_parent_label n)) (pt_nodes tree)) [] [] = (parent_of, children_of)" by fastforce
  have d: "distinct (map pn_label (pt_nodes tree))" using v by (simp add: valid_tree_def)
  note t = tree_maps [OF d m]
  let ?links = "map (\<lambda>e. (pe_from e, pe_to e)) (pt_links tree)"
  let ?V = "seed_loop parent_of children_of [seed] {}"
  have link: "(a, b) \<in> set ?links \<or> (b, a) \<in> set ?links \<longleftrightarrow> linked_in tree a b" for a b
    by (auto simp: linked_in_def edge_key_def)
  have closed: "up_closed parent_of ?V" by (rule seed_loop_closed [OF t(2)]) (simp add: up_closed_def)
  have "bridged parent_of ?links ?V l \<longleftrightarrow> sees tree seed l" for l
  proof
    assume "bridged parent_of ?links ?V l"
    then show "sees tree seed l"
    proof induction
      case (start l)
      then show ?case unfolding seed_loop_single [OF v seed m] by (auto intro: sees.intros)
    next
      case (across a b l)
      from across(3) have "(parent_in tree)\<^sup>*\<^sup>* b l" by (simp add: t(4))
      with across(2) sees.bridge [OF across.IH] link show ?case by blast
    qed
  next
    assume "sees tree seed l"
    then show "bridged parent_of ?links ?V l"
    proof induction
      case (bridge a b l)
      from bridge(3) have "l \<in> lineage parent_of b" by (simp add: t(4))
      with bridge link show ?case by (meson bridged.across)
    qed (auto simp only: seed_loop_single [OF v seed m] intro!: bridged.start)
  qed
  then have "bridged parent_of ?links ?V = sees tree seed" by (intro ext)
  with link_loop_bridged(1) [OF closed] m show ?thesis
    by (simp add: visible_labels_in_public_tree_def visible_from_maps_def del: seed_loop.simps)
qed

section \<open>Slices\<close>

lemma seed_loop_seeds: "V \<subseteq> seed_loop parent_of children_of seeds V
    \<and> (\<forall>s \<in> set seeds. map_of parent_of s \<noteq> None \<longrightarrow> s \<in> seed_loop parent_of children_of seeds V)"
proof (induction seeds arbitrary: V)
  case (Cons seed seeds)
  let ?W = "V \<union> lineage parent_of seed"
  let ?N = "add_descendants children_of seed ?W \<union> siblings_of parent_of children_of seed"
  have "?W \<subseteq> ?N" using descend_loop_complete [of ?W children_of "[seed]"] by (auto simp: add_descendants_def)
  then have "V \<subseteq> ?N" and seed: "seed \<in> ?N" using lineage_self [of seed parent_of] by blast+
  with Cons.IH [of ?N] Cons.IH [of V] show ?case
    by (cases "map_of parent_of seed") (auto simp: walk_ancestors_lineage Let_def simp del: Un_subset_iff)
qed simp

text \<open>The visible labels contain the seeds and the parents of all of them.\<close>

lemma visible_closed:
  assumes "valid_tree hex_decode tree" "set seeds \<subseteq> labels_in tree"
  shows "set seeds \<subseteq> visible_labels_in_public_tree tree seeds"
    and "a \<in> visible_labels_in_public_tree tree seeds \<Longrightarrow> parent_in tree a b \<Longrightarrow> b \<in> visible_labels_in_public_tree tree seeds"
proof -
  obtain parent_of children_of where
    m: "node_maps (map (\<lambda>n. (pn_label n, pn_parent_label n)) (pt_nodes tree)) [] [] = (parent_of, children_of)" by fastforce
  have d: "distinct (map pn_label (pt_nodes tree))" using assms by (simp add: valid_tree_def)
  note t = tree_maps [OF d m]
  have closed: "up_closed parent_of (seed_loop parent_of children_of seeds {})"
    by (rule seed_loop_closed [OF t(2)]) (simp add: up_closed_def)
  have eq: "visible_labels_in_public_tree tree seeds
      = link_loop parent_of (map (\<lambda>e. (pe_from e, pe_to e)) (pt_links tree)) (seed_loop parent_of children_of seeds {})"
    using m by (simp add: visible_labels_in_public_tree_def visible_from_maps_def)
  show "set seeds \<subseteq> visible_labels_in_public_tree tree seeds"
    unfolding eq link_loop_bridged(1) [OF closed]
    using seed_loop_seeds [of "{}" parent_of children_of seeds] assms(2) t(3) by (auto intro!: bridged.start)
  show "a \<in> visible_labels_in_public_tree tree seeds \<Longrightarrow> parent_in tree a b \<Longrightarrow> b \<in> visible_labels_in_public_tree tree seeds"
    using link_loop_bridged(2) [OF closed] unfolding eq by (auto simp: up_closed_def t(1))
qed

lemma valid_slice:
  assumes v: "valid_tree hex_decode tree" and "V \<inter> labels_in tree \<noteq> {}"
    and closed: "\<And>a b. a \<in> V \<Longrightarrow> parent_in tree a b \<Longrightarrow> b \<in> V"
  shows "valid_tree hex_decode (filter_public_tree tree V)"
proof -
  let ?s = "filter_public_tree tree V"
  from v obtain root where r: "filter (\<lambda>n. pn_parent_label n = None) (pt_nodes tree) = [root]"
    and reach: "\<forall>l \<in> labels_in tree. (parent_in tree)\<^sup>*\<^sup>* l (pn_label root)" by (auto simp: valid_tree_def)
  have labels: "labels_in ?s = labels_in tree \<inter> V" by (auto simp: labels_in_def filter_public_tree_def)
  have parent: "parent_in ?s a b \<longleftrightarrow> a \<in> V \<and> parent_in tree a b" for a b
    by (auto simp: parent_in_def filter_public_tree_def)
  have stay: "b \<in> V \<and> (parent_in ?s)\<^sup>*\<^sup>* a b" if "(parent_in tree)\<^sup>*\<^sup>* a b" "a \<in> V" for a b
    using that by (induction rule: rtranclp_induct) (auto simp: parent intro: closed rtranclp.rtrancl_into_rtrancl)
  from assms(2) obtain l where "l \<in> V" "l \<in> labels_in tree" by blast
  with reach stay have rootV: "pn_label root \<in> V" by blast
  have "filter (\<lambda>n. pn_parent_label n = None) (pt_nodes ?s) = filter (\<lambda>n. pn_label n \<in> V) (filter (\<lambda>n. pn_parent_label n = None) (pt_nodes tree))"
    by (simp add: filter_public_tree_def conj_commute)
  then have root: "filter (\<lambda>n. pn_parent_label n = None) (pt_nodes ?s) = [root]" using rootV by (simp add: r)
  have "\<forall>l \<in> labels_in ?s. (parent_in ?s)\<^sup>*\<^sup>* l (pn_label root)" using reach stay by (auto simp: labels)
  moreover have "\<forall>a b. parent_in ?s a b \<longrightarrow> b \<in> labels_in ?s" using v closed by (auto simp: parent labels valid_tree_def)
  moreover have "\<forall>e \<in> set (pt_whitelist ?s @ pt_links ?s). pe_from e \<noteq> pe_to e \<and> {pe_from e, pe_to e} \<subseteq> labels_in ?s"
    using v unfolding labels by (auto simp: valid_tree_def filter_public_tree_def)
  moreover have "\<forall>e \<in> set (pt_links ?s). edge_key e \<in> edge_key ` set (pt_whitelist ?s) \<or> (pe_to e, pe_from e) \<in> edge_key ` set (pt_whitelist ?s)"
    using v by (fastforce simp: valid_tree_def filter_public_tree_def edge_key_def image_iff)
  moreover have "pt_label ?s \<noteq> []" "list_all (node_good hex_decode) (pt_nodes ?s)" "distinct (map pn_label (pt_nodes ?s))"
    "distinct (map edge_key (pt_whitelist ?s))" "distinct (map edge_key (pt_links ?s))"
    using v by (auto simp: valid_tree_def filter_public_tree_def list_all_iff distinct_map inj_on_def)
  ultimately show ?thesis using root by (auto simp: valid_tree_def)
qed

end
