(* ===== verification/OrgTrees.thy ===== *)
theory OrgTrees
  imports Slices
begin

text \<open>
  The relay's store of published trees, \<open>src/relay/org_tree.rs\<close>: one document per label, replaced
  or merged by uploads and sliced for readers. A document is JSON text; the \<open>serde_json\<close> functions
  are parameters.
\<close>

section \<open>Documents\<close>

record tree_json =
  to_json :: "public_tree \<Rightarrow> str option"
  from_json :: "str \<Rightarrow> public_tree option"

text \<open>A tree that is written reads back as itself.\<close>

definition json_law :: "tree_json \<Rightarrow> bool" where
  "json_law J \<longleftrightarrow> (\<forall>t d. to_json J t = Some d \<longrightarrow> from_json J d = Some t)"

record doc_row =
  doc_label :: str
  doc_generation :: int
  doc_document :: str

type_synonym docs = "doc_row list"

definition parse_document :: "tree_json \<Rightarrow> str \<Rightarrow> public_tree result" where
  "parse_document J document = ok_or InvalidTreeSpec (from_json J document)"

definition get_public_tree :: "tree_json \<Rightarrow> str \<Rightarrow> docs \<Rightarrow> public_tree result" where
  "get_public_tree J label docs =
     and_then (ok_or TreeNotFound (List.find (\<lambda>d. doc_label d = label) docs)) (\<lambda>d. parse_document J (doc_document d))"

definition I64_MAX :: int where "I64_MAX = 2 ^ 63 - 1"

text \<open>\<open>u32::try_from(generation).unwrap_or(u32::MAX)\<close>\<close>

definition clip_generation :: "int \<Rightarrow> 32 word" where
  "clip_generation g = (if 0 \<le> g \<and> g < 2 ^ 32 then word_of_int g else - 1)"

definition upsert_doc :: "doc_row \<Rightarrow> docs \<Rightarrow> docs" where
  "upsert_doc row docs =
     (if list_ex (\<lambda>d. doc_label d = doc_label row) docs
      then map (\<lambda>d. if doc_label d = doc_label row then row else d) docs
      else docs @ [row])"

definition persist_public_tree :: "tree_json \<Rightarrow> public_tree \<Rightarrow> (docs, public_tree) op" where
  "persist_public_tree J snapshot docs =
     (let generation = (case List.find (\<lambda>d. doc_label d = pt_label snapshot) docs of
                          None \<Rightarrow> 1 | Some d \<Rightarrow> min I64_MAX (doc_generation d + 1));
          stored = snapshot\<lparr>pt_generation := clip_generation generation\<rparr> in
      case to_json J stored of
        None \<Rightarrow> (Err InvalidTreeSpec, docs)
      | Some document \<Rightarrow>
          (Ok stored, upsert_doc \<lparr>doc_label = pt_label stored, doc_generation = generation, doc_document = document\<rparr> docs))"

definition put_public_tree :: "(str \<Rightarrow> bytes option) \<Rightarrow> tree_json \<Rightarrow> public_tree \<Rightarrow> (docs, public_tree) op" where
  "put_public_tree hex_decode J snapshot =
     bind_op (lift (\<lambda>_. validate_public_tree hex_decode snapshot)) (\<lambda>_. persist_public_tree J snapshot)"

text \<open>The edges of an existing document that a merge keeps, after the incoming ones.\<close>

fun keep_edges :: "str set \<Rightarrow> public_edge list \<Rightarrow> public_edge list \<Rightarrow> public_edge list" where
  "keep_edges incoming_labels [] kept = kept"
| "keep_edges incoming_labels (e # edges) kept =
     (if pe_from e \<in> incoming_labels \<and> pe_to e \<in> incoming_labels then keep_edges incoming_labels edges kept
      else if list_ex (\<lambda>k. pe_from k = pe_from e \<and> pe_to k = pe_to e) kept then keep_edges incoming_labels edges kept
      else keep_edges incoming_labels edges (kept @ [e]))"

definition merge_into_existing :: "(str \<Rightarrow> bytes option) \<Rightarrow> public_tree \<Rightarrow> public_tree \<Rightarrow> public_tree result" where
  "merge_into_existing hex_decode existing_tree incoming_tree =
     (let incoming_labels = pn_label ` set (pt_nodes incoming_tree);
          merged = \<lparr>pt_label = pt_label incoming_tree, pt_generation = pt_generation existing_tree,
            pt_nodes = pt_nodes incoming_tree @ filter (\<lambda>n. pn_label n \<notin> incoming_labels) (pt_nodes existing_tree),
            pt_whitelist = keep_edges incoming_labels (pt_whitelist existing_tree) (pt_whitelist incoming_tree),
            pt_links = keep_edges incoming_labels (pt_links existing_tree) (pt_links incoming_tree)\<rparr> in
      and_then (validate_public_tree hex_decode merged) (\<lambda>_. Ok merged))"

definition merge_public_tree :: "(str \<Rightarrow> bytes option) \<Rightarrow> tree_json \<Rightarrow> public_tree \<Rightarrow> (docs, public_tree) op" where
  "merge_public_tree hex_decode J snapshot =
     bind_op (lift (\<lambda>_. validate_public_tree hex_decode snapshot)) (\<lambda>_.
     bind_op (lift (\<lambda>docs. case get_public_tree J (pt_label snapshot) docs of
         Inr existing_tree \<Rightarrow> merge_into_existing hex_decode existing_tree snapshot
       | Inl e \<Rightarrow> if e = TreeNotFound then Ok snapshot else Err e)) (\<lambda>merged.
     persist_public_tree J merged))"

definition list_public_trees :: "tree_json \<Rightarrow> docs \<Rightarrow> public_tree list result" where
  "list_public_trees J docs = mapM (\<lambda>d. parse_document J (doc_document d)) (sort_key doc_label docs)"

definition slices_for_fingerprint :: "tree_json \<Rightarrow> str \<Rightarrow> docs \<Rightarrow> public_tree list result" where
  "slices_for_fingerprint J fp docs =
     and_then (list_public_trees J docs) (\<lambda>trees. Ok (List.map_filter (\<lambda>full. slice_for_fingerprint full fp) trees))"

definition context_for_fingerprint :: "tree_json \<Rightarrow> str \<Rightarrow> str \<Rightarrow> docs \<Rightarrow> public_tree result" where
  "context_for_fingerprint J label fp docs =
     and_then (get_public_tree J label docs) (\<lambda>full. ok_or NodeNotFound (slice_for_fingerprint full fp))"

definition contexts_for_fingerprint :: "tree_json \<Rightarrow> str \<Rightarrow> docs \<Rightarrow> public_tree list result" where
  "contexts_for_fingerprint J fp docs = slices_for_fingerprint J fp docs"

section \<open>Documents stay valid\<close>

text \<open>One document per label, each a validated tree under its own label and generation.\<close>

definition docs_ok :: "(str \<Rightarrow> bytes option) \<Rightarrow> tree_json \<Rightarrow> docs \<Rightarrow> bool" where
  "docs_ok hex_decode J docs \<longleftrightarrow> distinct (map doc_label docs)
     \<and> (\<forall>d \<in> set docs. 0 < doc_generation d \<and> (\<exists>t. from_json J (doc_document d) = Some t \<and> valid_tree hex_decode t
          \<and> pt_label t = doc_label d \<and> pt_generation t = clip_generation (doc_generation d)))"

text \<open>What an upload may do to the documents.\<close>

definition upload :: "(str \<Rightarrow> bytes option) \<Rightarrow> tree_json \<Rightarrow> docs \<Rightarrow> docs \<Rightarrow> bool" where
  "upload hex_decode J docs docs' \<longleftrightarrow>
     (\<exists>t. docs' = snd (put_public_tree hex_decode J t docs) \<or> docs' = snd (merge_public_tree hex_decode J t docs))"

lemma valid_tree_generation [simp]: "valid_tree hex_decode (t\<lparr>pt_generation := g\<rparr>) = valid_tree hex_decode t"
  by (simp add: valid_tree_def parent_in_def [abs_def] labels_in_def)

lemma upsert_doc_labels:
  "distinct (map doc_label docs) \<Longrightarrow> distinct (map doc_label (upsert_doc row docs))"
proof -
  have "map doc_label (map (\<lambda>d. if doc_label d = doc_label row then row else d) docs) = map doc_label docs" by auto
  then show "distinct (map doc_label docs) \<Longrightarrow> distinct (map doc_label (upsert_doc row docs))"
    by (cases "list_ex (\<lambda>d. doc_label d = doc_label row) docs") (simp_all only: upsert_doc_def if_True if_False, auto simp: list_ex_iff)
qed

lemma upsert_doc_find:
  "List.find (\<lambda>d. doc_label d = l) (upsert_doc row docs)
     = (if l = doc_label row then Some row else List.find (\<lambda>d. doc_label d = l) docs)"
proof -
  have 1: "list_ex (\<lambda>d. doc_label d = doc_label row) docs \<Longrightarrow>
      List.find (\<lambda>d. doc_label d = doc_label row) (map (\<lambda>d. if doc_label d = doc_label row then row else d) docs) = Some row" for docs :: docs
    by (induction docs) auto
  have 2: "l \<noteq> doc_label row \<Longrightarrow> List.find (\<lambda>d. doc_label d = l) (map (\<lambda>d. if doc_label d = doc_label row then row else d) docs)
      = List.find (\<lambda>d. doc_label d = l) docs" for docs :: docs
    by (induction docs) auto
  have 3: "List.find p (docs @ [row]) = (case List.find p docs of None \<Rightarrow> if p row then Some row else None | Some d \<Rightarrow> Some d)"
    for p and docs :: docs
    by (induction docs) auto
  have 4: "\<not> list_ex p docs \<Longrightarrow> List.find p docs = None" for p and docs :: docs
    by (auto simp: find_None_iff list_ex_iff)
  show ?thesis
    by (cases "list_ex (\<lambda>d. doc_label d = doc_label row) docs") (auto simp: upsert_doc_def 1 2 3 4 split: option.splits)
qed

lemma upsert_doc_set: "set (upsert_doc row docs) \<subseteq> insert row (set docs)"
  by (auto simp: upsert_doc_def)

lemma persist_result:
  assumes "json_law J" "docs_ok hex_decode J docs" "valid_tree hex_decode t" "persist_public_tree J t docs = (Ok s, docs')"
  defines "g \<equiv> case List.find (\<lambda>d. doc_label d = pt_label t) docs of None \<Rightarrow> 1 | Some d \<Rightarrow> min I64_MAX (doc_generation d + 1)"
  shows "s = t\<lparr>pt_generation := clip_generation g\<rparr>" and "docs_ok hex_decode J docs'"
    and "get_public_tree J (pt_label t) docs' = Ok s"
    and "l \<noteq> pt_label t \<Longrightarrow> get_public_tree J l docs' = get_public_tree J l docs"
proof -
  let ?t = "t\<lparr>pt_generation := clip_generation g\<rparr>"
  from assms(4) obtain doc where doc: "to_json J ?t = Some doc" and s: "s = ?t"
    and docs': "docs' = upsert_doc \<lparr>doc_label = pt_label t, doc_generation = g, doc_document = doc\<rparr> docs"
    by (auto simp: persist_public_tree_def Let_def g_def split: option.splits)
  define row where "row = \<lparr>doc_label = pt_label t, doc_generation = g, doc_document = doc\<rparr>"
  have json: "from_json J doc = Some ?t" using assms(1) doc by (simp add: json_law_def)
  have "0 < g"
  proof (cases "List.find (\<lambda>d. doc_label d = pt_label t) docs")
    case (Some d)
    then have "d \<in> set docs" by (auto simp: find_Some_iff)
    with assms(2) Some show ?thesis by (auto simp: g_def docs_ok_def I64_MAX_def)
  qed (simp add: g_def)
  with assms(2,3) json upsert_doc_labels [of docs row] upsert_doc_set [of row docs] show "docs_ok hex_decode J docs'"
    by (auto simp: docs_ok_def row_def docs')
  show "s = ?t" by (rule s)
  show "get_public_tree J (pt_label t) docs' = Ok s"
    using json by (simp add: s get_public_tree_def upsert_doc_find docs' parse_document_def)
  show "l \<noteq> pt_label t \<Longrightarrow> get_public_tree J l docs' = get_public_tree J l docs"
    by (simp add: get_public_tree_def upsert_doc_find docs')
qed

lemma persist_docs_ok:
  assumes "json_law J" "docs_ok hex_decode J docs" "valid_tree hex_decode t"
  shows "docs_ok hex_decode J (snd (persist_public_tree J t docs))"
proof (cases "to_json J (t\<lparr>pt_generation := clip_generation
    (case List.find (\<lambda>d. doc_label d = pt_label t) docs of None \<Rightarrow> 1 | Some d \<Rightarrow> min I64_MAX (doc_generation d + 1))\<rparr>)")
  case None
  then show ?thesis using assms by (simp add: persist_public_tree_def)
next
  case (Some d)
  then obtain s docs' where "persist_public_tree J t docs = (Ok s, docs')" by (simp add: persist_public_tree_def Let_def)
  with persist_result(2) [OF assms this] show ?thesis by simp
qed

lemma get_public_tree_valid:
  assumes "docs_ok hex_decode J docs" "get_public_tree J label docs = Ok t"
  shows "valid_tree hex_decode t \<and> pt_label t = label"
proof -
  from assms(2) obtain d where d: "List.find (\<lambda>d. doc_label d = label) docs = Some d" "from_json J (doc_document d) = Some t"
    by (auto simp: get_public_tree_def parse_document_def res_simps)
  then have "d \<in> set docs" "doc_label d = label" by (auto simp: find_Some_iff)
  with assms(1) d show ?thesis by (auto simp: docs_ok_def)
qed

lemma put_docs_ok:
  assumes "json_law J" "docs_ok hex_decode J docs"
  shows "docs_ok hex_decode J (snd (put_public_tree hex_decode J t docs))"
proof (cases "validate_public_tree hex_decode t")
  case (Inr u)
  then have "valid_tree hex_decode t" using validate_iff_valid [of hex_decode t] by simp
  from persist_docs_ok [OF assms this] Inr show ?thesis by (simp add: put_public_tree_def)
qed (use assms in \<open>simp add: put_public_tree_def\<close>)

lemma merge_into_existing_valid: "merge_into_existing hex_decode old t = Ok m \<Longrightarrow> valid_tree hex_decode m \<and> pt_label m = pt_label t"
  by (auto simp: merge_into_existing_def Let_def res_simps validate_iff_valid)

lemma merge_docs_ok:
  assumes "json_law J" "docs_ok hex_decode J docs"
  shows "docs_ok hex_decode J (snd (merge_public_tree hex_decode J t docs))"
proof (cases "validate_public_tree hex_decode t")
  case (Inr u)
  then have t: "valid_tree hex_decode t" using validate_iff_valid [of hex_decode t] by simp
  let ?m = "case get_public_tree J (pt_label t) docs of
         Inr existing_tree \<Rightarrow> merge_into_existing hex_decode existing_tree t
       | Inl e \<Rightarrow> if e = TreeNotFound then Ok t else Err e"
  show ?thesis
  proof (cases ?m)
    case (Inr m)
    then have "valid_tree hex_decode m"
      using t merge_into_existing_valid by (auto split: sum.splits if_splits)
    from persist_docs_ok [OF assms this] Inr \<open>validate_public_tree hex_decode t = _\<close> show ?thesis by (simp add: merge_public_tree_def)
  qed (use assms Inr in \<open>simp add: merge_public_tree_def\<close>)
qed (use assms in \<open>simp add: merge_public_tree_def\<close>)

lemma uploads_ok:
  assumes "json_law J" "(upload hex_decode J)\<^sup>*\<^sup>* [] docs"
  shows "docs_ok hex_decode J docs"
  using assms(2)
proof (induction rule: rtranclp_induct)
  case (step docs docs')
  with put_docs_ok [OF assms(1)] merge_docs_ok [OF assms(1)] show ?case by (auto simp: upload_def)
qed (simp add: docs_ok_def)

lemma slice_valid:
  assumes "valid_tree hex_decode full" "slice_for_fingerprint full fp = Some s"
  shows "valid_tree hex_decode s"
proof -
  let ?seeds = "map pn_label (filter (\<lambda>n. pn_encryption_fingerprint n = Some fp) (pt_nodes full))"
  from assms(2) have s: "?seeds \<noteq> []" "s = filter_public_tree full (visible_labels_in_public_tree full ?seeds)"
    by (auto simp: slice_for_fingerprint_def Let_def split: if_splits)
  have "set ?seeds \<subseteq> labels_in full" by (auto simp: labels_in_def)
  note c = visible_closed [OF assms(1) this]
  have "hd ?seeds \<in> visible_labels_in_public_tree full ?seeds \<inter> labels_in full"
    using c(1) \<open>set ?seeds \<subseteq> labels_in full\<close> hd_in_set [OF s(1)] by blast
  then have "visible_labels_in_public_tree full ?seeds \<inter> labels_in full \<noteq> {}" by blast
  from valid_slice [OF assms(1) this] c(2) show ?thesis unfolding s(2) by blast
qed

lemma slices_valid:
  assumes "docs_ok hex_decode J docs"
  shows "\<exists>ss. slices_for_fingerprint J fp docs = Ok ss \<and> list_all (valid_tree hex_decode) ss"
proof -
  have "\<forall>d \<in> set (sort_key doc_label docs). \<exists>t. parse_document J (doc_document d) = Ok t \<and> valid_tree hex_decode t"
    using assms by (fastforce simp: docs_ok_def parse_document_def)
  moreover have "\<forall>d \<in> set ds. \<exists>t. parse_document J (doc_document d) = Ok t \<and> valid_tree hex_decode t \<Longrightarrow>
      \<exists>ts. mapM (\<lambda>d. parse_document J (doc_document d)) ds = Ok ts \<and> list_all (valid_tree hex_decode) ts" for ds
    by (induction ds) auto
  ultimately obtain ts where ts: "list_public_trees J docs = Ok ts" "list_all (valid_tree hex_decode) ts"
    unfolding list_public_trees_def by blast
  then show ?thesis using slice_valid
    by (fastforce simp: slices_for_fingerprint_def list_all_iff List.map_filter_def)
qed

lemma keep_edges_keys:
  "edge_key ` set (keep_edges L edges kept)
     = edge_key ` set kept \<union> {k \<in> edge_key ` set edges. \<not> (fst k \<in> L \<and> snd k \<in> L)}"
proof (induction L edges kept rule: keep_edges.induct)
  case (2 L e edges kept)
  have "list_ex (\<lambda>k. pe_from k = pe_from e \<and> pe_to k = pe_to e) kept \<longleftrightarrow> edge_key e \<in> edge_key ` set kept"
    by (auto simp: list_ex_iff edge_key_def image_iff) (metis prod.inject)
  with 2 show ?case by (auto simp: edge_key_def)
qed simp

lemma clip_generation_next: "0 < g \<Longrightarrow> clip_generation g \<noteq> - 1 \<Longrightarrow> clip_generation (min I64_MAX (g + 1)) = clip_generation g + 1"
proof -
  assume g: "0 < g" "clip_generation g \<noteq> - 1"
  then have "g < 2 ^ 32" by (auto simp: clip_generation_def split: if_splits)
  moreover have "g \<noteq> 2 ^ 32 - 1" using g(2) by (auto simp: clip_generation_def)
  ultimately have "g + 1 < 2 ^ 32" by simp
  then show ?thesis using g(1) by (simp add: clip_generation_def I64_MAX_def min_def)
qed

section \<open>Example\<close>

definition toy_split_node :: "str \<Rightarrow> str option \<Rightarrow> public_node" where
  "toy_split_node l p = \<lparr>pn_label = l, pn_parent_label = p, pn_threshold = Some 1, pn_is_active = True,
     pn_encryption_fingerprint = None, pn_encryption_public_key = None\<rparr>"

definition toy_tree :: public_tree where
  "toy_tree = \<lparr>pt_label = ''org'', pt_generation = 1,
     pt_nodes = [toy_split_node ''M'' None, toy_split_node ''A'' (Some ''M''), toy_split_node ''B'' (Some ''M'')],
     pt_whitelist = [], pt_links = []\<rparr>"

definition toy_update :: public_tree where
  "toy_update = \<lparr>pt_label = ''org'', pt_generation = 1,
     pt_nodes = [toy_split_node ''M'' None, toy_split_node ''C'' (Some ''M'')], pt_whitelist = [], pt_links = []\<rparr>"

definition toy_result :: public_tree where
  "toy_result = \<lparr>pt_label = ''org'', pt_generation = 2,
     pt_nodes = [toy_split_node ''M'' None, toy_split_node ''C'' (Some ''M''), toy_split_node ''A'' (Some ''M''), toy_split_node ''B'' (Some ''M'')],
     pt_whitelist = [], pt_links = []\<rparr>"

definition toy_json :: tree_json where
  "toy_json = \<lparr>to_json = (\<lambda>t. if t = toy_tree then Some ''1'' else if t = toy_result then Some ''2'' else None),
     from_json = (\<lambda>d. if d = ''1'' then Some toy_tree else if d = ''2'' then Some toy_result else None)\<rparr>"

lemma toy_json_law [simp]: "json_law toy_json"
  by (simp add: json_law_def toy_json_def)

lemma toy_trees_ok:
  "validate_public_tree (\<lambda>_. None) toy_tree = Ok ()" "validate_public_tree (\<lambda>_. None) toy_update = Ok ()"
  "validate_public_tree (\<lambda>_. None) toy_result = Ok ()"
  by (simp_all add: validate_public_tree_def toy_tree_def toy_update_def toy_result_def toy_split_node_def Let_def reaches_root_def
      parent_label_of_def)

definition toy_docs :: docs where
  "toy_docs = [\<lparr>doc_label = ''org'', doc_generation = 1, doc_document = ''1''\<rparr>]"

lemma toy_put: "put_public_tree (\<lambda>_. None) toy_json toy_tree [] = (Ok toy_tree, toy_docs)"
proof -
  have "toy_tree\<lparr>pt_generation := clip_generation 1\<rparr> = toy_tree" by (simp add: toy_tree_def clip_generation_def)
  then show ?thesis
    by (simp add: put_public_tree_def bind_op_def toy_trees_ok persist_public_tree_def Let_def upsert_doc_def toy_docs_def)
      (simp add: toy_json_def toy_tree_def upsert_doc_def)
qed

lemma toy_docs_uploaded: "(upload (\<lambda>_. None) toy_json)\<^sup>*\<^sup>* [] toy_docs"
  by (rule r_into_rtranclp) (auto simp: upload_def intro!: exI [of _ toy_tree] simp: toy_put)

lemma toy_merge:
  "merge_public_tree (\<lambda>_. None) toy_json toy_update toy_docs
    = (Ok toy_result, [\<lparr>doc_label = ''org'', doc_generation = 2, doc_document = ''2''\<rparr>])"
proof -
  have label: "pt_label toy_update = ''org''" "pt_label (toy_result\<lparr>pt_generation := g\<rparr>) = ''org''" for g
    by (simp_all add: toy_update_def toy_result_def)
  have old: "get_public_tree toy_json ''org'' toy_docs = Ok toy_tree"
    by (simp add: get_public_tree_def toy_docs_def parse_document_def toy_json_def)
  have "validate_public_tree (\<lambda>_. None) (toy_result\<lparr>pt_generation := 1\<rparr>) = Ok ()"
    using toy_trees_ok(3) by (simp add: validate_iff_valid)
  then have m: "merge_into_existing (\<lambda>_. None) toy_tree toy_update = Ok (toy_result\<lparr>pt_generation := 1\<rparr>)"
    by (simp add: merge_into_existing_def Let_def toy_tree_def toy_update_def toy_result_def toy_split_node_def)
  have "toy_result\<lparr>pt_generation := 1, pt_generation := clip_generation 2\<rparr> = toy_result"
    by (simp add: toy_result_def clip_generation_def)
  moreover have "to_json toy_json toy_result = Some ''2''"
    by (simp add: toy_json_def toy_tree_def toy_result_def)
  ultimately have "persist_public_tree toy_json (toy_result\<lparr>pt_generation := 1\<rparr>) toy_docs
      = (Ok toy_result, [\<lparr>doc_label = ''org'', doc_generation = 2, doc_document = ''2''\<rparr>])"
    by (simp add: persist_public_tree_def Let_def label toy_docs_def I64_MAX_def min_def upsert_doc_def toy_result_def)
  with old m show ?thesis by (simp add: merge_public_tree_def bind_op_def toy_trees_ok label)
qed

section \<open>Properties\<close>

text \<open>
  C32. The relay only ever holds and serves validated trees: after any sequence of uploads, accepted
  or refused, there is one document per label, each reads back as a validated tree under its own
  label and generation, and the slices served for any fingerprint are validated trees themselves.
\<close>

theorem relay_documents_valid:
  assumes "json_law J" "(upload hex_decode J)\<^sup>*\<^sup>* [] docs"
  shows "docs_ok hex_decode J docs
    \<and> (\<exists>ss. slices_for_fingerprint J fp docs = Ok ss \<and> list_all (\<lambda>s. validate_public_tree hex_decode s = Ok ()) ss)"
  using uploads_ok [OF assms] slices_valid [OF uploads_ok [OF assms], of fp] by (simp add: validate_iff_valid)

theorem relay_documents_valid_witness:
  "docs_ok (\<lambda>_. None) toy_json toy_docs
    \<and> (\<exists>ss. slices_for_fingerprint toy_json ''fp'' toy_docs = Ok ss \<and> list_all (\<lambda>s. validate_public_tree (\<lambda>_. None) s = Ok ()) ss)"
  using relay_documents_valid [OF toy_json_law toy_docs_uploaded] by simp

text \<open>
  C34. Merging an upload into a published tree is authoritative for the labels it mentions and keeps
  everything else: the new document has exactly the uploaded nodes and the old nodes with other
  labels, the uploaded edges and the old edges that are not between uploaded labels, the next
  generation, and no other document changes.
\<close>

theorem merge_keeps_topology:
  assumes "json_law J" "docs_ok hex_decode J docs" "get_public_tree J (pt_label t) docs = Ok old"
    "merge_public_tree hex_decode J t docs = (Ok new, docs')"
  shows "get_public_tree J (pt_label t) docs' = Ok new
    \<and> set (pt_nodes new) = set (pt_nodes t) \<union> {n \<in> set (pt_nodes old). pn_label n \<notin> labels_in t}
    \<and> edge_key ` set (pt_whitelist new) = edge_key ` set (pt_whitelist t)
         \<union> {k \<in> edge_key ` set (pt_whitelist old). \<not> (fst k \<in> labels_in t \<and> snd k \<in> labels_in t)}
    \<and> edge_key ` set (pt_links new) = edge_key ` set (pt_links t)
         \<union> {k \<in> edge_key ` set (pt_links old). \<not> (fst k \<in> labels_in t \<and> snd k \<in> labels_in t)}
    \<and> (pt_generation old \<noteq> - 1 \<longrightarrow> pt_generation new = pt_generation old + 1)
    \<and> (\<forall>l. l \<noteq> pt_label t \<longrightarrow> get_public_tree J l docs' = get_public_tree J l docs)"
proof -
  from assms(3,4) obtain m where m: "merge_into_existing hex_decode old t = Ok m" "persist_public_tree J m docs = (Ok new, docs')"
    by (auto simp: merge_public_tree_def res_simps split: sum.splits)
  have mv: "valid_tree hex_decode m" "pt_label m = pt_label t" using merge_into_existing_valid [OF m(1)] by auto
  note p = persist_result [OF assms(1,2) mv(1) m(2), unfolded mv(2)]
  from assms(3) obtain d where d: "List.find (\<lambda>d. doc_label d = pt_label t) docs = Some d" "from_json J (doc_document d) = Some old"
    by (auto simp: get_public_tree_def parse_document_def res_simps)
  then have "d \<in> set docs" by (auto simp: find_Some_iff)
  with assms(2) d(2) have g: "0 < doc_generation d" "pt_generation old = clip_generation (doc_generation d)" by (auto simp: docs_ok_def)
  have "pt_nodes m = pt_nodes t @ filter (\<lambda>n. pn_label n \<notin> labels_in t) (pt_nodes old)"
    "pt_whitelist m = keep_edges (labels_in t) (pt_whitelist old) (pt_whitelist t)"
    "pt_links m = keep_edges (labels_in t) (pt_links old) (pt_links t)"
    using m(1) by (auto simp: merge_into_existing_def Let_def res_simps labels_in_def)
  with p(1,3,4) d(1) g clip_generation_next [OF g(1)] show ?thesis by (auto simp: keep_edges_keys)
qed

theorem merge_keeps_topology_witness:
  "set (pt_nodes toy_result) = set (pt_nodes toy_update) \<union> {n \<in> set (pt_nodes toy_tree). pn_label n \<notin> labels_in toy_update}"
proof -
  have "get_public_tree toy_json (pt_label toy_update) toy_docs = Ok toy_tree"
    by (simp add: get_public_tree_def toy_docs_def parse_document_def toy_json_def toy_update_def)
  from merge_keeps_topology [OF toy_json_law uploads_ok [OF toy_json_law toy_docs_uploaded] this toy_merge] show ?thesis by (elim conjE)
qed

text \<open>
  C33. On a validated tree, what a person sees is exactly their lineage, their descendants, their
  siblings, and across every established link from a visible label the other end with its lineage,
  as often as it takes.
\<close>

theorem visibility_exact:
  assumes "validate_public_tree hex_decode tree = Ok ()" "seed \<in> labels_in tree"
  shows "visible_labels_in_public_tree tree [seed] = {l. sees tree seed l}"
  using visible_exact [of hex_decode tree seed] assms by (simp add: validate_iff_valid)

theorem visibility_exact_witness:
  "visible_labels_in_public_tree toy_tree [''A''] = {l. sees toy_tree ''A'' l}"
  using visibility_exact [OF toy_trees_ok(1), of "''A''"] by (simp add: labels_in_def toy_tree_def toy_split_node_def)

end
