(* ===== verification/Publishing.thy ===== *)
theory Publishing
  imports StoreInvariant OrgTrees
begin

text \<open>
  From the local tables to the relay: every run of the operations on the tables keeps their
  invariant, a tree exported from such tables is one the relay accepts, and the slice the relay
  cuts for a reader is the slice the exporter would have cut.
\<close>

section \<open>Runs of the operations\<close>

text \<open>One call on the tables, whether it succeeds or fails.\<close>

inductive tree_call :: "prims \<Rightarrow> shamir \<Rightarrow> store \<Rightarrow> store \<Rightarrow> bool" for P S where
  split_call: "tree_call P S st (snd (split_key P S label secret spec st))"
| register_call: "tree_call P S st (snd (get_or_register P label kt pk st))"
| custody_call: "tree_call P S st (snd (set_custody_policy k policy st))"
| allow_call: "tree_call P S st (snd (allow_bridge k a b st))"
| deny_call: "tree_call P S st (snd (deny_bridge k a b st))"
| add_call: "tree_call P S st (snd (add_bridge k a b st))"
| remove_call: "tree_call P S st (snd (remove_bridge k a b st))"
| bind_call: "tree_call P S st (snd (bind_leaf_to_active_siblings k a st))"
| bind_all_call: "tree_call P S st (snd (bind_all_sibling_leaf_pairs k st))"
| drop_call: "tree_call P S st (snd (drop_bindings_for_hardware h st))"
| rebind_call: "tree_call P S st (snd (rebind_leaf P k a h old_secret st))"
| adopt_call: "tree_call P S st (snd (adopt_reissued_hardware_key a scope h st))"

lemma tree_call_ok: "tree_call P S st st' \<Longrightarrow> store_ok st \<Longrightarrow> store_ok st'"
  by (induction rule: tree_call.induct)
    (simp_all add: splitting_key.keeps registering.keeps custody_setting.keeps allowing.keeps denying.keeps adding.keeps
      removing.keeps binding_siblings.keeps binding_all.keeps dropping.keeps rebinding.keeps adopting.keeps)

lemma tree_calls_ok: "(tree_call P S)\<^sup>*\<^sup>* st st' \<Longrightarrow> store_ok st \<Longrightarrow> store_ok st'"
  by (induction rule: rtranclp_induct) (auto intro: tree_call_ok)

section \<open>The rows of one tree\<close>

lemma tree_rows_set [simp]: "set (tree_rows k st) = {n \<in> set (st_nodes st). kn_key_id n = k}"
  by (auto simp: tree_rows_def)

lemma tree_rows_keyed:
  assumes "store_ok st"
  shows "distinct (map kn_id (tree_rows k st))" and "distinct (map kn_label (tree_rows k st))"
    and "sorted (map kn_id (tree_rows k st))"
proof -
  have "distinct (map kn_id (st_nodes st))" using assms by (simp add: store_ok_def forest_ok_def tables_ok_def)
  then have d: "distinct (tree_rows k st)" by (simp add: tree_rows_def distinct_map)
  with same_node [OF assms] show "distinct (map kn_id (tree_rows k st))" "distinct (map kn_label (tree_rows k st))"
    by (auto simp: distinct_map inj_on_def)
  show "sorted (map kn_id (tree_rows k st))" by (simp add: tree_rows_def)
qed

lemma tree_rows_parent:
  assumes "store_ok st" "n \<in> set (st_nodes st)" "kn_parent_id n = Some p"
  shows "\<exists>m \<in> set (st_nodes st). kn_id m = p \<and> kn_key_id m = kn_key_id n \<and> p < kn_id n"
proof -
  from assms(1,2) have "node_placed (st_nodes st) n" by (simp add: store_ok_def forest_ok_def)
  with assms(3) show ?thesis by (auto simp: node_placed_def)
qed

lemma root_unique:
  assumes "store_ok st" "n \<in> set (st_nodes st)" "m \<in> set (st_nodes st)" "kn_key_id m = kn_key_id n"
    "kn_parent_id n = None" "kn_parent_id m = None"
  shows "m = n"
proof -
  from assms(1,2) have "node_placed (st_nodes st) n" by (simp add: store_ok_def forest_ok_def)
  then have "\<forall>m \<in> set (st_nodes st). kn_key_id m = kn_key_id n \<and> kn_parent_id m = None \<longrightarrow> kn_id m = kn_id n"
    unfolding node_placed_def assms(5) option.case .
  with assms same_node(1) [OF assms(1,3,2)] show ?thesis by blast
qed

lemma tree_rows_rooted:
  assumes "store_ok st" "tree_rows k st \<noteq> []"
  shows "rooted None (tree_rows k st)"
    and "filter (\<lambda>n. kn_parent_id n = None) (tree_rows k st) = [hd (tree_rows k st)]"
proof -
  from assms(2) obtain r rs where rows: "tree_rows k st = r # rs" by (cases "tree_rows k st") auto
  note s = tree_rows_keyed [OF assms(1), of k, unfolded rows]
  have in_rows: "n \<in> set (st_nodes st) \<and> kn_key_id n = k" if "n \<in> set (r # rs)" for n
    using that tree_rows_set [of k st] unfolding rows by blast
  have r: "kn_parent_id r = None"
  proof (rule ccontr)
    assume "kn_parent_id r \<noteq> None"
    then obtain p where p: "kn_parent_id r = Some p" by auto
    from in_rows [of r] have "r \<in> set (st_nodes st)" "kn_key_id r = k" by auto
    with tree_rows_parent [OF assms(1) this(1) p] obtain m where m: "m \<in> set (tree_rows k st)" "kn_id m < kn_id r" by auto
    with s(3) show False unfolding rows by auto
  qed
  have "kn_parent_id n \<in> Some ` kn_id ` set (r # rs)" if n: "n \<in> set rs" for n
  proof (cases "kn_parent_id n")
    case None
    from in_rows [of n] in_rows [of r] n have "n \<in> set (st_nodes st)" "r \<in> set (st_nodes st)" "kn_key_id r = kn_key_id n" by auto
    from root_unique [OF assms(1) this None r] have "kn_id r = kn_id n" by simp
    with s(1) n show ?thesis by auto
  next
    case (Some p)
    from in_rows [of n] n have "n \<in> set (st_nodes st)" "kn_key_id n = k" by auto
    with tree_rows_parent [OF assms(1) this(1) Some] have "p \<in> kn_id ` set (tree_rows k st)" by auto
    with Some show ?thesis unfolding rows by blast
  qed
  note below = this
  with r show "rooted None (tree_rows k st)" unfolding rooted_def rows by blast
  have "filter (\<lambda>n. kn_parent_id n = None) rs = []" using below by (fastforce simp: filter_empty_conv)
  with r show "filter (\<lambda>n. kn_parent_id n = None) (tree_rows k st) = [hd (tree_rows k st)]" by (simp add: rows)
qed

section \<open>The exported nodes\<close>

definition published :: "prims \<Rightarrow> store \<Rightarrow> node_row \<Rightarrow> public_node \<Rightarrow> bool" where
  "published P st n p \<longleftrightarrow> pn_label p = kn_label n \<and> pn_is_active p = kn_is_active n
     \<and> pn_threshold p = map_option (\<lambda>t. word_of_nat (nat t)) (kn_threshold n)
     \<and> (case kn_parent_id n of None \<Rightarrow> pn_parent_label p = None
        | Some q \<Rightarrow> \<exists>m \<in> set (st_nodes st). kn_id m = q \<and> kn_key_id m = kn_key_id n \<and> pn_parent_label p = Some (kn_label m))
     \<and> (case kn_hardware_key_id n of None \<Rightarrow> pn_encryption_fingerprint p = None \<and> pn_encryption_public_key p = None
        | Some h \<Rightarrow> \<exists>hw \<in> set (st_hardware_keys st). hk_id hw = h \<and> pn_encryption_fingerprint p = Some (hk_fingerprint hw)
            \<and> pn_encryption_public_key p = Some (hex_encode P (hk_public_key hw)))"

lemma load_arena:
  assumes "load k st = Ok tree"
  shows "\<exists>parents. list_all2 (\<lambda>n q. parent_index (tree_rows k st) n = Ok q) (tree_rows k st) parents
     \<and> kt_nodes tree = map (arena_node (st_bridges st) parents (tree_rows k st)) [0..<length (tree_rows k st)]"
  using assms by (auto simp: load_def Let_def res_simps mapM_Ok_iff simp del: map_eq_conv split: if_splits)

lemma parent_index_label:
  assumes "parent_index rows n = Ok q"
  shows "kn_parent_id n = None \<and> q = None \<or>
     (\<exists>i < length rows. q = Some i \<and> kn_parent_id n = Some (kn_id (rows ! i)))"
proof (cases "kn_parent_id n")
  case (Some p)
  with assms obtain i where "position (\<lambda>r. kn_id r = p) rows = Some i" "q = Some i"
    by (auto simp: parent_index_def res_simps ok_or_def split: option.splits)
  with position_nth [OF this(1)] Some show ?thesis by auto
qed (use assms in \<open>simp add: parent_index_def\<close>)

lemma publish_node_ok:
  assumes "store_ok st" "load k st = Ok tree" "i < length (tree_rows k st)"
  shows "\<exists>p. publish_node P st tree (kt_nodes tree ! i) = Ok p \<and> published P st (tree_rows k st ! i) p"
proof -
  let ?rows = "tree_rows k st"
  from load_arena [OF assms(2)] obtain parents where par: "list_all2 (\<lambda>n q. parent_index ?rows n = Ok q) ?rows parents"
    and nodes: "kt_nodes tree = map (arena_node (st_bridges st) parents ?rows) [0..<length ?rows]" by blast
  let ?n = "?rows ! i" and ?a = "kt_nodes tree ! i"
  have a: "nd_id ?a = kn_label ?n" "nd_parent_idx ?a = parents ! i" "nd_threshold ?a = map_option nat (kn_threshold ?n)"
    "nd_is_active ?a = kn_is_active ?n" "nd_hardware_key_id ?a = kn_hardware_key_id ?n"
    using assms(3) by (simp_all add: nodes arena_node_def Let_def)
  have n: "?n \<in> set (st_nodes st)" "kn_key_id ?n = k" using nth_mem [OF assms(3)] by auto
  have up: "case kn_parent_id ?n of None \<Rightarrow> parents ! i = None
      | Some q \<Rightarrow> \<exists>m \<in> set (st_nodes st). kn_id m = q \<and> kn_key_id m = kn_key_id ?n
          \<and> map_option (\<lambda>i. nd_id (kt_nodes tree ! i)) (parents ! i) = Some (kn_label m)"
  proof -
    from par assms(3) have "parent_index ?rows ?n = Ok (parents ! i)" by (simp add: list_all2_conv_all_nth)
    from parent_index_label [OF this] show ?thesis
    proof (elim disjE exE conjE)
      fix j
      assume j: "j < length ?rows" "parents ! i = Some j" "kn_parent_id ?n = Some (kn_id (?rows ! j))"
      from nth_mem [OF j(1)] have "?rows ! j \<in> set (st_nodes st)" "kn_key_id (?rows ! j) = k" by auto
      with j n(2) show ?thesis by (auto simp: nodes arena_node_def Let_def)
    qed simp
  qed
  have shape: "node_shape (st_hardware_keys st) ?n" using assms(1) n(1) by (simp add: store_ok_def forest_ok_def)
  show ?thesis
  proof (cases "kn_hardware_key_id ?n")
    case None
    with up a show ?thesis by (simp add: publish_node_def published_def option.map_comp o_def split: option.splits)
  next
    case (Some h)
    with shape have "list_ex (\<lambda>key. hk_id key = h) (st_hardware_keys st)" by (auto simp: node_shape_def list_ex_iff split: option.splits)
    then obtain hw where hw: "List.find (\<lambda>key. hk_id key = h) (st_hardware_keys st) = Some hw"
      by (cases "List.find (\<lambda>key. hk_id key = h) (st_hardware_keys st)") (auto simp: find_None_iff list_ex_iff)
    then have "get_key h st = Ok hw" by (simp add: get_key_def)
    with Some up a find_SomeD [OF hw] show ?thesis
      by (auto simp: publish_node_def published_def option.map_comp o_def split: option.splits)
  qed
qed

lemma export_ok:
  assumes "store_ok st" "key_row_of k st = Ok row" "tree_rows k st \<noteq> []"
  shows "\<exists>t. export_public_tree P k st = Ok t \<and> pt_label t = k_label row \<and> list_all2 (published P st) (tree_rows k st) (pt_nodes t)
     \<and> pt_whitelist t = map edge_of (bl_allowed (list_bridges k st)) \<and> pt_links t = map edge_of (bl_established (list_bridges k st))"
proof -
  from load_rooted [OF tree_rows_rooted(1) [OF assms(1,3)] tree_rows_keyed(2) [OF assms(1)]]
  obtain tree where ld: "load k st = Ok tree" by blast
  from load_arena [OF ld] have len: "length (kt_nodes tree) = length (tree_rows k st)" by auto
  have "\<forall>i. i < length (tree_rows k st) \<longrightarrow> (\<exists>p. publish_node P st tree (kt_nodes tree ! i) = Ok p \<and> published P st (tree_rows k st ! i) p)"
    using publish_node_ok [OF assms(1) ld] by blast
  then obtain f where f: "\<And>i. i < length (tree_rows k st) \<Longrightarrow>
      publish_node P st tree (kt_nodes tree ! i) = Ok (f i) \<and> published P st (tree_rows k st ! i) (f i)" by metis
  let ?nodes = "map f [0..<length (tree_rows k st)]"
  have "mapM (publish_node P st tree) (kt_nodes tree) = Ok ?nodes"
    unfolding mapM_Ok_iff using f len by (simp add: list_all2_conv_all_nth)
  moreover have "list_all2 (published P st) (tree_rows k st) ?nodes" using f by (simp add: list_all2_conv_all_nth)
  ultimately show ?thesis using assms(2) ld by (simp add: export_public_tree_def Let_def)
qed

section \<open>The exported bridges\<close>

lemma distinct_concat_map:
  "distinct xs \<Longrightarrow> (\<And>x. x \<in> set xs \<Longrightarrow> distinct (f x)) \<Longrightarrow>
     (\<And>x y z. x \<in> set xs \<Longrightarrow> y \<in> set xs \<Longrightarrow> z \<in> set (f x) \<Longrightarrow> z \<in> set (f y) \<Longrightarrow> x = y) \<Longrightarrow> distinct (concat (map f xs))"
proof (induction xs)
  case (Cons x xs)
  have "set (f x) \<inter> set (concat (map f xs)) = {}" using Cons.prems(1,3) by fastforce
  with Cons show ?case by simp
qed simp

lemma nodes_distinct: "store_ok st \<Longrightarrow> distinct (st_nodes st)"
  by (simp add: store_ok_def forest_ok_def tables_ok_def distinct_map)

lemma in_set_if: "z \<in> set (if c then [a] else []) \<longleftrightarrow> c \<and> z = a"
  by auto

lemma in_allowed:
  "(x, y) \<in> set (bl_allowed (list_bridges k st)) \<longleftrightarrow>
     (\<exists>n \<in> set (st_nodes st). kn_key_id n = k \<and> kn_label n = x \<and> (kn_id n, y) \<in> set (st_bridges st))" (is "?l \<longleftrightarrow> ?r")
proof
  assume ?l
  then obtain i peer n where "(i, peer) \<in> set (st_bridges st)" "n \<in> set (st_nodes st)" "kn_id n = i" "kn_key_id n = k" "x = kn_label n" "y = peer"
    unfolding list_bridges_def bridge_listing.simps set_sort set_concat set_map image_image UN_iff split_def in_set_if
    by auto
  then show ?r by blast
next
  assume ?r
  then obtain n where "n \<in> set (st_nodes st)" "kn_key_id n = k" "kn_label n = x" "(kn_id n, y) \<in> set (st_bridges st)" by blast
  then show ?l unfolding list_bridges_def bridge_listing.simps set_sort set_concat set_map image_image UN_iff split_def in_set_if
    by (intro bexI [of _ "(kn_id n, y)"] bexI [of _ n]) auto
qed

lemma in_established:
  "(x, y) \<in> set (bl_established (list_bridges k st)) \<longleftrightarrow>
     (\<exists>a \<in> set (st_nodes st). \<exists>b \<in> set (st_nodes st). kn_key_id a = k \<and> kn_key_id b = k \<and> kn_label a = x \<and> kn_label b = y
        \<and> (kn_id a, kn_id b) \<in> set (st_links st))" (is "?l \<longleftrightarrow> ?r")
proof
  assume ?l
  then obtain i j a b where "(i, j) \<in> set (st_links st)" "a \<in> set (st_nodes st)" "b \<in> set (st_nodes st)" "kn_id a = i" "kn_id b = j"
    "kn_key_id a = k" "kn_key_id b = k" "x = kn_label a" "y = kn_label b"
    unfolding list_bridges_def bridge_listing.simps set_sort set_concat set_map image_image UN_iff split_def in_set_if
    by auto
  then show ?r by blast
next
  assume ?r
  then obtain a b where "a \<in> set (st_nodes st)" "b \<in> set (st_nodes st)" "kn_key_id a = k" "kn_key_id b = k" "kn_label a = x" "kn_label b = y"
    "(kn_id a, kn_id b) \<in> set (st_links st)" by blast
  then show ?l unfolding list_bridges_def bridge_listing.simps set_sort set_concat set_map image_image UN_iff split_def in_set_if
    by (intro bexI [of _ "(kn_id a, kn_id b)"] bexI [of _ a] bexI [of _ b]) auto
qed

lemma allowed_distinct:
  assumes "store_ok st"
  shows "distinct (bl_allowed (list_bridges k st))"
proof -
  have "distinct (st_bridges st)" using assms by (simp add: store_ok_def bonds_ok_def)
  then show ?thesis unfolding list_bridges_def bridge_listing.simps distinct_sort
  proof (rule distinct_concat_map, goal_cases)
    case (1 b)
    show ?case unfolding split_def
      by (rule distinct_concat_map [OF nodes_distinct [OF assms]]) (auto split: if_splits intro: same_node(1) [OF assms])
  next
    case (2 b c z)
    then show ?case using same_node(2) [OF assms] by (auto split: if_splits) metis
  qed
qed

lemma established_distinct:
  assumes "store_ok st"
  shows "distinct (bl_established (list_bridges k st))"
proof -
  have "distinct (st_links st)" using assms by (simp add: store_ok_def bonds_ok_def)
  then show ?thesis unfolding list_bridges_def bridge_listing.simps distinct_sort
  proof (rule distinct_concat_map, goal_cases)
    case (1 l)
    show ?case unfolding split_def
      by (rule distinct_concat_map [OF nodes_distinct [OF assms]], rule distinct_concat_map [OF nodes_distinct [OF assms]])
        (auto split: if_splits intro: same_node(1) [OF assms])
  next
    case (2 l m z)
    then show ?case using same_node(2) [OF assms] by (auto split: if_splits) metis+
  qed
qed

section \<open>The relay accepts what is exported\<close>

lemma edge_of_simps [simp]:
  "pe_from (edge_of ab) = fst ab" "pe_to (edge_of ab) = snd ab" "edge_key (edge_of ab) = ab" "edge_key \<circ> edge_of = id"
  by (auto simp: edge_of_def edge_key_def split_def)

lemma list_all2_filter:
  "list_all2 R xs ys \<Longrightarrow> (\<And>x y. R x y \<Longrightarrow> p x = q y) \<Longrightarrow> list_all2 R (filter p xs) (filter q ys)"
  by (induction rule: list_all2_induct) auto

lemma list_all2_memD:
  "list_all2 R xs ys \<Longrightarrow> y \<in> set ys \<Longrightarrow> \<exists>x \<in> set xs. R x y"
  "list_all2 R xs ys \<Longrightarrow> x \<in> set xs \<Longrightarrow> \<exists>y \<in> set ys. R x y"
  by (induction rule: list_all2_induct) auto

lemma published_good:
  assumes "store_ok st" "n \<in> set (st_nodes st)" "published P st n p" "\<And>bs. dec (hex_encode P bs) = Some bs"
  shows "node_good dec p"
proof -
  from assms(1,2) have shape: "node_shape (st_hardware_keys st) n" "kn_label n \<noteq> []"
    and keys: "\<forall>key \<in> set (st_hardware_keys st). length (hk_public_key key) = 32" by (auto simp: store_ok_def forest_ok_def)
  show ?thesis
  proof (cases "kn_threshold n")
    case (Some t)
    with shape have t: "0 < t" "t \<le> 255" "kn_hardware_key_id n = None" by (auto simp: node_shape_def)
    then have "(word_of_nat (nat t) :: u8) \<noteq> 0" by (simp add: word_of_int_eq_0_iff zdvd_not_zless)
    with assms(3) Some t shape show ?thesis by (auto simp: node_good_def published_def word_gt_0)
  next
    case None
    with shape obtain h where "kn_hardware_key_id n = Some h" by (auto simp: node_shape_def)
    with assms(3,4) None shape keys show ?thesis by (auto simp: node_good_def published_def)
  qed
qed

lemma published_parents:
  assumes "store_ok st" "list_all2 (published P st) (tree_rows k st) (pt_nodes t)"
  shows "parent_in t a b \<longleftrightarrow> (\<exists>n \<in> set (st_nodes st). \<exists>m \<in> set (st_nodes st). kn_key_id n = k \<and> kn_key_id m = k
     \<and> kn_parent_id n = Some (kn_id m) \<and> kn_label n = a \<and> kn_label m = b)" (is "?l \<longleftrightarrow> ?r")
proof
  assume ?l
  then obtain p where p: "p \<in> set (pt_nodes t)" "pn_label p = a" "pn_parent_label p = Some b" by (auto simp: parent_in_def)
  from list_all2_memD(1) [OF assms(2) p(1)] obtain n where "n \<in> set (st_nodes st)" "kn_key_id n = k" "published P st n p" by auto
  with p(2,3) show ?r by (auto simp: published_def split: option.splits)
next
  assume ?r
  then obtain n m where n: "n \<in> set (tree_rows k st)" "kn_parent_id n = Some (kn_id m)" "kn_label n = a" "kn_label m = b"
    and m: "m \<in> set (st_nodes st)" by auto
  from list_all2_memD(2) [OF assms(2) n(1)] obtain p where p: "p \<in> set (pt_nodes t)" "published P st n p" by blast
  from p(2) n(2) obtain m' where "m' \<in> set (st_nodes st)" "kn_id m' = kn_id m" "pn_parent_label p = Some (kn_label m')"
    by (auto simp: published_def)
  with same_node(1) [OF assms(1) this(1) m] n p show ?l by (auto simp: parent_in_def published_def)
qed

lemma published_reach:
  assumes "store_ok st" "list_all2 (published P st) (tree_rows k st) (pt_nodes t)"
    and "n \<in> set (st_nodes st)" "kn_key_id n = k" "r \<in> set (st_nodes st)" "kn_key_id r = k" "kn_parent_id r = None"
  shows "(parent_in t)\<^sup>*\<^sup>* (kn_label n) (kn_label r)"
  using assms(3,4)
proof (induction n rule: measure_induct_rule [where f = "\<lambda>n. card {m \<in> set (st_nodes st). kn_id m < kn_id n}"])
  case (less n)
  show ?case
  proof (cases "kn_parent_id n")
    case None
    with root_unique [OF assms(1) assms(5) less.prems(1)] less.prems assms(6,7) show ?thesis by simp
  next
    case (Some p)
    from tree_rows_parent [OF assms(1) less.prems(1) Some] less.prems obtain m where
      m: "m \<in> set (st_nodes st)" "kn_id m = p" "kn_key_id m = k" "p < kn_id n" by auto
    have "{x \<in> set (st_nodes st). kn_id x < kn_id m} \<subset> {x \<in> set (st_nodes st). kn_id x < kn_id n}"
      using m by auto
    then have "card {x \<in> set (st_nodes st). kn_id x < kn_id m} < card {x \<in> set (st_nodes st). kn_id x < kn_id n}"
      by (rule psubset_card_mono [rotated]) simp
    from less.IH [OF this m(1,3)] have "(parent_in t)\<^sup>*\<^sup>* (kn_label m) (kn_label r)" .
    moreover have "parent_in t (kn_label n) (kn_label m)"
      using published_parents [OF assms(1,2)] less.prems Some m by blast
    ultimately show ?thesis by (rule converse_rtranclp_into_rtranclp [rotated])
  qed
qed

lemma export_valid:
  assumes ok: "store_ok st" and "k_label row \<noteq> []" and rows: "tree_rows k st \<noteq> []" and dec: "\<And>bs. dec (hex_encode P bs) = Some bs"
    and t: "pt_label t = k_label row" and pub: "list_all2 (published P st) (tree_rows k st) (pt_nodes t)"
    and wl: "pt_whitelist t = map edge_of (bl_allowed (list_bridges k st))" and links: "pt_links t = map edge_of (bl_established (list_bridges k st))"
  shows "valid_tree dec t"
proof -
  have labels: "map pn_label (pt_nodes t) = map kn_label (tree_rows k st)"
    using pub by (induction rule: list_all2_induct) (auto simp: published_def)
  have lab: "labels_in t = kn_label ` {n \<in> set (st_nodes st). kn_key_id n = k}"
    unfolding labels_in_def tree_rows_set [symmetric] set_map [symmetric] labels ..
  have good: "list_all (node_good dec) (pt_nodes t)"
    using list_all2_memD(1) [OF pub] published_good [OF ok _ _ dec] by (fastforce simp: list_all_iff)
  have "list_all2 (published P st) (filter (\<lambda>n. kn_parent_id n = None) (tree_rows k st)) (filter (\<lambda>p. pn_parent_label p = None) (pt_nodes t))"
    by (rule list_all2_filter [OF pub]) (auto simp: published_def split: option.splits)
  then obtain root where root: "filter (\<lambda>p. pn_parent_label p = None) (pt_nodes t) = [root]" "published P st (hd (tree_rows k st)) root"
    unfolding tree_rows_rooted(2) [OF ok rows] by (auto simp: list_all2_Cons1)
  have r: "hd (tree_rows k st) \<in> set (st_nodes st)" "kn_key_id (hd (tree_rows k st)) = k" "kn_parent_id (hd (tree_rows k st)) = None"
    using hd_in_set [OF rows] rooted_head [OF tree_rows_rooted(1) [OF ok rows]] by auto
  have reach: "\<forall>l \<in> labels_in t. (parent_in t)\<^sup>*\<^sup>* l (pn_label root)"
    using published_reach [OF ok pub _ _ r] root(2) unfolding lab by (auto simp: published_def)
  have parents: "parent_in t a b \<Longrightarrow> b \<in> labels_in t" for a b
    unfolding published_parents [OF ok pub] lab by auto
  have bonds: "\<forall>b \<in> set (st_bridges st). bridge_ok (st_nodes st) b" "\<forall>l \<in> set (st_links st). link_ok (st_nodes st) (st_bridges st) l"
    using ok by (simp_all add: store_ok_def bonds_ok_def)
  have e1: "a \<noteq> b \<and> {a, b} \<subseteq> labels_in t" if "(a, b) \<in> set (bl_allowed (list_bridges k st))" for a b
    using that bonds(1) same_node(1) [OF ok] unfolding in_allowed lab bridge_ok_def by fastforce
  have e2: "a \<noteq> b \<and> {a, b} \<subseteq> labels_in t \<and> ((a, b) \<in> set (bl_allowed (list_bridges k st)) \<or> (b, a) \<in> set (bl_allowed (list_bridges k st)))"
    if l: "(a, b) \<in> set (bl_established (list_bridges k st))" for a b
  proof -
    from l obtain n m where n: "n \<in> set (st_nodes st)" "m \<in> set (st_nodes st)" "kn_key_id n = k" "kn_key_id m = k" "kn_label n = a" "kn_label m = b"
      and "(kn_id n, kn_id m) \<in> set (st_links st)" unfolding in_established by blast
    with bonds(2) have "link_ok (st_nodes st) (st_bridges st) (kn_id n, kn_id m)" by blast
    then have "kn_id n < kn_id m" "(kn_id n, b) \<in> set (st_bridges st) \<or> (kn_id m, a) \<in> set (st_bridges st)"
      using same_node(1) [OF ok] n unfolding link_ok_def by auto
    with n same_node(2) [OF ok n(1,2)] show ?thesis unfolding in_allowed lab by auto
  qed
  have e3: "(a, b) \<in> set (bl_established (list_bridges k st)) \<Longrightarrow> (b, a) \<notin> set (bl_allowed (list_bridges k st)) \<Longrightarrow>
      (a, b) \<in> set (bl_allowed (list_bridges k st))" for a b using e2 by blast
  show ?thesis unfolding valid_tree_def wl links
    using good tree_rows_keyed(2) [OF ok, of k] root(1) reach parents e1 e2 allowed_distinct [OF ok, of k] established_distinct [OF ok, of k] assms(2) t labels
    by (intro conjI exI [of _ root]) (auto simp: image_image dest: e3)
qed

section \<open>Slices on both sides\<close>

lemma position_keyed_some:
  "x \<in> set xs \<Longrightarrow> \<exists>i. position (\<lambda>y. f y = f x) xs = Some i"
  using position_None_iff [of "\<lambda>y. f y = f x" xs] by (cases "position (\<lambda>y. f y = f x) xs") (auto simp: list_ex_iff)

lemma local_slice:
  assumes "export_public_tree P k st = Ok full" "label \<in> labels_in full"
  shows "public_slice_for P k label st = Ok (filter_public_tree full (visible_labels_in_public_tree full [label]))"
proof -
  from assms(1) obtain row tree where tree: "load k st = Ok tree" "mapM (publish_node P st tree) (kt_nodes tree) = Ok (pt_nodes full)"
    and links: "pt_links full = map edge_of (bl_established (list_bridges k st))"
    by (auto simp: export_public_tree_def res_simps Let_def)
  have pub: "list_all2 (\<lambda>n p. pn_label p = nd_id n \<and> pn_parent_label p = map_option (\<lambda>i. nd_id (kt_nodes tree ! i)) (nd_parent_idx n))
      (kt_nodes tree) (pt_nodes full)"
    using tree(2) unfolding mapM_Ok_iff by (rule list_all2_mono) (auto simp: publish_node_def res_simps)
  have maps: "map (\<lambda>n. (nd_id n, map_option (\<lambda>i. nd_id (kt_nodes tree ! i)) (nd_parent_idx n))) (kt_nodes tree)
      = map (\<lambda>p. (pn_label p, pn_parent_label p)) (pt_nodes full)"
    using pub by (auto simp: list_all2_conv_all_nth intro!: nth_equalityI)
  have "label \<in> nd_id ` set (kt_nodes tree)" using list_all2_memD(1) [OF pub] assms(2) by (fastforce simp: labels_in_def)
  then obtain i where i: "position (\<lambda>n. nd_id n = label) (kt_nodes tree) = Some i" using position_keyed_some [of _ "kt_nodes tree" nd_id] by auto
  have "map (\<lambda>e. (pe_from e, pe_to e)) (pt_links full) = bl_established (list_bridges k st)" by (simp add: links o_def)
  with i position_nth [OF i] assms(1) tree(1) maps show ?thesis
    by (simp add: public_slice_for_def visible_labels_def load_for_visibility_def visible_labels_for_links_def index_by_label_def
        visible_labels_in_public_tree_def Let_def split_def)
qed

end
