(* ===== verification/PublishingProps.thy ===== *)
theory PublishingProps
  imports Publishing KeyTreeProps
begin

text \<open>
  What publishing promises, from the local tables through the relay to a reader: the tables stay
  well formed, the relay accepts what is exported, and a reader gets the slice the exporter sees.
\<close>

section \<open>Example\<close>

definition hex_digits :: str where "hex_digits = ''0123456789abcdef''"

definition hex_text :: "bytes \<Rightarrow> str" where
  "hex_text bs = concat (map (\<lambda>b. [hex_digits ! (unat b div 16), hex_digits ! (unat b mod 16)]) bs)"

fun hex_parse :: "str \<Rightarrow> bytes option" where
  "hex_parse [] = Some []"
| "hex_parse [c] = None"
| "hex_parse (c # d # text) =
     (case (position (\<lambda>x. x = c) hex_digits, position (\<lambda>x. x = d) hex_digits) of
        (Some i, Some j) \<Rightarrow> map_option (Cons (word_of_nat (16 * i + j))) (hex_parse text)
      | _ \<Rightarrow> None)"

lemma hex_digit_position: "i < 16 \<Longrightarrow> position (\<lambda>x. x = hex_digits ! i) hex_digits = Some i"
  using position_key [of id hex_digits "hex_digits ! i" i] by (simp add: hex_digits_def)

lemma hex_parse_text [simp]: "hex_parse (hex_text bs) = Some bs"
proof (induction bs)
  case (Cons b bs)
  have "unat b div 16 < 16" using u8_unat_bound [of b] by linarith
  moreover have "word_of_nat (16 * (unat b div 16) + unat b mod 16) = b" by simp
  ultimately show ?case using Cons by (simp add: hex_text_def hex_digit_position)
qed (simp add: hex_text_def)

definition desk_prims :: prims where "desk_prims = toy_prims\<lparr>hex_encode := hex_text\<rparr>"

definition desk_store :: store where
  "desk_store = toy_store\<lparr>st_hardware_keys := [(toy_key 1)\<lparr>hk_fingerprint := ''fp1''\<rparr>, (toy_key 2)\<lparr>hk_fingerprint := ''fp2''\<rparr>]\<rparr>"

definition desk_split :: store where
  "desk_split = toy_split\<lparr>st_hardware_keys := [(toy_key 1)\<lparr>hk_fingerprint := ''fp1''\<rparr>, (toy_key 2)\<lparr>hk_fingerprint := ''fp2''\<rparr>]\<rparr>"

lemma desk_store_ok [simp]: "store_ok desk_store"
  by (simp add: store_ok_def forest_ok_def bonds_ok_def tables_ok_def desk_store_def toy_store_def toy_key_def)

lemma desk_split_eq: "split_key desk_prims toy_shamir ''tree'' [7] toy_spec desk_store = (Ok 1, desk_split)"
  by (simp add: split_key_def build_tree_def transaction_def bind_op_def validate_def get_active_encryption_key_def get_key_def
      toy_spec_def desk_store_def toy_store_def toy_key_def insert_key_def insert_node_def node_fits_def next_id_def draw_def seal_share_def
      desk_split_def toy_split_def toy_node_def Let_def take_map take_upt upt_conv_Cons desk_prims_def)

lemma desk_calls: "(tree_call desk_prims toy_shamir)\<^sup>*\<^sup>* desk_store desk_split"
  using tree_call.split_call [of desk_prims toy_shamir desk_store "''tree''" "[7]" toy_spec] by (simp add: desk_split_eq r_into_rtranclp)

section \<open>The tables stay well formed\<close>



section \<open>The relay accepts what is exported\<close>



section \<open>Readers get what the exporter sees\<close>

lemma generation_irrelevant:
  "visible_labels_in_public_tree (t\<lparr>pt_generation := g\<rparr>) seeds = visible_labels_in_public_tree t seeds"
  "filter_public_tree (t\<lparr>pt_generation := g\<rparr>) V = (filter_public_tree t V)\<lparr>pt_generation := g\<rparr>"
  by (simp_all add: visible_labels_in_public_tree_def filter_public_tree_def)

text \<open>
  C13. A person with one leaf in a tree gets from the relay, by the fingerprint of the leaf's key,
  exactly the slice that the exporter computes for the leaf from the local tables, under the
  generation the relay gave the upload.
\<close>

theorem reader_gets_local_slice:
  assumes "json_law J" "docs_ok hex_decode J docs" "export_public_tree P key_id st = Ok full"
    "put_public_tree hex_decode J full docs = (Ok uploaded, docs')"
    "filter (\<lambda>n. pn_encryption_fingerprint n = Some fp) (pt_nodes full) = [leaf]"
  shows "\<exists>slice. public_slice_for P key_id (pn_label leaf) st = Ok slice
    \<and> context_for_fingerprint J (pt_label full) fp docs' = Ok (slice\<lparr>pt_generation := pt_generation uploaded\<rparr>)"
proof -
  let ?slice = "filter_public_tree full (visible_labels_in_public_tree full [pn_label leaf])"
  from assms(4) have v: "validate_public_tree hex_decode full = Ok ()" and "persist_public_tree J full docs = (Ok uploaded, docs')"
    by (auto simp: put_public_tree_def split: sum.splits)
  from persist_result [OF assms(1,2) _ this(2)] v obtain g where
    up: "uploaded = full\<lparr>pt_generation := g\<rparr>" and get: "get_public_tree J (pt_label full) docs' = Ok uploaded"
    by (auto simp: validate_iff_valid)
  have "slice_for_fingerprint uploaded fp = Some (?slice\<lparr>pt_generation := g\<rparr>)"
    by (simp add: slice_for_fingerprint_def up Let_def assms(5) generation_irrelevant)
  with get have "context_for_fingerprint J (pt_label full) fp docs' = Ok (?slice\<lparr>pt_generation := pt_generation uploaded\<rparr>)"
    by (simp add: context_for_fingerprint_def up)
  moreover have "leaf \<in> set (pt_nodes full)" using assms(5) by (auto simp: filter_eq_Cons_iff)
  then have "public_slice_for P key_id (pn_label leaf) st = Ok ?slice"
    by (intro local_slice [OF assms(3)]) (simp add: labels_in_def)
  ultimately show ?thesis by blast
qed

definition desk_leaf :: "str \<Rightarrow> str \<Rightarrow> u8 \<Rightarrow> public_node" where
  "desk_leaf l fp b = \<lparr>pn_label = l, pn_parent_label = Some ''root'', pn_threshold = None, pn_is_active = True,
     pn_encryption_fingerprint = Some fp, pn_encryption_public_key = Some (hex_text (replicate 32 b))\<rparr>"

definition desk_full :: public_tree where
  "desk_full = \<lparr>pt_label = ''tree'', pt_generation = 1,
     pt_nodes = [\<lparr>pn_label = ''root'', pn_parent_label = None, pn_threshold = Some 2, pn_is_active = True,
        pn_encryption_fingerprint = None, pn_encryption_public_key = None\<rparr>, desk_leaf ''a'' ''fp1'' 1, desk_leaf ''b'' ''fp2'' 2],
     pt_whitelist = [], pt_links = []\<rparr>"

definition desk_json :: tree_json where
  "desk_json = \<lparr>to_json = (\<lambda>t. if t = desk_full then Some ''1'' else None),
     from_json = (\<lambda>d. if d = ''1'' then Some desk_full else None)\<rparr>"

lemma desk_export: "export_public_tree desk_prims 1 desk_split = Ok desk_full"
  by (simp add: export_public_tree_def key_row_of_def load_def tree_rows_def parent_index_def arena_node_def publish_node_def
      list_bridges_def get_key_def u32_or_one_def desk_split_def toy_split_def toy_store_def toy_node_def toy_key_def desk_full_def
      desk_leaf_def desk_prims_def Let_def upt_conv_Cons)

lemma desk_valid: "validate_public_tree hex_parse desk_full = Ok ()"
proof -
  have ok: "store_ok desk_split" using tree_calls_ok [OF desk_calls] by simp
  obtain row where row: "key_row_of 1 desk_split = Ok row" "k_label row \<noteq> []" by (simp add: key_row_of_def desk_split_def toy_split_def)
  have rows: "tree_rows 1 desk_split \<noteq> []" by (simp add: tree_rows_def desk_split_def toy_split_def toy_node_def)
  from export_ok [OF ok row(1) rows, of desk_prims] export_valid [OF ok row(2) rows, of hex_parse desk_prims desk_full] desk_export
  show ?thesis by (auto simp: desk_prims_def validate_iff_valid)
qed

lemma desk_put:
  "put_public_tree hex_parse desk_json desk_full [] = (Ok desk_full, [\<lparr>doc_label = ''tree'', doc_generation = 1, doc_document = ''1''\<rparr>])"
proof -
  have "desk_full\<lparr>pt_generation := clip_generation 1\<rparr> = desk_full" by (simp add: desk_full_def clip_generation_def)
  with desk_valid show ?thesis
    by (simp add: put_public_tree_def bind_op_def persist_public_tree_def Let_def upsert_doc_def desk_json_def) (simp add: desk_full_def)
qed

theorem reader_gets_local_slice_witness:
  "\<exists>slice. public_slice_for desk_prims 1 ''a'' desk_split = Ok slice
    \<and> context_for_fingerprint desk_json ''tree'' ''fp1'' [\<lparr>doc_label = ''tree'', doc_generation = 1, doc_document = ''1''\<rparr>]
        = Ok (slice\<lparr>pt_generation := 1\<rparr>)"
  using reader_gets_local_slice [OF _ _ desk_export desk_put, of "''fp1''" "desk_leaf ''a'' ''fp1'' 1"]
  by (simp add: json_law_def desk_json_def docs_ok_def) (simp add: desk_full_def desk_leaf_def)

end
