(* ===== verification/Spec2Isabelle.thy ===== *)
theory Spec2Isabelle
  imports Authority ContainerCodec TextMerge Governed Reviewed Ledger KeyTreeProps PublishingProps
begin

text \<open>
  KeyQuorum: a verification development (skeleton).
\<close>

section \<open>Delivery\<close>

text \<open>
  C6. What a delivery hands out can be cut from the file and sent: for the revision that
  \<open>select_shareable_revision\<close> delivers, \<open>extract_revision\<close> succeeds, the copy holds that revision and
  its ancestors only, has it as its single head, is trusted under the same policy, and decodes
  from its encoding to itself.
\<close>

theorem delivered_copy_trusted:
  assumes "prims_ok P" "sound_file P f" "\<not> is_destroyed f"
    "select_shareable_revision P ctx policy f candidate held = Ok d" "dd_delivered_revision d = Some i"
  shows "\<exists>g. extract_revision P i f = Ok g \<and> current_revision g = Some i \<and> is_trusted P ctx policy g i
    \<and> (\<forall>s \<in> set (tf_revisions g). graph_ancestor_or_self (tf_revisions f) (rev_id s) candidate)
    \<and> (\<forall>b. encode_file P g = Ok b \<longrightarrow> decode_file P b = Ok g)"
proof -
  have dag: "dag_ok (tf_revisions f)" using assms(2) by (rule sound_dag)
  note i = delivered_trusted [OF dag assms(4,5)]
  note g = extract_revision_pruned [OF assms(2,3) i(3)]
  let ?g = "prune (ancestor_set (tf_revisions f) i) f"
  have "i \<in> ancestor_set (tf_revisions f) i" using i(3) by (auto simp: ancestor_set_eq [OF dag_ok_distinct [OF dag]])
  then have "is_trusted P ctx policy ?g i" using i(1) by (simp add: prune_trust)
  moreover have "\<forall>s \<in> set (tf_revisions ?g). graph_ancestor_or_self (tf_revisions f) (rev_id s) candidate"
    using i(2) by (auto simp: prune_def Let_def ancestor_set_iff [OF dag]
        graph_ancestor_or_self_iff [OF dag_ok_distinct [OF dag]] intro: rtrancl_trans)
  moreover have "encode_file P ?g = Ok b \<longrightarrow> decode_file P b = Ok ?g" for b
    using g(2) assms(1)
    by (auto simp: sound_file_def encode_file_Ok_iff prims_ok_def intro: decode_file_encode_as container_version_fits)
  ultimately show ?thesis using g by blast
qed

theorem delivered_copy_trusted_witness:
  "\<exists>f i g. extract_revision toy_prims i f = Ok g \<and> current_revision g = Some i
     \<and> is_trusted toy_prims office (standard ''A.1'') g i"
proof -
  obtain f s where f: "governed ''A.1'' f s" "tf_proofs f = []" using governed_exists [of "''A.1''"] by auto
  let ?f = "f\<lparr>tf_proofs := [authored_by s]\<rparr>"
  note signed = governed_signed [OF f]
  have "\<not> is_destroyed ?f" using f(1) by (simp add: governed_def is_destroyed_def)
  have "\<exists>b. descriptor_fed ?f (rev_id s) = Ok b"
    by (simp add: descriptor_fed_def describe_proof_def office_proofs hash_len_prefixed_def encode_all_Cons)
  then obtain p where "proof_descriptor toy_prims ?f (rev_id s) = Ok p" by (auto simp: proof_descriptor_def)
  then obtain d where d: "select_shareable_revision toy_prims office (standard ''A.1'') ?f (rev_id s) None = Ok d"
    "dd_delivered_revision d = Some (rev_id s)"
    using signed(2) governed_get [OF f(1)] by (simp add: select_shareable_revision_def)
  from delivered_copy_trusted [OF toy_prims_ok signed(1) \<open>\<not> is_destroyed ?f\<close> d] show ?thesis by blast
qed

end
